(* ===== verification/Prelude.thy ===== *)
theory Prelude
  imports Main "HOL-Library.Sublist" "HOL-Library.Char_ord" "HOL-Library.List_Lexorder"
begin

text \<open>
  What every component shares. Go strings are byte strings, modelled as HOL's character lists;
  the functions of package \<open>strings\<close> and \<open>strconv\<close> that the source calls are
  defined here, with the laws the components use. A Go panic is a value: a computation that can
  panic returns \<open>go_panic + 'a\<close>. An \<open>int\<close> of the 64-bit targets is an \<open>int\<close>
  with the wrap-around written out (\<open>wrap64\<close>). The last section holds the rule by which
  an invariant of a step relation is lifted to all states that runs can reach.

  Unicode: \<open>strings.ToLower\<close>, \<open>strings.ToUpper\<close> and \<open>strings.TrimSpace\<close> are
  modelled on ASCII. On bytes above 127 the Go functions decode UTF-8 first; the models leave
  such bytes as they are.
\<close>

named_theorems gostr "evaluation and case analysis of the Go string functions"
named_theorems go_res "results that may be a panic"

section \<open>Panics\<close>

datatype go_panic =
    IndexOutOfRange
  | SliceOutOfRange
  | IntnArgument
  | NilDereference
  | MakeSliceLen
  | SendOnClosed
  | CloseOfClosed
  | NegativeWaitGroup
  | TypeAssertion
  | InvalidStatus

type_synonym 'a res = "go_panic + 'a"

fun res_bind :: "'a res \<Rightarrow> ('a \<Rightarrow> 'b res) \<Rightarrow> 'b res" where
  "res_bind (Inl p) f = Inl p"
| "res_bind (Inr a) f = f a"

definition panics :: "'a res \<Rightarrow> bool" where
  "panics r = (case r of Inl _ \<Rightarrow> True | Inr _ \<Rightarrow> False)"

lemma panics_simps [simp, go_res]:
  "panics (Inl p)" "\<not> panics (Inr a)"
  by (simp_all add: panics_def)

lemma res_bind_Inr [go_res]:
  "res_bind r f = Inr b \<longleftrightarrow> (\<exists>a. r = Inr a \<and> f a = Inr b)"
  by (cases r) auto

lemma res_bind_panics [go_res]:
  "panics (res_bind r f) \<longleftrightarrow> panics r \<or> (\<exists>a. r = Inr a \<and> panics (f a))"
  by (cases r) auto

text \<open>A computation that may also not return: \<open>None\<close>.\<close>

fun ro_bind :: "'a res option \<Rightarrow> ('a \<Rightarrow> 'b res option) \<Rightarrow> 'b res option" where
  "ro_bind None f = None"
| "ro_bind (Some (Inl p)) f = Some (Inl p)"
| "ro_bind (Some (Inr a)) f = f a"

text \<open>A computation that comes to an end, with a value or a panic.\<close>

definition ends :: "'a option \<Rightarrow> bool" where
  "ends r = (r \<noteq> None)"

lemma ends_simps [simp]: "ends (Some x)" "\<not> ends None"
  by (simp_all add: ends_def)

lemma ends_ro_bind: "ends r \<Longrightarrow> (\<And>a. r = Some (Inr a) \<Longrightarrow> ends (f a)) \<Longrightarrow> ends (ro_bind r f)"
  by (cases "(r, f)" rule: ro_bind.cases) (simp_all add: ends_def)

lemma ro_bind_Inr [go_res]:
  "ro_bind r f = Some (Inr b) \<longleftrightarrow> (\<exists>a. r = Some (Inr a) \<and> f a = Some (Inr b))"
  by (cases "(r, f)" rule: ro_bind.cases) auto

text \<open>An index expression \<open>xs[i]\<close> with a constant index.\<close>

definition go_index :: "'a list \<Rightarrow> nat \<Rightarrow> 'a res" where
  "go_index xs i = (if i < length xs then Inr (xs ! i) else Inl IndexOutOfRange)"

text \<open>A slice expression \<open>xs[0:n]\<close> on a slice whose capacity is its length.\<close>

definition go_slice_to :: "'a list \<Rightarrow> int \<Rightarrow> 'a list res" where
  "go_slice_to xs n =
     (if 0 \<le> n \<and> n \<le> int (length xs) then Inr (take (nat n) xs) else Inl SliceOutOfRange)"

section \<open>Signed 64-bit integers\<close>

definition max_int64 :: int where
  "max_int64 = 9223372036854775807"

definition min_int64 :: int where
  "min_int64 = - 9223372036854775808"

definition wrap64 :: "int \<Rightarrow> int" where
  "wrap64 x = (x + 9223372036854775808) mod 18446744073709551616 - 9223372036854775808"

lemma wrap64_id: "min_int64 \<le> x \<Longrightarrow> x \<le> max_int64 \<Longrightarrow> wrap64 x = x"
  unfolding wrap64_def min_int64_def max_int64_def
  by (subst mod_pos_pos_trivial) auto

lemma wrap64_range: "min_int64 \<le> wrap64 x \<and> wrap64 x \<le> max_int64"
proof -
  have "0 \<le> (x + 9223372036854775808) mod 18446744073709551616"
    and "(x + 9223372036854775808) mod 18446744073709551616 < 18446744073709551616"
    by simp_all
  then show ?thesis
    unfolding wrap64_def min_int64_def max_int64_def by linarith
qed

lemma wrap64_max_succ: "wrap64 (max_int64 + 1) = min_int64"
  by (simp add: wrap64_def max_int64_def min_int64_def)

section \<open>Package strings\<close>

fun contains :: "string \<Rightarrow> string \<Rightarrow> bool" where
  "contains [] p = (p = [])"
| "contains (c # s) p = (prefix p (c # s) \<or> contains s p)"

lemma contains_sublist: "contains s p \<longleftrightarrow> sublist p s"
  by (induction s) (auto simp: sublist_Cons_right)

lemma contains_single [gostr]: "contains s [c] \<longleftrightarrow> c \<in> set s"
  by (induction s) auto

definition has_suffix :: "string \<Rightarrow> string \<Rightarrow> bool" where
  "has_suffix s p = suffix p s"

lemma has_suffix_single [gostr]: "has_suffix s [c] \<longleftrightarrow> s \<noteq> [] \<and> last s = c"
  by (cases s rule: rev_cases) (auto simp: has_suffix_def suffix_def)

text \<open>
  \<open>strings.Split(s, sep)\<close> for a separator that is not empty (the source never splits on the
  empty string, where Go would explode the string into its characters).
\<close>

function split :: "string \<Rightarrow> string \<Rightarrow> string list" where
  "split sep [] = [[]]"
| "split sep (c # s) =
     (if prefix sep (c # s) then [] # split sep (drop (length sep - 1) s)
      else (case split sep s of [] \<Rightarrow> [[c]] | w # ws \<Rightarrow> (c # w) # ws))"
  by pat_completeness auto
termination
  by (relation "measure (\<lambda>(sep, s). length s)") (auto simp: less_Suc_eq_le)

declare split.simps(2) [simp del]
lemmas split_Cons [gostr] = split.simps(2)

lemma split_not_Nil [simp]: "split sep s \<noteq> []"
  by (induction sep s rule: split.induct) (auto simp: split_Cons split: list.splits)

lemma length_split_pos [simp]: "0 < length (split sep s)"
  by simp

fun join :: "string \<Rightarrow> string list \<Rightarrow> string" where
  "join sep [] = []"
| "join sep [w] = w"
| "join sep (w # ws) = w @ sep @ join sep ws"

lemma join_Cons: "ws \<noteq> [] \<Longrightarrow> join sep (w # ws) = w @ sep @ join sep ws"
  by (cases ws) auto

lemma split_single_Cons [gostr]:
  "split [d] (c # s) =
     (if c = d then [] # split [d] s
      else (case split [d] s of [] \<Rightarrow> [[c]] | w # ws \<Rightarrow> (c # w) # ws))"
  by (simp add: split_Cons)

lemma split_no_sep: "d \<notin> set s \<Longrightarrow> split [d] s = [s]"
  by (induction s) (auto simp: split_single_Cons)

lemma split_append_sep: "d \<notin> set w \<Longrightarrow> split [d] (w @ d # s) = w # split [d] s"
  by (induction w) (auto simp: split_single_Cons)

lemma split_join_single:
  "ws \<noteq> [] \<Longrightarrow> \<forall>w \<in> set ws. d \<notin> set w \<Longrightarrow> split [d] (join [d] ws) = ws"
proof (induction ws)
  case (Cons w ws)
  then show ?case
    by (cases "ws = []") (auto simp: split_no_sep join_Cons split_append_sep)
qed simp

lemma join_split: "sep \<noteq> [] \<Longrightarrow> join sep (split sep s) = s"
proof (induction sep s rule: split.induct)
  case (2 sep c s)
  show ?case
  proof (cases "prefix sep (c # s)")
    case True
    then obtain r where r: "c # s = sep @ r" by (auto simp: prefix_def)
    with "2.prems" have "drop (length sep - 1) s = r" by (cases sep) auto
    with True "2.IH"(1) "2.prems" have "join sep (split sep (c # s)) = sep @ r"
      by (simp add: split_Cons join_Cons)
    with r show ?thesis by simp
  next
    case False
    obtain w ws where ws: "split sep s = w # ws"
      using split_not_Nil [of sep s] by (cases "split sep s") auto
    with False "2.IH"(2) "2.prems" show ?thesis
      by (cases ws) (auto simp: split_Cons)
  qed
qed simp

lemma length_split_single: "length (split [d] s) = Suc (count_list s d)"
proof (induction s)
  case (Cons c s)
  obtain w ws where "split [d] s = w # ws"
    using split_not_Nil [of "[d]" s] by (cases "split [d] s") auto
  with Cons show ?case by (simp add: split_single_Cons)
qed simp

lemma count_list_pos: "c \<in> set s \<Longrightarrow> 0 < count_list s c"
  using count_list_0_iff [of s c] by auto

lemma split_no_sep_elems: "\<forall>w \<in> set (split [d] s). d \<notin> set w"
proof (induction s)
  case (Cons c s)
  obtain w ws where "split [d] s = w # ws"
    using split_not_Nil [of "[d]" s] by (cases "split [d] s") auto
  with Cons show ?case by (auto simp: split_single_Cons)
qed simp

text \<open>\<open>strings.SplitN(s, sep, 2)\<close> for a one-byte separator.\<close>

definition split2 :: "char \<Rightarrow> string \<Rightarrow> string list" where
  "split2 d s =
     (if d \<in> set s then [takeWhile (\<lambda>c. c \<noteq> d) s, tl (dropWhile (\<lambda>c. c \<noteq> d) s)] else [s])"

lemma split2_append: "d \<notin> set w \<Longrightarrow> split2 d (w @ d # s) = [w, s]"
proof -
  assume "d \<notin> set w"
  then have "takeWhile (\<lambda>c. c \<noteq> d) (w @ d # s) = w"
    and "dropWhile (\<lambda>c. c \<noteq> d) (w @ d # s) = d # s"
    by (subst takeWhile_append2 dropWhile_append2; auto)+
  then show ?thesis by (simp add: split2_def)
qed

lemma length_split2: "length (split2 d s) = (if d \<in> set s then 2 else 1)"
  by (simp add: split2_def)

text \<open>\<open>strings.Trim(s, cutset)\<close> and \<open>strings.TrimRight(s, cutset)\<close>.\<close>

definition trim_left :: "(char \<Rightarrow> bool) \<Rightarrow> string \<Rightarrow> string" where
  "trim_left p s = dropWhile p s"

definition trim_right :: "(char \<Rightarrow> bool) \<Rightarrow> string \<Rightarrow> string" where
  "trim_right p s = rev (dropWhile p (rev s))"

definition trim :: "(char \<Rightarrow> bool) \<Rightarrow> string \<Rightarrow> string" where
  "trim p s = trim_right p (trim_left p s)"

lemma trim_right_id: "s = [] \<or> \<not> p (last s) \<Longrightarrow> trim_right p s = s"
  by (cases s rule: rev_cases) (auto simp: trim_right_def)

lemma trim_left_id: "s = [] \<or> \<not> p (hd s) \<Longrightarrow> trim_left p s = s"
  by (cases s) (auto simp: trim_left_def)

lemma trim_id: "s = [] \<or> \<not> p (hd s) \<and> \<not> p (last s) \<Longrightarrow> trim p s = s"
  by (cases "s = []") (simp_all add: trim_def trim_left_id trim_right_id)

lemma trim_left_Cons: "p c \<Longrightarrow> trim p (c # s) = trim p s"
  by (simp add: trim_def trim_left_def)

lemma set_trim: "set (trim p s) \<subseteq> set s"
  by (auto simp: trim_def trim_left_def trim_right_def dest!: set_dropWhileD)

definition is_space :: "char \<Rightarrow> bool" where
  "is_space c = (c \<in> {CHR 0x09, CHR 0x0A, CHR 0x0B, CHR 0x0C, CHR 0x0D, CHR '' ''})"

definition trim_space :: "string \<Rightarrow> string" where
  "trim_space s = trim is_space s"

definition lower_char :: "char \<Rightarrow> char" where
  "lower_char c =
     (if CHR ''A'' \<le> c \<and> c \<le> CHR ''Z'' then char_of (of_char c + (32::nat)) else c)"

definition upper_char :: "char \<Rightarrow> char" where
  "upper_char c =
     (if CHR ''a'' \<le> c \<and> c \<le> CHR ''z'' then char_of (of_char c - (32::nat)) else c)"

definition to_lower :: "string \<Rightarrow> string" where
  "to_lower s = map lower_char s"

definition to_upper :: "string \<Rightarrow> string" where
  "to_upper s = map upper_char s"

lemma lower_char_idem: "lower_char (lower_char c) = lower_char c"
proof (cases "CHR ''A'' \<le> c \<and> c \<le> CHR ''Z''")
  case True
  then have b: "(65::nat) \<le> of_char c" "of_char c \<le> (90::nat)"
    by (simp_all add: less_eq_char_def)
  then have "\<not> char_of (of_char c + (32::nat)) \<le> CHR ''Z''"
    by (simp add: less_eq_char_def)
  with True show ?thesis by (simp add: lower_char_def)
next
  case False
  then have "lower_char c = c" unfolding lower_char_def by (rule if_not_P)
  then show ?thesis by simp
qed

lemma to_lower_idem [simp]: "to_lower (to_lower s) = to_lower s"
  by (simp add: to_lower_def lower_char_idem)

lemma to_lower_append: "to_lower (s @ t) = to_lower s @ to_lower t"
  by (simp add: to_lower_def)

section \<open>Package strconv\<close>

definition is_digit :: "char \<Rightarrow> bool" where
  "is_digit c = (CHR ''0'' \<le> c \<and> c \<le> CHR ''9'')"

definition digit_val :: "char \<Rightarrow> int" where
  "digit_val c = int (of_char c) - 48"

lemma is_digit_code: "is_digit c \<longleftrightarrow> 48 \<le> (of_char c :: nat) \<and> (of_char c :: nat) \<le> 57"
  by (simp add: is_digit_def less_eq_char_def)

lemma digit_val_range: "is_digit c \<Longrightarrow> 0 \<le> digit_val c \<and> digit_val c \<le> 9"
proof -
  assume "is_digit c"
  then have "48 \<le> (of_char c :: nat)" "(of_char c :: nat) \<le> 57"
    by (simp_all add: is_digit_code)
  then show ?thesis unfolding digit_val_def by linarith
qed

definition dec_val :: "string \<Rightarrow> int" where
  "dec_val s = foldl (\<lambda>n c. 10 * n + digit_val c) 0 s"

lemma dec_val_Nil [simp]: "dec_val [] = 0"
  by (simp add: dec_val_def)

lemma dec_val_snoc [simp]: "dec_val (s @ [c]) = 10 * dec_val s + digit_val c"
  by (simp add: dec_val_def)

lemma dec_val_nonneg: "list_all is_digit s \<Longrightarrow> 0 \<le> dec_val s"
  by (induction s rule: rev_induct) (auto dest: digit_val_range)

lemma dec_val_bound: "list_all is_digit s \<Longrightarrow> dec_val s < 10 ^ length s"
proof (induction s rule: rev_induct)
  case (snoc c s)
  then have "dec_val s + 1 \<le> 10 ^ length s" and "digit_val c \<le> 9"
    by (auto dest: digit_val_range)
  then show ?case by simp
qed simp

text \<open>
  \<open>strconv.ParseUint(s, 10, 64)\<close>: the value and the error, for its syntax or its range. It reads from the
  left, so that a number which is already too large is a range error whatever follows it; the
  value is then the largest there is.
\<close>

datatype num_error = SyntaxError | RangeError

definition parse_uint :: "string \<Rightarrow> int \<times> num_error option" where
  "parse_uint s =
     (let n = dec_val (takeWhile is_digit s) in
      if s = [] then (0, Some SyntaxError)
      else if n \<ge> 2 ^ 64 then (2 ^ 64 - 1, Some RangeError)
      else if list_all is_digit s then (n, None)
      else (0, Some SyntaxError))"

text \<open>
  \<open>strconv.Atoi\<close>: the value and whether the error is nil. On a syntax error the value is 0,
  on a range error it is the nearest 64-bit integer.
\<close>

definition atoi :: "string \<Rightarrow> int \<times> bool" where
  "atoi s =
     (let neg = (s \<noteq> [] \<and> hd s = CHR ''-'');
          ds = (if s \<noteq> [] \<and> (hd s = CHR ''-'' \<or> hd s = CHR ''+'') then tl s else s)
      in case parse_uint ds of
           (_, Some SyntaxError) \<Rightarrow> (0, False)
         | (n, _) \<Rightarrow>
             let v = (if neg then - n else n)
             in if v > max_int64 then (max_int64, False)
                else if v < min_int64 then (min_int64, False)
                else (v, True))"

lemma parse_uint_digits:
  "s \<noteq> [] \<Longrightarrow> list_all is_digit s \<Longrightarrow>
   parse_uint s = (if dec_val s \<ge> 2 ^ 64 then (2 ^ 64 - 1, Some RangeError) else (dec_val s, None))"
proof -
  assume s: "s \<noteq> []" "list_all is_digit s"
  have t: "takeWhile is_digit s = s" using s(2) by (simp add: list_all_iff)
  show ?thesis unfolding parse_uint_def t Let_def using s by simp
qed

lemma not_digit_sign: "\<not> is_digit CHR ''-''" "\<not> is_digit CHR ''+''"
  by (simp_all add: is_digit_code)

lemma atoi_digits:
  assumes "s \<noteq> []" and "list_all is_digit s"
  shows "atoi s = (if dec_val s > max_int64 then (max_int64, False) else (dec_val s, True))"
proof -
  have "hd s \<noteq> CHR ''-''" "hd s \<noteq> CHR ''+''"
    using assms not_digit_sign by (cases s; auto)+
  moreover have "\<not> dec_val s < min_int64"
    using dec_val_nonneg [OF assms(2)] by (simp add: min_int64_def)
  ultimately show ?thesis
    using assms by (simp add: atoi_def parse_uint_digits max_int64_def)
qed

lemma fst_atoi_digits:
  "s \<noteq> [] \<Longrightarrow> list_all is_digit s \<Longrightarrow> fst (atoi s) = min (dec_val s) max_int64"
  by (simp add: atoi_digits)

lemma atoi_range: "min_int64 \<le> fst (atoi s) \<and> fst (atoi s) \<le> max_int64"
proof -
  have "min_int64 \<le> fst (if v > max_int64 then (max_int64, False) else if v < min_int64 then (min_int64, False) else (v, True)) \<and>
      fst (if v > max_int64 then (max_int64, False) else if v < min_int64 then (min_int64, False) else (v, True)) \<le> max_int64"
    for v by (simp add: min_int64_def max_int64_def)
  then show ?thesis
    unfolding atoi_def Let_def
    by (split prod.split, split option.split, split num_error.split) (simp add: min_int64_def max_int64_def)
qed

fun nat_str :: "nat \<Rightarrow> string" where
  "nat_str n = (if n < 10 then [char_of (48 + n)] else nat_str (n div 10) @ [char_of (48 + n mod 10)])"

declare nat_str.simps [simp del]

definition itoa :: "int \<Rightarrow> string" where
  "itoa n = (if n < 0 then CHR ''-'' # nat_str (nat (- n)) else nat_str (nat n))"

lemma digit_char [simp]:
  "d < 10 \<Longrightarrow> is_digit (char_of (48 + d :: nat))"
  "d < 10 \<Longrightarrow> digit_val (char_of (48 + d :: nat)) = int d"
proof -
  assume d: "d < (10::nat)"
  then have c: "of_char (char_of (48 + d) :: char) = (48 + d :: nat)" by simp
  then show "is_digit (char_of (48 + d))" using d by (simp add: is_digit_code)
  show "digit_val (char_of (48 + d)) = int d"
    unfolding digit_val_def c by simp
qed

lemma nat_str_digits: "list_all is_digit (nat_str n)"
proof (induction n rule: nat_str.induct)
  case (1 n)
  then show ?case by (subst nat_str.simps) auto
qed

lemma nat_str_not_Nil [simp]: "nat_str n \<noteq> []"
  by (subst nat_str.simps) simp

lemma dec_val_nat_str [simp]: "dec_val (nat_str n) = int n"
proof (induction n rule: nat_str.induct)
  case (1 n)
  show ?case
  proof (cases "n < 10")
    case True
    then show ?thesis
      by (subst nat_str.simps) (simp add: dec_val_def)
  next
    case False
    with 1 show ?thesis
      by (subst nat_str.simps) (simp add: zdiv_int zmod_int)
  qed
qed

lemma atoi_itoa_nonneg:
  assumes "0 \<le> n" and "n \<le> max_int64"
  shows "atoi (itoa n) = (n, True)"
  using assms atoi_digits [OF nat_str_not_Nil nat_str_digits, of "nat n"]
  by (simp add: itoa_def)

section \<open>Maps with an explicit iteration order\<close>

text \<open>
  A Go map that the code ranges over is an association list: its order is the order in which the
  range loop happens to visit the keys, which Go leaves open. A map that is only looked up and
  updated is a HOL map.
\<close>

type_synonym 'v go_map = "(string \<times> 'v) list"

definition wf_map :: "'v go_map \<Rightarrow> bool" where
  "wf_map m = distinct (map fst m)"

lemma wf_map_Nil [simp]: "wf_map []"
  by (simp add: wf_map_def)

lemma wf_map_Cons [simp]: "wf_map ((k, v) # m) \<longleftrightarrow> k \<notin> fst ` set m \<and> wf_map m"
  by (simp add: wf_map_def)

lemma wf_map_map_of: "wf_map m \<Longrightarrow> (k, v) \<in> set m \<Longrightarrow> map_of m k = Some v"
  by (simp add: wf_map_def)

section \<open>Reachable states of a step relation\<close>

text \<open>
  A component that is a step relation interprets this interface with its own relation and
  invariant; every state that a run from a state with the invariant can reach then has it.
\<close>

locale invariant_system =
  fixes step :: "'s \<Rightarrow> 's \<Rightarrow> bool"
    and inv :: "'s \<Rightarrow> bool"
  assumes step_inv: "inv s \<Longrightarrow> step s t \<Longrightarrow> inv t"
begin

lemma run_inv: "step\<^sup>*\<^sup>* s t \<Longrightarrow> inv s \<Longrightarrow> inv t"
  by (induction rule: rtranclp_induct) (auto intro: step_inv)

lemma run_from_init:
  assumes "inv s" and "step\<^sup>*\<^sup>* s t" and "\<And>u. inv u \<Longrightarrow> P u"
  shows "P t"
  using assms run_inv by blast

end

text \<open>
  A relation whose steps lower a rank: its runs are bounded by the rank of the state they start in,
  and every state has a run to one where no step is left.
\<close>

locale ranked_system =
  fixes step :: "'s \<Rightarrow> 's \<Rightarrow> bool"
    and rank :: "'s \<Rightarrow> nat"
  assumes rank_step: "step s t \<Longrightarrow> rank t < rank s"
begin

lemma run_rank: "(step ^^ k) s t \<Longrightarrow> k + rank t \<le> rank s"
proof (induction k arbitrary: t)
  case (Suc k)
  then obtain u where "(step ^^ k) s u" "step u t" by auto
  with Suc.IH [of u] rank_step [of u t] show ?case by simp
qed simp

lemma run_ends: "\<exists>t. step\<^sup>*\<^sup>* s t \<and> (\<nexists>u. step t u)"
proof (induction "rank s" arbitrary: s rule: less_induct)
  case less
  show ?case
  proof (cases "\<exists>u. step s u")
    case True
    then obtain u where u: "step s u" by blast
    with less [OF rank_step] obtain t where "step\<^sup>*\<^sup>* u t" "\<nexists>v. step t v" by blast
    with u show ?thesis by (meson converse_rtranclp_into_rtranclp)
  qed blast
qed

end

end
