(* ===== verification/Regex.thy ===== *)
theory Regex
  imports Prelude
begin

text \<open>
  The part of package \<open>regexp\<close> that the source uses: patterns anchored with \<open>^\<close> and
  \<open>$\<close>, without flags, built from classes, \<open>.\<close>, alternatives, groups and repetitions.
  For such a pattern \<open>FindStringSubmatch\<close> returns a match exactly if the whole string is in
  the pattern's language. \<open>lang\<close> is that language, \<open>rx_match\<close> the executable matcher
  (by derivatives), and the main lemma \<open>rx_match_lang\<close> says that they agree.

  Characters are bytes; Go matches Unicode code points. The two agree on ASCII input, and
  for \<open>.*\<close> and \<open>.+\<close> on every input, as no byte of a UTF-8 sequence is a newline.
\<close>

datatype regex =
    RNone
  | REps
  | RCls "(char \<times> char) list"
  | RAny
  | RAlt regex regex
  | RSeq regex regex
  | RStar regex

definition in_cls :: "(char \<times> char) list \<Rightarrow> char \<Rightarrow> bool" where
  "in_cls cs c = list_ex (\<lambda>(a, b). a \<le> c \<and> c \<le> b) cs"

definition any_char :: "char \<Rightarrow> bool" where
  "any_char c = (c \<noteq> CHR 0x0A)"

definition conc :: "string set \<Rightarrow> string set \<Rightarrow> string set" where
  "conc A B = {u @ v | u v. u \<in> A \<and> v \<in> B}"

definition star_lang :: "string set \<Rightarrow> string set" where
  "star_lang A = {concat ws | ws. set ws \<subseteq> A}"

primrec lang :: "regex \<Rightarrow> string set" where
  "lang RNone = {}"
| "lang REps = {[]}"
| "lang (RCls cs) = {[c] | c. in_cls cs c}"
| "lang RAny = {[c] | c. any_char c}"
| "lang (RAlt r s) = lang r \<union> lang s"
| "lang (RSeq r s) = conc (lang r) (lang s)"
| "lang (RStar r) = star_lang (lang r)"

section \<open>Derived operators of the pattern syntax\<close>

definition rx_chr :: "char \<Rightarrow> regex" where
  "rx_chr c = RCls [(c, c)]"

fun rx_str :: "string \<Rightarrow> regex" where
  "rx_str [] = REps"
| "rx_str [c] = rx_chr c"
| "rx_str (c # s) = RSeq (rx_chr c) (rx_str s)"

definition rx_plus :: "regex \<Rightarrow> regex" where
  "rx_plus r = RSeq r (RStar r)"

definition rx_opt :: "regex \<Rightarrow> regex" where
  "rx_opt r = RAlt r REps"

fun rx_seq :: "regex list \<Rightarrow> regex" where
  "rx_seq [] = REps"
| "rx_seq [r] = r"
| "rx_seq (r # rs) = RSeq r (rx_seq rs)"

fun rx_alt :: "regex list \<Rightarrow> regex" where
  "rx_alt [] = RNone"
| "rx_alt [r] = r"
| "rx_alt (r # rs) = RAlt r (rx_alt rs)"

text \<open>\<open>r{n}\<close>, \<open>r{0,n}\<close> and \<open>r{n,m}\<close>.\<close>

primrec rx_pow :: "nat \<Rightarrow> regex \<Rightarrow> regex" where
  "rx_pow 0 r = REps"
| "rx_pow (Suc n) r = RSeq r (rx_pow n r)"

primrec rx_upto :: "nat \<Rightarrow> regex \<Rightarrow> regex" where
  "rx_upto 0 r = REps"
| "rx_upto (Suc n) r = rx_opt (RSeq r (rx_upto n r))"

definition rx_range :: "nat \<Rightarrow> nat \<Rightarrow> regex \<Rightarrow> regex" where
  "rx_range n m r = RSeq (rx_pow n r) (rx_upto (m - n) r)"

section \<open>The matcher\<close>

primrec nullable :: "regex \<Rightarrow> bool" where
  "nullable RNone = False"
| "nullable REps = True"
| "nullable (RCls cs) = False"
| "nullable RAny = False"
| "nullable (RAlt r s) = (nullable r \<or> nullable s)"
| "nullable (RSeq r s) = (nullable r \<and> nullable s)"
| "nullable (RStar r) = True"

fun mk_seq :: "regex \<Rightarrow> regex \<Rightarrow> regex" where
  "mk_seq RNone s = RNone"
| "mk_seq REps s = s"
| "mk_seq r s = RSeq r s"

fun mk_alt :: "regex \<Rightarrow> regex \<Rightarrow> regex" where
  "mk_alt RNone s = s"
| "mk_alt r RNone = r"
| "mk_alt r s = RAlt r s"

primrec deriv :: "char \<Rightarrow> regex \<Rightarrow> regex" where
  "deriv c RNone = RNone"
| "deriv c REps = RNone"
| "deriv c (RCls cs) = (if in_cls cs c then REps else RNone)"
| "deriv c RAny = (if any_char c then REps else RNone)"
| "deriv c (RAlt r s) = mk_alt (deriv c r) (deriv c s)"
| "deriv c (RSeq r s) =
     (if nullable r then mk_alt (mk_seq (deriv c r) s) (deriv c s) else mk_seq (deriv c r) s)"
| "deriv c (RStar r) = mk_seq (deriv c r) (RStar r)"

fun rx_match :: "regex \<Rightarrow> string \<Rightarrow> bool" where
  "rx_match r [] = nullable r"
| "rx_match r (c # s) = rx_match (deriv c r) s"

lemma Nil_star_lang [simp]: "[] \<in> star_lang A"
  unfolding star_lang_def by (rule CollectI, rule exI [of _ "[]"]) simp

lemma nullable_lang: "nullable r \<longleftrightarrow> [] \<in> lang r"
  by (induction r) (auto simp: conc_def)

lemma lang_mk_seq [simp]: "lang (mk_seq r s) = conc (lang r) (lang s)"
  by (induction r s rule: mk_seq.induct) (auto simp: conc_def)

lemma lang_mk_alt [simp]: "lang (mk_alt r s) = lang r \<union> lang s"
  by (induction r s rule: mk_alt.induct) auto

lemma Cons_conc:
  "c # s \<in> conc A B \<longleftrightarrow>
     ([] \<in> A \<and> c # s \<in> B) \<or> (\<exists>u v. s = u @ v \<and> c # u \<in> A \<and> v \<in> B)"
  unfolding conc_def by (auto simp: Cons_eq_append_conv)

lemma Cons_star_lang:
  "c # s \<in> star_lang A \<longleftrightarrow> (\<exists>u v. s = u @ v \<and> c # u \<in> A \<and> v \<in> star_lang A)"
proof
  assume "c # s \<in> star_lang A"
  then obtain ws where "c # s = concat ws" and "set ws \<subseteq> A"
    by (auto simp: star_lang_def)
  then show "\<exists>u v. s = u @ v \<and> c # u \<in> A \<and> v \<in> star_lang A"
  proof (induction ws)
    case (Cons w ws)
    then show ?case
      by (cases w) (auto simp: star_lang_def)
  qed simp
next
  assume "\<exists>u v. s = u @ v \<and> c # u \<in> A \<and> v \<in> star_lang A"
  then obtain u ws where "s = u @ concat ws" "c # u \<in> A" "set ws \<subseteq> A"
    by (auto simp: star_lang_def)
  then show "c # s \<in> star_lang A"
    unfolding star_lang_def by (auto intro!: exI [of _ "(c # u) # ws"])
qed

lemma lang_deriv: "s \<in> lang (deriv c r) \<longleftrightarrow> c # s \<in> lang r"
proof (induction r arbitrary: s)
  case (RSeq r1 r2)
  then show ?case
    by (auto simp: nullable_lang Cons_conc) (auto simp: conc_def)
next
  case (RStar r)
  then show ?case
    by (auto simp: Cons_star_lang conc_def)
qed auto

theorem rx_match_lang: "rx_match r s \<longleftrightarrow> s \<in> lang r"
  by (induction s arbitrary: r) (auto simp: nullable_lang lang_deriv)

section \<open>Languages of the derived operators\<close>

lemma lang_rx_chr [simp]: "lang (rx_chr c) = {[c]}"
  by (auto simp: rx_chr_def in_cls_def)

lemma conc_eps [simp]: "conc {[]} A = A" "conc A {[]} = A"
  by (auto simp: conc_def)

lemma conc_singleton: "conc {[c]} A = (#) c ` A"
  by (auto simp: conc_def)

lemma in_conc_singleton [simp]: "s \<in> conc {[c]} A \<longleftrightarrow> (\<exists>t. s = c # t \<and> t \<in> A)"
  by (auto simp: conc_def)

lemma lang_rx_str [simp]: "lang (rx_str s) = {s}"
  by (induction s rule: rx_str.induct) (auto simp: conc_def)

lemma lang_rx_plus: "lang (rx_plus r) = conc (lang r) (star_lang (lang r))"
  by (simp add: rx_plus_def)

lemma lang_rx_opt [simp]: "lang (rx_opt r) = insert [] (lang r)"
  by (auto simp: rx_opt_def)

lemma lang_rx_seq_Cons: "lang (rx_seq (r # rs)) = conc (lang r) (lang (rx_seq rs))"
  by (cases rs) auto

lemma lang_rx_alt [simp]: "lang (rx_alt rs) = (\<Union>r \<in> set rs. lang r)"
  by (induction rs rule: rx_alt.induct) auto

text \<open>Repetitions of a class of characters.\<close>

lemma lang_star_cls: "star_lang {[c] | c. P c} = {s. list_all P s}"
proof (intro set_eqI iffI)
  fix s assume "s \<in> star_lang {[c] | c. P c}"
  then obtain ws where "s = concat ws" "set ws \<subseteq> {[c] | c. P c}"
    by (auto simp: star_lang_def)
  then show "s \<in> {s. list_all P s}"
    by (induction ws arbitrary: s) auto
next
  fix s assume "s \<in> {s. list_all P s}"
  then have "set (map (\<lambda>c. [c]) s) \<subseteq> {[c] | c. P c}"
    by (auto simp: list_all_iff)
  moreover have "s = concat (map (\<lambda>c. [c]) s)" by (induction s) auto
  ultimately show "s \<in> star_lang {[c] | c. P c}"
    unfolding star_lang_def by blast
qed

lemma Nil_conc_cls [simp]: "[] \<notin> conc {[c] | c. P c} A"
  by (auto simp: conc_def)

lemma Cons_conc_cls [simp]: "c # s \<in> conc {[c] | c. P c} A \<longleftrightarrow> P c \<and> s \<in> A"
  by (auto simp: Cons_conc)

lemma in_conc_cls: "s \<in> conc {[c] | c. P c} A \<longleftrightarrow> (\<exists>c t. s = c # t \<and> P c \<and> t \<in> A)"
  by (cases s) auto

lemma lang_plus_cls: "conc {[c] | c. P c} {s. list_all P s} = {s. s \<noteq> [] \<and> list_all P s}"
proof (intro set_eqI)
  show "s \<in> conc {[c] | c. P c} {s. list_all P s} \<longleftrightarrow> s \<in> {s. s \<noteq> [] \<and> list_all P s}" for s
    by (cases s) simp_all
qed

lemmas lang_cls = lang_star_cls lang_plus_cls lang_rx_plus

lemma lang_pow_cls: "lang (rx_pow n (RCls cs)) = {s. length s = n \<and> list_all (in_cls cs) s}"
proof (induction n)
  case (Suc n)
  have "s \<in> lang (rx_pow (Suc n) (RCls cs)) \<longleftrightarrow>
      s \<in> {s. length s = Suc n \<and> list_all (in_cls cs) s}" for s
    using Suc by (cases s) auto
  then show ?case by blast
qed auto

lemma lang_upto_cls: "lang (rx_upto n (RCls cs)) = {s. length s \<le> n \<and> list_all (in_cls cs) s}"
proof (induction n)
  case (Suc n)
  have "s \<in> lang (rx_upto (Suc n) (RCls cs)) \<longleftrightarrow>
      s \<in> {s. length s \<le> Suc n \<and> list_all (in_cls cs) s}" for s
    using Suc by (cases s) auto
  then show ?case by blast
qed auto

lemma lang_range_cls:
  assumes "n \<le> m"
  shows "lang (rx_range n m (RCls cs)) =
     {s. n \<le> length s \<and> length s \<le> m \<and> list_all (in_cls cs) s}"
proof (intro set_eqI iffI)
  fix s assume "s \<in> lang (rx_range n m (RCls cs))"
  then show "s \<in> {s. n \<le> length s \<and> length s \<le> m \<and> list_all (in_cls cs) s}"
    using assms by (auto simp: rx_range_def conc_def lang_pow_cls lang_upto_cls)
next
  fix s assume s: "s \<in> {s. n \<le> length s \<and> length s \<le> m \<and> list_all (in_cls cs) s}"
  then have "take n s \<in> lang (rx_pow n (RCls cs))"
    and "drop n s \<in> lang (rx_upto (m - n) (RCls cs))"
    by (auto simp: lang_pow_cls lang_upto_cls list_all_iff dest: in_set_takeD in_set_dropD)
  then show "s \<in> lang (rx_range n m (RCls cs))"
    unfolding rx_range_def lang.simps conc_def
    by (metis (mono_tags, lifting) append_take_drop_id mem_Collect_eq)
qed

end
