(* ===== verification/Validator.thy ===== *)
theory Validator
  imports Regex
begin

text \<open>
  types.go, \<open>newValidator\<close>: one anchored pattern per parameter name, for HTTP and for gRPC.
  Each constant is the pattern of the source, operator by operator, without the anchors. Then
  what the patterns accept, in the terms the commands rely on: percentages are at most 100, status
  codes have three digits, a range has one or two numbers, a header has a name and a value.
\<close>

section \<open>The patterns\<close>

definition cls_digit :: regex where
  "cls_digit = RCls [(CHR ''0'', CHR ''9'')]"

text \<open>\<open>^(100|[0-9]{1,2})$\<close>\<close>

definition regexpPercent :: regex where
  "regexpPercent = RAlt (rx_str ''100'') (rx_range 1 2 cls_digit)"

text \<open>\<open>^([0-9]+)(?:-([0-9]+))?$\<close>\<close>

definition regexpNumRange :: regex where
  "regexpNumRange =
     RSeq (rx_plus cls_digit) (rx_opt (RSeq (rx_chr CHR ''-'') (rx_plus cls_digit)))"

text \<open>\<open>^([0-9]|1[0-6])$\<close>\<close>

definition regexpCode :: regex where
  "regexpCode = RAlt cls_digit (RSeq (rx_chr CHR ''1'') (RCls [(CHR ''0'', CHR ''6'')]))"

text \<open>\<open>^([1-9][0-9]{2})$\<close>\<close>

definition regexpStatus :: regex where
  "regexpStatus = RSeq (RCls [(CHR ''1'', CHR ''9'')]) (rx_pow 2 cls_digit)"

definition header_cls :: "(char \<times> char) list" where
  "header_cls = [(CHR ''a'', CHR ''z''), (CHR ''A'', CHR ''Z''), (CHR ''0'', CHR ''9''),
                 (CHR ''-'', CHR ''-'')]"

text \<open>\<open>^([a-zA-Z0-9-]+): .+$\<close> and \<open>^([a-zA-Z0-9-]+)$\<close>\<close>

definition regexpHeader :: regex where
  "regexpHeader = RSeq (rx_plus (RCls header_cls)) (RSeq (rx_str '': '') (rx_plus RAny))"

definition regexpHeaderName :: regex where
  "regexpHeaderName = rx_plus (RCls header_cls)"

text \<open>\<open>^(on|1|t|true)$\<close> and \<open>^(fin|rst)$\<close> and \<open>^(.*)$\<close>\<close>

definition regexpModeOn :: regex where
  "regexpModeOn = rx_alt [rx_str ''on'', rx_str ''1'', rx_str ''t'', rx_str ''true'']"

definition regexpDisconnect :: regex where
  "regexpDisconnect = rx_alt [rx_str ''fin'', rx_str ''rst'']"

definition regexpAll :: regex where
  "regexpAll = RStar RAny"

text \<open>\<open>([a-zA-Z0-9-.]+)\<close>, \<open>([a-z]{2}-[a-z]+-[1-9][a-d])\<close>,
  \<open>(([a-z0-9]+)\.([a-z0-9]+))\<close>\<close>

definition regexpHostname :: regex where
  "regexpHostname = rx_plus (RCls (header_cls @ [(CHR ''.'', CHR ''.'')]))"

definition regexpAZone :: regex where
  "regexpAZone =
     (let az = RCls [(CHR ''a'', CHR ''z'')]; dash = rx_chr CHR ''-''
      in rx_seq [rx_pow 2 az, dash, rx_plus az, dash,
                 RCls [(CHR ''1'', CHR ''9'')], RCls [(CHR ''a'', CHR ''d'')]])"

definition regexpInstanceType :: regex where
  "regexpInstanceType =
     (let w = rx_plus (RCls [(CHR ''a'', CHR ''z''), (CHR ''0'', CHR ''9'')])
      in rx_seq [w, rx_chr CHR ''.'', w])"

text \<open>
  \<open>((25[0-5]|2[0-4][0-9]|[01]?[0-9][0-9]?).){3}(?:25[0-5]|2[0-4][0-9]|[01]?[0-9][0-9]?)\<close>.
  The dot is not escaped: it is \<open>RAny\<close>.
\<close>

definition rx_octet :: regex where
  "rx_octet = rx_alt
     [RSeq (rx_str ''25'') (RCls [(CHR ''0'', CHR ''5'')]),
      rx_seq [rx_chr CHR ''2'', RCls [(CHR ''0'', CHR ''4'')], cls_digit],
      rx_seq [rx_opt (RCls [(CHR ''0'', CHR ''1'')]), cls_digit, rx_opt cls_digit]]"

definition regexpIPv4 :: regex where
  "regexpIPv4 = RSeq (rx_pow 3 (RSeq rx_octet RAny)) rx_octet"

definition cls_hex :: regex where
  "cls_hex = RCls [(CHR ''0'', CHR ''9''), (CHR ''a'', CHR ''f''), (CHR ''A'', CHR ''F'')]"

text \<open>\<open>(25[0-5]|(2[0-4]|1{0,1}[0-9]){0,1}[0-9])\<close>\<close>

definition rx_octet6 :: regex where
  "rx_octet6 = RAlt (RSeq (rx_str ''25'') (RCls [(CHR ''0'', CHR ''5'')]))
     (RSeq (rx_opt (RAlt (RSeq (rx_chr CHR ''2'') (RCls [(CHR ''0'', CHR ''4'')]))
                         (RSeq (rx_opt (rx_chr CHR ''1'')) cls_digit)))
           cls_digit)"

definition regexpIPv6 :: regex where
  "regexpIPv6 =
     (let h = rx_range 1 4 cls_hex; c = rx_chr CHR '':'';
          hc = RSeq h c; ch = RSeq c h;
          v4 = RSeq (rx_pow 3 (RSeq rx_octet6 RAny)) rx_octet6
      in rx_alt
        [RSeq (rx_range 7 7 hc) h,
         RSeq (rx_range 1 7 hc) c,
         RSeq (rx_range 1 6 hc) ch,
         RSeq (rx_range 1 5 hc) (rx_range 1 2 ch),
         RSeq (rx_range 1 4 hc) (rx_range 1 3 ch),
         RSeq (rx_range 1 3 hc) (rx_range 1 4 ch),
         RSeq (rx_range 1 2 hc) (rx_range 1 5 ch),
         RSeq hc (rx_range 1 6 ch),
         RSeq c (RAlt (rx_range 1 7 ch) c),
         rx_seq [rx_str ''fe80:'', rx_upto 4 (RSeq c (rx_upto 4 cls_hex)), rx_chr CHR ''%'',
                 rx_plus (RCls [(CHR ''0'', CHR ''9''), (CHR ''a'', CHR ''z''),
                                (CHR ''A'', CHR ''Z'')])],
         rx_seq [rx_str ''::'',
                 rx_opt (rx_seq [rx_str ''ffff'',
                   rx_opt (RSeq c (rx_range 1 4 (rx_chr CHR ''0''))), c]),
                 v4],
         rx_seq [rx_range 1 4 hc, c, v4]])"

text \<open>\<open>regexpIPv4 + `/([0-9]|[1-2][0-9]|3[0-2])`\<close> and
  \<open>regexpIPv6 + `/(12[0-8]|1[01][0-9]|[0-9]{1,2})`\<close>\<close>

definition rx_masklen4 :: regex where
  "rx_masklen4 = rx_alt [cls_digit, RSeq (RCls [(CHR ''1'', CHR ''2'')]) cls_digit,
     RSeq (rx_chr CHR ''3'') (RCls [(CHR ''0'', CHR ''2'')])]"

definition rx_masklen6 :: regex where
  "rx_masklen6 = rx_alt [RSeq (rx_str ''12'') (RCls [(CHR ''0'', CHR ''8'')]),
     rx_seq [rx_chr CHR ''1'', RCls [(CHR ''0'', CHR ''1'')], cls_digit],
     rx_range 1 2 cls_digit]"

definition regexpCIDRv4 :: regex where
  "regexpCIDRv4 = rx_seq [regexpIPv4, rx_chr CHR ''/'', rx_masklen4]"

definition regexpCIDRv6 :: regex where
  "regexpCIDRv6 = rx_seq [regexpIPv6, rx_chr CHR ''/'', rx_masklen6]"

definition regexpIPv4v6 :: regex where
  "regexpIPv4v6 = rx_alt [regexpIPv4, regexpIPv6, regexpCIDRv4, regexpCIDRv6]"

definition orSeparator :: string where
  "orSeparator = '' or ''"

text \<open>\<open>"^(" + r + "(" + orSeparator + r + ")*)$"\<close>\<close>

definition rx_or_list :: "regex \<Rightarrow> regex" where
  "rx_or_list r = RSeq r (RStar (RSeq (rx_str orSeparator) r))"

section \<open>The two tables\<close>

type_synonym validator = "string \<rightharpoonup> regex"

definition validatorForHttp :: validator where
  "validatorForHttp = [
     ''cpu'' \<mapsto> regexpPercent,
     ''memory'' \<mapsto> regexpPercent,
     ''sleep'' \<mapsto> regexpNumRange,
     ''size'' \<mapsto> regexpNumRange,
     ''status'' \<mapsto> regexpStatus,
     ''addheader'' \<mapsto> regexpHeader,
     ''delheader'' \<mapsto> regexpHeaderName,
     ''chunk'' \<mapsto> regexpModeOn,
     ''stdout'' \<mapsto> regexpAll,
     ''stderr'' \<mapsto> regexpAll,
     ''disconnect'' \<mapsto> regexpDisconnect,
     ''ifhost'' \<mapsto> rx_or_list regexpHostname,
     ''ifaz'' \<mapsto> rx_or_list regexpAZone,
     ''iftype'' \<mapsto> rx_or_list regexpInstanceType,
     ''ifhostip'' \<mapsto> rx_or_list regexpIPv4v6,
     ''iftargetip'' \<mapsto> rx_or_list regexpIPv4v6,
     ''ifproxy1ip'' \<mapsto> rx_or_list regexpIPv4v6,
     ''ifproxy2ip'' \<mapsto> rx_or_list regexpIPv4v6,
     ''ifproxy3ip'' \<mapsto> rx_or_list regexpIPv4v6,
     ''iflasthopip'' \<mapsto> rx_or_list regexpIPv4v6,
     ''ifclientip'' \<mapsto> rx_or_list regexpIPv4v6]"

text \<open>\<open>maps.Copy(vg, vh)\<close>, six more names, two deletions.\<close>

definition validatorForGrpc :: validator where
  "validatorForGrpc = (validatorForHttp(
     ''addtrailer'' \<mapsto> regexpHeader,
     ''deltrailer'' \<mapsto> regexpHeaderName,
     ''code'' \<mapsto> regexpCode,
     ''repeat'' \<mapsto> regexpNumRange,
     ''dataonly'' \<mapsto> regexpModeOn,
     ''noop'' \<mapsto> regexpModeOn))(''status'' := None, ''chunk'' := None)"

section \<open>What the patterns accept\<close>

lemma in_cls_digit [simp]: "in_cls [(CHR ''0'', CHR ''9'')] = is_digit"
  by (auto simp: fun_eq_iff in_cls_def is_digit_def)

lemma lang_digit: "lang cls_digit = {[c] | c. is_digit c}"
  by (simp add: cls_digit_def)

lemma lang_digits: "lang (rx_plus cls_digit) = {s. s \<noteq> [] \<and> list_all is_digit s}"
  by (simp add: lang_cls lang_digit)

lemma match_percent:
  "rx_match regexpPercent s \<longleftrightarrow>
     s = ''100'' \<or> (length s \<in> {1, 2} \<and> list_all is_digit s)"
  unfolding rx_match_lang regexpPercent_def cls_digit_def
  by (auto simp: lang_range_cls)

lemma match_num_range:
  "rx_match regexpNumRange s \<longleftrightarrow>
     (s \<noteq> [] \<and> list_all is_digit s) \<or>
     (\<exists>a b. s = a @ CHR ''-'' # b \<and> a \<noteq> [] \<and> list_all is_digit a \<and> b \<noteq> [] \<and> list_all is_digit b)"
  unfolding rx_match_lang regexpNumRange_def lang.simps lang_digits lang_rx_opt
  by (auto simp: conc_def)

lemma match_code:
  "rx_match regexpCode s \<longleftrightarrow>
     (\<exists>c. s = [c] \<and> is_digit c) \<or> (\<exists>c. s = [CHR ''1'', c] \<and> CHR ''0'' \<le> c \<and> c \<le> CHR ''6'')"
  unfolding rx_match_lang regexpCode_def
  by (auto simp: lang_digit in_cls_def)

lemma match_status:
  "rx_match regexpStatus s \<longleftrightarrow>
     (\<exists>a b c. s = [a, b, c] \<and> CHR ''1'' \<le> a \<and> a \<le> CHR ''9'' \<and> is_digit b \<and> is_digit c)"
  unfolding rx_match_lang regexpStatus_def cls_digit_def
  by (auto simp: lang_pow_cls in_conc_cls in_cls_def length_Suc_conv numeral_2_eq_2)

lemma match_header:
  "rx_match regexpHeader s \<longleftrightarrow>
     (\<exists>n v. s = n @ '': '' @ v \<and> n \<noteq> [] \<and> list_all (in_cls header_cls) n \<and>
            v \<noteq> [] \<and> list_all any_char v)"
  unfolding rx_match_lang regexpHeader_def
  by (auto simp: lang_cls) (auto simp: conc_def)

lemma match_header_name:
  "rx_match regexpHeaderName s \<longleftrightarrow> s \<noteq> [] \<and> list_all (in_cls header_cls) s"
  unfolding rx_match_lang regexpHeaderName_def by (simp add: lang_cls)

lemma match_mode_on:
  "rx_match regexpModeOn s \<longleftrightarrow> s \<in> {''on'', ''1'', ''t'', ''true''}"
  unfolding rx_match_lang regexpModeOn_def by auto

lemma match_disconnect: "rx_match regexpDisconnect s \<longleftrightarrow> s \<in> {''fin'', ''rst''}"
  unfolding rx_match_lang regexpDisconnect_def by auto

lemma match_all: "rx_match regexpAll s \<longleftrightarrow> list_all any_char s"
  unfolding rx_match_lang regexpAll_def by (simp add: lang_cls)

end
