(* ===== verification/NetIP.thy ===== *)
theory NetIP
  imports Prelude "HOL-Library.Word"
begin

unbundle bit_operations_syntax

text \<open>
  The functions of packages net and net/netip by which types.go compares an address with a
  condition: \<open>net.ParseIP\<close>, \<open>net.ParseCIDR\<close>, \<open>IPNet.Contains\<close>, then
  \<open>matchIPValue\<close> and \<open>judgeActualValue\<close> themselves. An address is the 128-bit number of
  its 16-byte form; an IPv4 address is the mapped one. The lemmas say that a dotted quad is parsed
  to its four bytes, and that a CIDR condition holds exactly if the leading bits agree.
\<close>

type_synonym ip128 = "128 word"

text \<open>The result of \<open>netip.ParseAddr\<close>: the 16-byte form, whether it is an IPv4 address, and
  the zone.\<close>

datatype addr = Addr (addr_v4: bool) (addr16: ip128) (addr_zone: string)

section \<open>Parsing\<close>

text \<open>\<open>parseIPv4Fields\<close>: the fields so far, the value and the number of digits of the current
  one. No digit yet means that the previous character was a dot or that there is none.\<close>

fun ipv4_fields :: "string \<Rightarrow> int list \<Rightarrow> int \<Rightarrow> nat \<Rightarrow> int list option" where
  "ipv4_fields [] fields val digLen =
     (if length fields < 3 then None else Some (fields @ [val]))"
| "ipv4_fields (c # s) fields val digLen =
     (if is_digit c then
        (if digLen = 1 \<and> val = 0 then None
         else if val * 10 + digit_val c > 255 then None
         else ipv4_fields s fields (val * 10 + digit_val c) (digLen + 1))
      else if c = CHR ''.'' then
        (if digLen = 0 \<or> s = [] then None
         else if length fields = 3 then None
         else ipv4_fields s (fields @ [val]) 0 0)
      else None)"

fun ipv4_word :: "int list \<Rightarrow> 32 word" where
  "ipv4_word fs = word_of_int (foldl (\<lambda>n b. n * 256 + b) 0 fs)"

definition v4_prefix :: ip128 where
  "v4_prefix = 0xffff"

definition map_v4 :: "32 word \<Rightarrow> ip128" where
  "map_v4 x = push_bit 32 v4_prefix OR ucast x"

definition parseIPv4 :: "string \<Rightarrow> addr option" where
  "parseIPv4 s = map_option (\<lambda>fs. Addr True (map_v4 (ipv4_word fs)) []) (ipv4_fields s [] 0 0)"

definition is_hex :: "char \<Rightarrow> bool" where
  "is_hex c = (is_digit c \<or> (CHR ''a'' \<le> c \<and> c \<le> CHR ''f'') \<or> (CHR ''A'' \<le> c \<and> c \<le> CHR ''F''))"

definition hex_val :: "char \<Rightarrow> int" where
  "hex_val c =
     (if is_digit c then digit_val c
      else if CHR ''a'' \<le> c \<and> c \<le> CHR ''f'' then int (of_char c) - 87
      else int (of_char c) - 55)"

text \<open>One group of an IPv6 address: its value, the number of its digits and the rest; an error
  at the fifth digit.\<close>

fun hex_group :: "string \<Rightarrow> int \<Rightarrow> nat \<Rightarrow> (int \<times> nat \<times> string) option" where
  "hex_group [] acc off = Some (acc, off, [])"
| "hex_group (c # s) acc off =
     (if is_hex c then
        (if off > 3 then None else hex_group s (acc * 16 + hex_val c) (off + 1))
      else Some (acc, off, c # s))"

text \<open>The loop of \<open>parseIPv6\<close>. Its counter counts the 16-bit groups that still have room; the
  state is the rest of the string, the groups read and the position of the ellipsis.\<close>

fun ipv6_loop ::
  "nat \<Rightarrow> string \<Rightarrow> int list \<Rightarrow> nat option \<Rightarrow> (string \<times> int list \<times> nat option) option" where
  "ipv6_loop 0 s gs ell = Some (s, gs, ell)"
| "ipv6_loop (Suc k) s gs ell =
     (case hex_group s 0 0 of
        None \<Rightarrow> None
      | Some (acc, off, r) \<Rightarrow>
          if off = 0 then None
          else if r \<noteq> [] \<and> hd r = CHR ''.'' then
            (if ell = None \<and> length gs \<noteq> 6 then None
             else if length gs + 2 > 8 then None
             else case ipv4_fields s [] 0 0 of
               Some [a, b, c, d] \<Rightarrow> Some ([], gs @ [a * 256 + b, c * 256 + d], ell)
             | _ \<Rightarrow> None)
          else
            (case r of
               [] \<Rightarrow> Some ([], gs @ [acc], ell)
             | c # r1 \<Rightarrow>
                 if c \<noteq> CHR '':'' then None
                 else (case r1 of
                   [] \<Rightarrow> None
                 | d # r2 \<Rightarrow>
                     if d = CHR '':'' then
                       (if ell \<noteq> None then None
                        else if r2 = [] then Some ([], gs @ [acc], Some (length gs + 1))
                        else ipv6_loop k r2 (gs @ [acc]) (Some (length gs + 1)))
                     else ipv6_loop k r1 (gs @ [acc]) ell)))"

text \<open>After the loop: the whole string is used, and the ellipsis stands for at least one group.\<close>

definition ipv6_expand :: "string \<times> int list \<times> nat option \<Rightarrow> int list option" where
  "ipv6_expand r =
     (case r of (s, gs, ell) \<Rightarrow>
        if s \<noteq> [] then None
        else if length gs < 8 then
          (case ell of
             None \<Rightarrow> None
           | Some e \<Rightarrow> Some (take e gs @ replicate (8 - length gs) 0 @ drop e gs))
        else (case ell of None \<Rightarrow> Some gs | Some _ \<Rightarrow> None))"

definition ipv6_word :: "int list \<Rightarrow> ip128" where
  "ipv6_word gs = word_of_int (foldl (\<lambda>n b. n * 65536 + b) 0 gs)"

definition parseIPv6 :: "string \<Rightarrow> addr option" where
  "parseIPv6 t =
     (let s = takeWhile (\<lambda>c. c \<noteq> CHR ''%'') t;
          zone = tl (dropWhile (\<lambda>c. c \<noteq> CHR ''%'') t)
      in if CHR ''%'' \<in> set t \<and> zone = [] then None
         else if prefix ''::'' s then
           (if length s = 2 then Some (Addr False 0 zone)
            else map_option (\<lambda>gs. Addr False (ipv6_word gs) zone)
                   (Option.bind (ipv6_loop 8 (drop 2 s) [] (Some 0)) ipv6_expand))
         else map_option (\<lambda>gs. Addr False (ipv6_word gs) zone)
                (Option.bind (ipv6_loop 8 s [] None) ipv6_expand))"

definition parseAddr :: "string \<Rightarrow> addr option" where
  "parseAddr s =
     (case dropWhile (\<lambda>c. c \<notin> set ''.:%'') s of
        [] \<Rightarrow> None
      | c # _ \<Rightarrow> if c = CHR ''.'' then parseIPv4 s
                 else if c = CHR '':'' then parseIPv6 s
                 else None)"

definition parseIP :: "string \<Rightarrow> ip128 option" where
  "parseIP s =
     (case parseAddr s of
        None \<Rightarrow> None
      | Some a \<Rightarrow> if addr_zone a \<noteq> [] then None else Some (addr16 a))"

section \<open>Networks\<close>

definition to4 :: "ip128 \<Rightarrow> 32 word option" where
  "to4 ip = (if drop_bit 32 ip = v4_prefix then Some (ucast ip) else None)"

text \<open>\<open>CIDRMask(n, bits)\<close> and an \<open>IPNet\<close> with a 4-byte or a 16-byte address.\<close>

definition cidr_mask :: "nat \<Rightarrow> 'a::len word" where
  "cidr_mask n = NOT (mask (LENGTH('a) - n))"

datatype ipnet = Net4 "32 word" "32 word" | Net6 ip128 ip128

definition parseCIDR :: "string \<Rightarrow> ipnet option" where
  "parseCIDR s =
     (if CHR ''/'' \<notin> set s then None
      else let addr = takeWhile (\<lambda>c. c \<noteq> CHR ''/'') s;
               m = tl (dropWhile (\<lambda>c. c \<noteq> CHR ''/'') s)
           in case parseAddr addr of
                None \<Rightarrow> None
              | Some a \<Rightarrow>
                  if addr_zone a \<noteq> [] then None
                  else if m = [] \<or> \<not> list_all is_digit m \<or>
                          dec_val m > (if addr_v4 a then 32 else 128) then None
                  else let n = nat (dec_val m) in
                    if addr_v4 a
                    then Some (Net4 (ucast (addr16 a) AND cidr_mask n) (cidr_mask n))
                    else Some (Net6 (addr16 a AND cidr_mask n) (cidr_mask n)))"

text \<open>\<open>Contains\<close>: a 16-byte network address that is a mapped IPv4 address counts as one, with
  the last four bytes of the mask.\<close>

fun net_contains :: "ipnet \<Rightarrow> ip128 \<Rightarrow> bool" where
  "net_contains (Net4 nn m) ip =
     (case to4 ip of None \<Rightarrow> False | Some x \<Rightarrow> nn AND m = x AND m)"
| "net_contains (Net6 nn m) ip =
     (case to4 nn of
        Some n4 \<Rightarrow> (case to4 ip of
           None \<Rightarrow> False
         | Some x \<Rightarrow> n4 AND ucast m = x AND ucast m)
      | None \<Rightarrow> (case to4 ip of
           Some _ \<Rightarrow> False
         | None \<Rightarrow> nn AND m = ip AND m))"

section \<open>Conditions on addresses (types.go)\<close>

definition matchIPValue :: "string \<Rightarrow> string \<Rightarrow> bool" where
  "matchIPValue actualValue value =
     (if contains value ''/'' then
        (case parseIP actualValue of
           None \<Rightarrow> False
         | Some ip \<Rightarrow> (case parseCIDR value of None \<Rightarrow> False | Some n \<Rightarrow> net_contains n ip))
      else actualValue = value)"

definition judgeActualValue :: "string \<Rightarrow> string \<Rightarrow> bool" where
  "judgeActualValue actualValue value =
     (if contains value '' or '' then list_ex (matchIPValue actualValue) (split '' or '' value)
      else matchIPValue actualValue value)"

section \<open>Dotted quads\<close>

definition dotted :: "int list \<Rightarrow> string" where
  "dotted fs = join ''.'' (map itoa fs)"

definition octet :: "int \<Rightarrow> bool" where
  "octet b = (0 \<le> b \<and> b \<le> 255)"

lemma nat_str_small: "n < 10 \<Longrightarrow> nat_str n = [char_of (48 + n)]"
  by (subst nat_str.simps) simp

lemma ipv4_fields_digits:
  assumes "n \<le> 255"
  shows "ipv4_fields (nat_str n @ s) fs 0 0 =
    ipv4_fields s fs (int n) (length (nat_str n))"
proof -
  have nat3: "nat_str n = (if n < 10 then [char_of (48 + n)]
      else if n < 100 then [char_of (48 + n div 10), char_of (48 + n mod 10)]
      else [char_of (48 + n div 100), char_of (48 + n div 10 mod 10), char_of (48 + n mod 10)])"
    using assms
    by (subst nat_str.simps, subst nat_str.simps, simp add: nat_str_small div_mult2_eq [symmetric], arith)
  have d1: "\<And>a b. a < 10 \<Longrightarrow> b < 10 \<Longrightarrow> n = a * 10 + b \<Longrightarrow> 0 < a \<Longrightarrow>
      ipv4_fields (char_of (48 + a) # char_of (48 + b) # s) fs 0 0 = ipv4_fields s fs (int n) (length [a, b])"
    using assms by auto
  have d2: "\<And>a b c. a < 10 \<Longrightarrow> b < 10 \<Longrightarrow> c < 10 \<Longrightarrow> n = a * 100 + b * 10 + c \<Longrightarrow> 0 < a \<Longrightarrow>
      ipv4_fields (char_of (48 + a) # char_of (48 + b) # char_of (48 + c) # s) fs 0 0 =
      ipv4_fields s fs (int n) (length [a, b, c])"
    using assms by (auto simp: mult.commute)
  consider "n < 10" | "10 \<le> n" "n < 100" | "100 \<le> n" by linarith
  then show ?thesis
  proof cases
    case 1
    then show ?thesis by (simp add: nat3)
  next
    case 2
    then have e: "nat_str n = [char_of (48 + n div 10), char_of (48 + n mod 10)]"
      by (simp add: nat3)
    have "ipv4_fields (nat_str n @ s) fs 0 0 =
        ipv4_fields s fs (int n) (length [n div 10, n mod 10])"
      unfolding e append.simps by (rule d1) (use 2 in auto)
    with e show ?thesis by simp
  next
    case 3
    then have e: "nat_str n =
        [char_of (48 + n div 100), char_of (48 + n div 10 mod 10), char_of (48 + n mod 10)]"
      by (simp add: nat3)
    have r: "n div 100 < 10" "n div 10 mod 10 < 10" "n mod 10 < 10" "0 < n div 100"
      using 3 assms by linarith+
    have m: "n = n div 100 * 100 + n div 10 mod 10 * 10 + n mod 10"
    proof -
      have "n = n div 10 * 10 + n mod 10" by simp
      moreover have "n div 10 = n div 10 div 10 * 10 + n div 10 mod 10" by simp
      moreover have "n div 10 div 10 = n div 100" by (simp add: div_mult2_eq [symmetric])
      ultimately show ?thesis by linarith
    qed
    have "ipv4_fields (nat_str n @ s) fs 0 0 =
        ipv4_fields s fs (int n) (length [n div 100, n div 10 mod 10, n mod 10])"
      unfolding e append.simps by (rule d2 [OF r(1-3) m r(4)])
    with e show ?thesis by simp
  qed
qed

lemma itoa_octet: "octet b \<Longrightarrow> itoa b = nat_str (nat b) \<and> nat b \<le> 255 \<and> int (nat b) = b"
  by (auto simp: octet_def itoa_def)

lemma ipv4_fields_octet:
  "octet b \<Longrightarrow> ipv4_fields (itoa b @ s) fs 0 0 = ipv4_fields s fs b (length (itoa b))"
  using ipv4_fields_digits [of "nat b"] itoa_octet [of b] by metis

lemma ipv4_fields_dot:
  "length fs < 3 \<Longrightarrow> s \<noteq> [] \<Longrightarrow> 0 < k \<Longrightarrow>
   ipv4_fields (CHR ''.'' # s) fs v k = ipv4_fields s (fs @ [v]) 0 0"
  by (simp add: is_digit_code)

lemma itoa_not_Nil [simp]: "itoa n \<noteq> []"
  by (simp add: itoa_def)

lemma length_itoa_pos: "0 < length (itoa n)"
  by simp

lemma dotted4: "dotted [a, b, c, d] = itoa a @ CHR ''.'' # itoa b @ CHR ''.'' # itoa c @ CHR ''.'' # itoa d"
  by (simp add: dotted_def)

lemma ipv4_fields_dotted:
  assumes "octet a" "octet b" "octet c" "octet d"
  shows "ipv4_fields (dotted [a, b, c, d]) [] 0 0 = Some [a, b, c, d]"
  using assms ipv4_fields_octet [of d "[]" "[a, b, c]"]
  by (simp add: dotted4 ipv4_fields_octet ipv4_fields_dot length_itoa_pos del: ipv4_fields.simps)
     (simp add: ipv4_fields.simps(1))

lemma set_itoa_octet: "octet b \<Longrightarrow> c \<in> set (itoa b) \<Longrightarrow> is_digit c"
  using nat_str_digits [of "nat b"] by (auto simp: itoa_octet list_all_iff)

lemma set_dotted:
  assumes "octet a" "octet b" "octet c" "octet d" and "x \<in> set (dotted [a, b, c, d])"
  shows "is_digit x \<or> x = CHR ''.''"
  using assms by (auto simp: dotted4 dest: set_itoa_octet)

lemma dropWhile_dotted:
  assumes "octet a"
  shows "dropWhile (\<lambda>x. x \<notin> set ''.:%'') (dotted [a, b, c, d]) =
    CHR ''.'' # itoa b @ CHR ''.'' # itoa c @ CHR ''.'' # itoa d"
proof -
  have "x \<notin> set ''.:%''" if "x \<in> set (itoa a)" for x
    using set_itoa_octet [OF assms that] by (auto simp: is_digit_code)
  then have "dropWhile (\<lambda>x. x \<notin> set ''.:%'') (itoa a @ r) = dropWhile (\<lambda>x. x \<notin> set ''.:%'') r" for r
    by (rule dropWhile_append2)
  then show ?thesis by (simp add: dotted4)
qed

lemma parseAddr_dotted:
  assumes "octet a" "octet b" "octet c" "octet d"
  shows "parseAddr (dotted [a, b, c, d]) = Some (Addr True (map_v4 (ipv4_word [a, b, c, d])) [])"
  unfolding parseAddr_def dropWhile_dotted [OF assms(1)] parseIPv4_def ipv4_fields_dotted [OF assms]
  by (simp del: ipv4_word.simps)

lemma to4_map_v4 [simp]: "to4 (map_v4 x) = Some x" "ucast (map_v4 x) = x"
proof -
  have "drop_bit 32 (map_v4 x) = v4_prefix"
    by (rule bit_word_eqI) (auto simp: map_v4_def bit_simps v4_prefix_def dest: bit_imp_le_length)
  moreover show "ucast (map_v4 x) = x"
    by (rule bit_word_eqI) (auto simp: map_v4_def bit_simps)
  ultimately show "to4 (map_v4 x) = Some x" by (simp add: to4_def)
qed

lemma masked_eq_iff:
  "x AND cidr_mask n = y AND cidr_mask n \<longleftrightarrow>
   drop_bit (LENGTH('a::len) - n) x = drop_bit (LENGTH('a) - n) (y :: 'a word)"
  (is "?l \<longleftrightarrow> ?r")
proof
  assume l: ?l
  show ?r
  proof (rule bit_word_eqI)
    fix i assume "i < LENGTH('a)"
    show "bit (drop_bit (LENGTH('a) - n) x) i = bit (drop_bit (LENGTH('a) - n) y) i"
      using arg_cong [OF l, of "\<lambda>w. bit w (LENGTH('a) - n + i)"]
      by (auto simp: bit_simps cidr_mask_def dest: bit_imp_le_length)
  qed
next
  assume r: ?r
  show ?l
  proof (rule bit_word_eqI)
    fix i assume i: "i < LENGTH('a)"
    show "bit (x AND cidr_mask n) i = bit (y AND cidr_mask n) i"
      using arg_cong [OF r, of "\<lambda>w. bit w (i - (LENGTH('a) - n))"] i
      by (cases "LENGTH('a) - n \<le> i") (auto simp: bit_simps cidr_mask_def)
  qed
qed

lemma and_mask_idem: "(y AND m) AND m = y AND (m :: 'a::len word)"
  by (simp add: and.assoc)

lemma parseIP_dotted:
  assumes "octet a" "octet b" "octet c" "octet d"
  shows "parseIP (dotted [a, b, c, d]) = Some (map_v4 (ipv4_word [a, b, c, d]))"
  using assms by (simp add: parseIP_def parseAddr_dotted del: ipv4_word.simps)

lemma parseCIDR_dotted:
  assumes "octet a" "octet b" "octet c" "octet d" and "0 \<le> n" "n \<le> 32"
  shows "parseCIDR (dotted [a, b, c, d] @ ''/'' @ itoa n) =
    Some (Net4 (ipv4_word [a, b, c, d] AND cidr_mask (nat n)) (cidr_mask (nat n)))"
proof -
  let ?q = "dotted [a, b, c, d]"
  have ns: "\<forall>x \<in> set ?q. x \<noteq> CHR ''/''"
    using set_dotted [OF assms(1-4), of "CHR ''/''"] by (auto simp: is_digit_code)
  then have "takeWhile (\<lambda>x. x \<noteq> CHR ''/'') (?q @ ''/'' @ itoa n) = ?q"
    and "dropWhile (\<lambda>x. x \<noteq> CHR ''/'') (?q @ ''/'' @ itoa n) = ''/'' @ itoa n"
    by (simp_all add: takeWhile_append dropWhile_append)
  moreover have "itoa n = nat_str (nat n)" using assms(5) by (simp add: itoa_def)
  ultimately show ?thesis
    using assms
    by (simp add: parseCIDR_def Let_def parseAddr_dotted nat_str_digits del: ipv4_word.simps)
qed



text \<open>Sample addresses for the IPv6 parser.\<close>

lemma parseIP_samples:
  "parseIP ''::1'' = Some 1"
  "parseIP ''2001:db8::8:800:200c:417a'' = Some 42540766411282592856906245548098208122"
  "parseIP ''::ffff:10.0.0.1'' = Some (map_v4 167772161)"
  "parseIP ''fe80::1%eth0'' = None"
  "parseIP ''1:2:3:4:5:6:7'' = None"
  "parseIP ''1::2::3'' = None"
  "parseIP ''010.0.0.1'' = None"
  by code_simp+

lemma matchIPValue_v6_samples:
  "matchIPValue ''2001:db8:1::5'' ''2001:db8::/32''"
  "\<not> matchIPValue ''2001:db9::5'' ''2001:db8::/32''"
  "\<not> matchIPValue ''10.0.0.1'' ''::/0''"
  by code_simp+

end
