(* ===== verification/Commands.thy ===== *)
theory Commands
  imports Validator NetIP "HOL-Library.Multiset"
begin

text \<open>
  types.go: the commands of a request. \<open>validateCommands\<close> reads the parameters (query
  string or gRPC message) into a \<open>Commands\<close> record, sorting each recognised name into
  actions, matched or unmatched conditions, and invalid parameters; \<open>needsAction\<close> decides
  whether anything is done; \<open>evaluate\<close> computes the values shown as the result, drawing
  random values for ranges.

  The random source is a sequence of naturals that \<open>rand.Intn\<close> reduces to its range, so a
  statement for every sequence covers every draw. A map that the source ranges over is an
  association list in the order of that range loop.
\<close>

section \<open>Data\<close>

record host_info =
  hostName :: string
  hostIP :: string
  hostAZ :: string
  hostType :: string

record request_info =
  reqProto :: string
  reqMethod :: string
  reqPath :: string
  reqQuery :: string
  reqHeader :: "string go_map"
  reqClientIP :: string
  reqProxy1IP :: string
  reqProxy2IP :: string
  reqProxy3IP :: string
  reqLastHopIP :: string
  reqTargetIP :: string
  reqMtlsCert :: string

record commands =
  cCPU :: string
  cMemory :: string
  cSleep :: string
  cSize :: string
  cCode :: string
  cStatus :: string
  cAddHeader :: string
  cDelHeader :: string
  cAddTrailer :: string
  cDelTrailer :: string
  cChunk :: string
  cStdout :: string
  cStderr :: string
  cDisconnect :: string
  cRepeat :: string
  cDataOnly :: string
  cNoop :: string
  actions :: "string list"
  ifMatches :: "string list"
  ifUnmatches :: "string list"
  invalids :: "string list"
  cIfClientIP :: string
  cIfProxy1IP :: string
  cIfProxy2IP :: string
  cIfProxy3IP :: string
  cIfLasthopIP :: string
  cIfTargetIP :: string
  cIfHostIP :: string
  cIfHost :: string
  cIfAZ :: string
  cIfType :: string

definition no_commands :: commands where
  "no_commands = \<lparr>cCPU = [], cMemory = [], cSleep = [], cSize = [], cCode = [],
     cStatus = [], cAddHeader = [], cDelHeader = [], cAddTrailer = [], cDelTrailer = [],
     cChunk = [], cStdout = [], cStderr = [], cDisconnect = [], cRepeat = [],
     cDataOnly = [], cNoop = [],
     actions = [], ifMatches = [], ifUnmatches = [], invalids = [],
     cIfClientIP = [], cIfProxy1IP = [], cIfProxy2IP = [], cIfProxy3IP = [], cIfLasthopIP = [],
     cIfTargetIP = [], cIfHostIP = [], cIfHost = [], cIfAZ = [], cIfType = []\<rparr>"

definition getValue :: "commands \<Rightarrow> string \<Rightarrow> string" where
  "getValue cmds key =
    (if key = ''cpu'' then cCPU cmds
     else if key = ''memory'' then cMemory cmds
     else if key = ''sleep'' then cSleep cmds
     else if key = ''size'' then cSize cmds
     else if key = ''code'' then cCode cmds
     else if key = ''status'' then cStatus cmds
     else if key = ''addheader'' then cAddHeader cmds
     else if key = ''delheader'' then cDelHeader cmds
     else if key = ''addtrailer'' then cAddTrailer cmds
     else if key = ''deltrailer'' then cDelTrailer cmds
     else if key = ''chunk'' then cChunk cmds
     else if key = ''stdout'' then cStdout cmds
     else if key = ''stderr'' then cStderr cmds
     else if key = ''disconnect'' then cDisconnect cmds
     else if key = ''repeat'' then cRepeat cmds
     else if key = ''dataonly'' then cDataOnly cmds
     else if key = ''noop'' then cNoop cmds
     else [])"

definition setValue :: "string \<Rightarrow> string \<Rightarrow> commands \<Rightarrow> commands" where
  "setValue key value cmds =
    (if key = ''cpu'' then cmds\<lparr>cCPU := value\<rparr>
     else if key = ''memory'' then cmds\<lparr>cMemory := value\<rparr>
     else if key = ''sleep'' then cmds\<lparr>cSleep := value\<rparr>
     else if key = ''size'' then cmds\<lparr>cSize := value\<rparr>
     else if key = ''code'' then cmds\<lparr>cCode := value\<rparr>
     else if key = ''status'' then cmds\<lparr>cStatus := value\<rparr>
     else if key = ''addheader'' then cmds\<lparr>cAddHeader := value\<rparr>
     else if key = ''delheader'' then cmds\<lparr>cDelHeader := value\<rparr>
     else if key = ''addtrailer'' then cmds\<lparr>cAddTrailer := value\<rparr>
     else if key = ''deltrailer'' then cmds\<lparr>cDelTrailer := value\<rparr>
     else if key = ''chunk'' then cmds\<lparr>cChunk := value\<rparr>
     else if key = ''stdout'' then cmds\<lparr>cStdout := value\<rparr>
     else if key = ''stderr'' then cmds\<lparr>cStderr := value\<rparr>
     else if key = ''disconnect'' then cmds\<lparr>cDisconnect := value\<rparr>
     else if key = ''repeat'' then cmds\<lparr>cRepeat := value\<rparr>
     else if key = ''dataonly'' then cmds\<lparr>cDataOnly := value\<rparr>
     else if key = ''noop'' then cmds\<lparr>cNoop := value\<rparr>
     else if key = ''ifclientip'' then cmds\<lparr>cIfClientIP := value\<rparr>
     else if key = ''ifproxy1ip'' then cmds\<lparr>cIfProxy1IP := value\<rparr>
     else if key = ''ifproxy2ip'' then cmds\<lparr>cIfProxy2IP := value\<rparr>
     else if key = ''ifproxy3ip'' then cmds\<lparr>cIfProxy3IP := value\<rparr>
     else if key = ''iflasthopip'' then cmds\<lparr>cIfLasthopIP := value\<rparr>
     else if key = ''iftargetip'' then cmds\<lparr>cIfTargetIP := value\<rparr>
     else if key = ''ifhostip'' then cmds\<lparr>cIfHostIP := value\<rparr>
     else if key = ''ifhost'' then cmds\<lparr>cIfHost := value\<rparr>
     else if key = ''ifaz'' then cmds\<lparr>cIfAZ := value\<rparr>
     else if key = ''iftype'' then cmds\<lparr>cIfType := value\<rparr>
     else cmds)"

text \<open>Every field by its parameter name; \<open>getValue\<close> reads only the actions' fields.\<close>

definition cmd_field :: "commands \<Rightarrow> string \<Rightarrow> string" where
  "cmd_field cmds key =
    (if key = ''cpu'' then cCPU cmds
     else if key = ''memory'' then cMemory cmds
     else if key = ''sleep'' then cSleep cmds
     else if key = ''size'' then cSize cmds
     else if key = ''code'' then cCode cmds
     else if key = ''status'' then cStatus cmds
     else if key = ''addheader'' then cAddHeader cmds
     else if key = ''delheader'' then cDelHeader cmds
     else if key = ''addtrailer'' then cAddTrailer cmds
     else if key = ''deltrailer'' then cDelTrailer cmds
     else if key = ''chunk'' then cChunk cmds
     else if key = ''stdout'' then cStdout cmds
     else if key = ''stderr'' then cStderr cmds
     else if key = ''disconnect'' then cDisconnect cmds
     else if key = ''repeat'' then cRepeat cmds
     else if key = ''dataonly'' then cDataOnly cmds
     else if key = ''noop'' then cNoop cmds
     else if key = ''ifclientip'' then cIfClientIP cmds
     else if key = ''ifproxy1ip'' then cIfProxy1IP cmds
     else if key = ''ifproxy2ip'' then cIfProxy2IP cmds
     else if key = ''ifproxy3ip'' then cIfProxy3IP cmds
     else if key = ''iflasthopip'' then cIfLasthopIP cmds
     else if key = ''iftargetip'' then cIfTargetIP cmds
     else if key = ''ifhostip'' then cIfHostIP cmds
     else if key = ''ifhost'' then cIfHost cmds
     else if key = ''ifaz'' then cIfAZ cmds
     else if key = ''iftype'' then cIfType cmds
     else [])"

definition action_keys :: "string list" where
  "action_keys = [''cpu'', ''memory'', ''sleep'', ''size'', ''code'', ''status'',
     ''addheader'', ''delheader'', ''addtrailer'', ''deltrailer'', ''chunk'', ''stdout'',
     ''stderr'', ''disconnect'', ''repeat'', ''dataonly'', ''noop'']"

definition if_keys :: "string list" where
  "if_keys = [''ifclientip'', ''ifproxy1ip'', ''ifproxy2ip'', ''ifproxy3ip'', ''iflasthopip'',
     ''iftargetip'', ''ifhostip'', ''ifhost'', ''ifaz'', ''iftype'']"
section \<open>Fields\<close>

text \<open>The interface of a store of values by key, of which the command fields are one instance
  and the header map another.\<close>

locale keyed_store =
  fixes valid_key :: "'k \<Rightarrow> bool"
    and get :: "'s \<Rightarrow> 'k \<Rightarrow> 'v"
    and put :: "'k \<Rightarrow> 'v \<Rightarrow> 's \<Rightarrow> 's"
  assumes get_put: "valid_key k \<Longrightarrow> get (put k v s) k' = (if k' = k then v else get s k')"
begin

definition put_all :: "('k \<times> 'v) list \<Rightarrow> 's \<Rightarrow> 's" where
  "put_all kvs s = foldl (\<lambda>s (k, v). put k v s) s kvs"

lemma put_all_Nil [simp]: "put_all [] s = s"
  by (simp add: put_all_def)

lemma put_all_Cons [simp]: "put_all ((k, v) # kvs) s = put_all kvs (put k v s)"
  by (simp add: put_all_def)

lemma get_put_all_other:
  "\<forall>k' \<in> fst ` set kvs. valid_key k' \<Longrightarrow> k \<notin> fst ` set kvs \<Longrightarrow> get (put_all kvs s) k = get s k"
  by (induction kvs arbitrary: s) (auto simp: get_put)

lemma get_put_all:
  assumes "\<forall>k' \<in> fst ` set kvs. valid_key k'" and "distinct (map fst kvs)" and "(k, v) \<in> set kvs"
  shows "get (put_all kvs s) k = v"
  using assms
proof (induction kvs arbitrary: s)
  case (Cons kv kvs)
  then show ?case
    by (cases kv; cases "k = fst kv") (auto simp: get_put_all_other get_put image_iff)
qed simp

end

definition known_key :: "string \<Rightarrow> bool" where
  "known_key k = (k \<in> set action_keys \<or> k \<in> set if_keys)"

lemma cmd_field_key [simp]:
  "cmd_field c ''cpu'' = cCPU c"
  "cmd_field c ''memory'' = cMemory c"
  "cmd_field c ''sleep'' = cSleep c"
  "cmd_field c ''size'' = cSize c"
  "cmd_field c ''code'' = cCode c"
  "cmd_field c ''status'' = cStatus c"
  "cmd_field c ''addheader'' = cAddHeader c"
  "cmd_field c ''delheader'' = cDelHeader c"
  "cmd_field c ''addtrailer'' = cAddTrailer c"
  "cmd_field c ''deltrailer'' = cDelTrailer c"
  "cmd_field c ''chunk'' = cChunk c"
  "cmd_field c ''stdout'' = cStdout c"
  "cmd_field c ''stderr'' = cStderr c"
  "cmd_field c ''disconnect'' = cDisconnect c"
  "cmd_field c ''repeat'' = cRepeat c"
  "cmd_field c ''dataonly'' = cDataOnly c"
  "cmd_field c ''noop'' = cNoop c"
  "cmd_field c ''ifclientip'' = cIfClientIP c"
  "cmd_field c ''ifproxy1ip'' = cIfProxy1IP c"
  "cmd_field c ''ifproxy2ip'' = cIfProxy2IP c"
  "cmd_field c ''ifproxy3ip'' = cIfProxy3IP c"
  "cmd_field c ''iflasthopip'' = cIfLasthopIP c"
  "cmd_field c ''iftargetip'' = cIfTargetIP c"
  "cmd_field c ''ifhostip'' = cIfHostIP c"
  "cmd_field c ''ifhost'' = cIfHost c"
  "cmd_field c ''ifaz'' = cIfAZ c"
  "cmd_field c ''iftype'' = cIfType c"
  by (simp_all add: cmd_field_def)

lemma setValue_key [simp]:
  "setValue ''cpu'' v c = c\<lparr>cCPU := v\<rparr>"
  "setValue ''memory'' v c = c\<lparr>cMemory := v\<rparr>"
  "setValue ''sleep'' v c = c\<lparr>cSleep := v\<rparr>"
  "setValue ''size'' v c = c\<lparr>cSize := v\<rparr>"
  "setValue ''code'' v c = c\<lparr>cCode := v\<rparr>"
  "setValue ''status'' v c = c\<lparr>cStatus := v\<rparr>"
  "setValue ''addheader'' v c = c\<lparr>cAddHeader := v\<rparr>"
  "setValue ''delheader'' v c = c\<lparr>cDelHeader := v\<rparr>"
  "setValue ''addtrailer'' v c = c\<lparr>cAddTrailer := v\<rparr>"
  "setValue ''deltrailer'' v c = c\<lparr>cDelTrailer := v\<rparr>"
  "setValue ''chunk'' v c = c\<lparr>cChunk := v\<rparr>"
  "setValue ''stdout'' v c = c\<lparr>cStdout := v\<rparr>"
  "setValue ''stderr'' v c = c\<lparr>cStderr := v\<rparr>"
  "setValue ''disconnect'' v c = c\<lparr>cDisconnect := v\<rparr>"
  "setValue ''repeat'' v c = c\<lparr>cRepeat := v\<rparr>"
  "setValue ''dataonly'' v c = c\<lparr>cDataOnly := v\<rparr>"
  "setValue ''noop'' v c = c\<lparr>cNoop := v\<rparr>"
  "setValue ''ifclientip'' v c = c\<lparr>cIfClientIP := v\<rparr>"
  "setValue ''ifproxy1ip'' v c = c\<lparr>cIfProxy1IP := v\<rparr>"
  "setValue ''ifproxy2ip'' v c = c\<lparr>cIfProxy2IP := v\<rparr>"
  "setValue ''ifproxy3ip'' v c = c\<lparr>cIfProxy3IP := v\<rparr>"
  "setValue ''iflasthopip'' v c = c\<lparr>cIfLasthopIP := v\<rparr>"
  "setValue ''iftargetip'' v c = c\<lparr>cIfTargetIP := v\<rparr>"
  "setValue ''ifhostip'' v c = c\<lparr>cIfHostIP := v\<rparr>"
  "setValue ''ifhost'' v c = c\<lparr>cIfHost := v\<rparr>"
  "setValue ''ifaz'' v c = c\<lparr>cIfAZ := v\<rparr>"
  "setValue ''iftype'' v c = c\<lparr>cIfType := v\<rparr>"
  by (simp_all add: setValue_def)

lemma getValue_key [simp]:
  "getValue c ''cpu'' = cCPU c"
  "getValue c ''memory'' = cMemory c"
  "getValue c ''sleep'' = cSleep c"
  "getValue c ''size'' = cSize c"
  "getValue c ''code'' = cCode c"
  "getValue c ''status'' = cStatus c"
  "getValue c ''addheader'' = cAddHeader c"
  "getValue c ''delheader'' = cDelHeader c"
  "getValue c ''addtrailer'' = cAddTrailer c"
  "getValue c ''deltrailer'' = cDelTrailer c"
  "getValue c ''chunk'' = cChunk c"
  "getValue c ''stdout'' = cStdout c"
  "getValue c ''stderr'' = cStderr c"
  "getValue c ''disconnect'' = cDisconnect c"
  "getValue c ''repeat'' = cRepeat c"
  "getValue c ''dataonly'' = cDataOnly c"
  "getValue c ''noop'' = cNoop c"
  by (simp_all add: getValue_def)

lemma cmd_field_unknown: "\<not> known_key k \<Longrightarrow> cmd_field c k = []"
  by (simp add: known_key_def action_keys_def if_keys_def cmd_field_def)

lemma known_key_cases:
  assumes "known_key k"
    and "k = ''cpu'' \<Longrightarrow> P"
    and "k = ''memory'' \<Longrightarrow> P"
    and "k = ''sleep'' \<Longrightarrow> P"
    and "k = ''size'' \<Longrightarrow> P"
    and "k = ''code'' \<Longrightarrow> P"
    and "k = ''status'' \<Longrightarrow> P"
    and "k = ''addheader'' \<Longrightarrow> P"
    and "k = ''delheader'' \<Longrightarrow> P"
    and "k = ''addtrailer'' \<Longrightarrow> P"
    and "k = ''deltrailer'' \<Longrightarrow> P"
    and "k = ''chunk'' \<Longrightarrow> P"
    and "k = ''stdout'' \<Longrightarrow> P"
    and "k = ''stderr'' \<Longrightarrow> P"
    and "k = ''disconnect'' \<Longrightarrow> P"
    and "k = ''repeat'' \<Longrightarrow> P"
    and "k = ''dataonly'' \<Longrightarrow> P"
    and "k = ''noop'' \<Longrightarrow> P"
    and "k = ''ifclientip'' \<Longrightarrow> P"
    and "k = ''ifproxy1ip'' \<Longrightarrow> P"
    and "k = ''ifproxy2ip'' \<Longrightarrow> P"
    and "k = ''ifproxy3ip'' \<Longrightarrow> P"
    and "k = ''iflasthopip'' \<Longrightarrow> P"
    and "k = ''iftargetip'' \<Longrightarrow> P"
    and "k = ''ifhostip'' \<Longrightarrow> P"
    and "k = ''ifhost'' \<Longrightarrow> P"
    and "k = ''ifaz'' \<Longrightarrow> P"
    and "k = ''iftype'' \<Longrightarrow> P"
  shows P
  using assms(1) unfolding known_key_def action_keys_def if_keys_def set_simps
  by (elim disjE insertE emptyE) (fact assms(2-))+

lemma cmd_field_setValue_known:
  "known_key k \<Longrightarrow> known_key k' \<Longrightarrow>
   cmd_field (setValue k v c) k' = (if k' = k then v else cmd_field c k')"
  by (elim known_key_cases [of k]; elim known_key_cases [of k']; simp)

lemma cmd_field_setValue:
  "known_key k \<Longrightarrow> cmd_field (setValue k v c) k' = (if k' = k then v else cmd_field c k')"
  using cmd_field_setValue_known cmd_field_unknown by (cases "known_key k'") auto

interpretation cf: keyed_store known_key cmd_field setValue
  by unfold_locales (rule cmd_field_setValue)

section \<open>Reading the parameters\<close>

record data_store =
  host :: host_info
  vHttp :: validator
  vGrpc :: validator

definition NewDataStore :: data_store where
  "NewDataStore =
     \<lparr>host = \<lparr>hostName = [], hostIP = [], hostAZ = [], hostType = []\<rparr>,
      vHttp = validatorForHttp, vGrpc = validatorForGrpc\<rparr>"

definition getActualValue :: "data_store \<Rightarrow> request_info \<Rightarrow> string \<Rightarrow> string" where
  "getActualValue store reqInfo key =
    (if key = ''ifclientip'' then reqClientIP reqInfo
     else if key = ''ifproxy1ip'' then reqProxy1IP reqInfo
     else if key = ''ifproxy2ip'' then reqProxy2IP reqInfo
     else if key = ''ifproxy3ip'' then reqProxy3IP reqInfo
     else if key = ''iflasthopip'' then reqLastHopIP reqInfo
     else if key = ''iftargetip'' then reqTargetIP reqInfo
     else if key = ''ifhostip'' then hostIP (host store)
     else if key = ''ifhost'' then hostName (host store)
     else if key = ''ifaz'' then hostAZ (host store)
     else if key = ''iftype'' then hostType (host store)
     else [])"

definition combineValuesWithOr :: "string list go_map \<Rightarrow> string go_map" where
  "combineValuesWithOr input = map (\<lambda>(key, values). (key, join orSeparator values)) input"

definition is_if :: "string \<Rightarrow> bool" where
  "is_if key = prefix ''if'' key"

definition pick_validator :: "data_store \<Rightarrow> request_info \<Rightarrow> validator" where
  "pick_validator store reqInfo =
     (if prefix ''grpc'' (reqProto reqInfo) then vGrpc store else vHttp store)"

text \<open>The body of the range loop for one key and its value.\<close>

definition validate_step ::
  "data_store \<Rightarrow> request_info \<Rightarrow> commands \<Rightarrow> string \<times> string \<Rightarrow> commands" where
  "validate_step store reqInfo cmds kv =
     (case kv of (key, value) \<Rightarrow>
       (case pick_validator store reqInfo key of
          None \<Rightarrow> cmds
        | Some re \<Rightarrow>
            let cmds = setValue key value cmds in
            if rx_match re value then
              (if is_if key then
                 (if judgeActualValue (getActualValue store reqInfo key) value
                  then cmds\<lparr>ifMatches := ifMatches cmds @ [key]\<rparr>
                  else cmds\<lparr>ifUnmatches := ifUnmatches cmds @ [key]\<rparr>)
               else cmds\<lparr>actions := actions cmds @ [key]\<rparr>)
            else cmds\<lparr>invalids := invalids cmds @ [key]\<rparr>))"

definition validateCommands ::
  "data_store \<Rightarrow> request_info \<Rightarrow> string list go_map \<Rightarrow> commands" where
  "validateCommands store reqInfo mapCmds =
     foldl (validate_step store reqInfo) no_commands (combineValuesWithOr mapCmds)"

definition needsAction :: "commands \<Rightarrow> bool" where
  "needsAction cmds =
     (if length (actions cmds) = 0 then False
      else if length (ifUnmatches cmds) \<noteq> 0 then False
      else if length (invalids cmds) \<noteq> 0 then False
      else True)"

section \<open>What a request amounts to\<close>

text \<open>What one pair of the input contributes.\<close>

definition recognised :: "data_store \<Rightarrow> request_info \<Rightarrow> string \<times> string \<Rightarrow> bool" where
  "recognised store reqInfo kv = (pick_validator store reqInfo (fst kv) \<noteq> None)"

definition well_formed :: "data_store \<Rightarrow> request_info \<Rightarrow> string \<times> string \<Rightarrow> bool" where
  "well_formed store reqInfo kv =
     (case pick_validator store reqInfo (fst kv) of
        None \<Rightarrow> False | Some re \<Rightarrow> rx_match re (snd kv))"

definition condition_holds :: "data_store \<Rightarrow> request_info \<Rightarrow> string \<times> string \<Rightarrow> bool" where
  "condition_holds store reqInfo kv =
     judgeActualValue (getActualValue store reqInfo (fst kv)) (snd kv)"

lemma setValue_lists [simp]:
  "actions (setValue k v c) = actions c" "ifMatches (setValue k v c) = ifMatches c"
  "ifUnmatches (setValue k v c) = ifUnmatches c" "invalids (setValue k v c) = invalids c"
  by (simp_all add: setValue_def)

lemma cmd_field_eqI:
  "(known_key k \<Longrightarrow> cmd_field c k = cmd_field c' k) \<Longrightarrow> cmd_field c k = cmd_field c' k"
  using cmd_field_unknown by metis

lemma cmd_field_lists [simp]:
  "cmd_field (c\<lparr>actions := xs\<rparr>) k = cmd_field c k"
  "cmd_field (c\<lparr>ifMatches := xs\<rparr>) k = cmd_field c k"
  "cmd_field (c\<lparr>ifUnmatches := xs\<rparr>) k = cmd_field c k"
  "cmd_field (c\<lparr>invalids := xs\<rparr>) k = cmd_field c k"
  by (rule cmd_field_eqI, elim known_key_cases; simp)+

lemma cmd_field_no_commands [simp]: "cmd_field no_commands k = []"
  using cmd_field_unknown [of k no_commands]
  by (cases "known_key k") (erule known_key_cases; simp add: no_commands_def)

lemma lists_no_commands [simp]:
  "actions no_commands = []" "ifMatches no_commands = []"
  "ifUnmatches no_commands = []" "invalids no_commands = []"
  by (simp_all add: no_commands_def)

lemma validate_step_lists:
  "actions (validate_step st rq c kv) = actions c @
     (if well_formed st rq kv \<and> \<not> is_if (fst kv) then [fst kv] else [])"
  "ifMatches (validate_step st rq c kv) = ifMatches c @
     (if well_formed st rq kv \<and> is_if (fst kv) \<and> condition_holds st rq kv then [fst kv] else [])"
  "ifUnmatches (validate_step st rq c kv) = ifUnmatches c @
     (if well_formed st rq kv \<and> is_if (fst kv) \<and> \<not> condition_holds st rq kv then [fst kv] else [])"
  "invalids (validate_step st rq c kv) = invalids c @
     (if recognised st rq kv \<and> \<not> well_formed st rq kv then [fst kv] else [])"
  by (auto simp: validate_step_def well_formed_def recognised_def condition_holds_def Let_def
      split: prod.splits option.splits)

lemma foldl_validate_lists:
  "actions (foldl (validate_step st rq) c kvs) = actions c @
     map fst (filter (\<lambda>kv. well_formed st rq kv \<and> \<not> is_if (fst kv)) kvs)"
  "ifMatches (foldl (validate_step st rq) c kvs) = ifMatches c @
     map fst (filter (\<lambda>kv. well_formed st rq kv \<and> is_if (fst kv) \<and> condition_holds st rq kv) kvs)"
  "ifUnmatches (foldl (validate_step st rq) c kvs) = ifUnmatches c @
     map fst (filter (\<lambda>kv. well_formed st rq kv \<and> is_if (fst kv) \<and> \<not> condition_holds st rq kv) kvs)"
  "invalids (foldl (validate_step st rq) c kvs) = invalids c @
     map fst (filter (\<lambda>kv. recognised st rq kv \<and> \<not> well_formed st rq kv) kvs)"
  by (induction kvs arbitrary: c) (simp_all add: validate_step_lists)

lemmas validate_lists = foldl_validate_lists [of _ _ no_commands, simplified]

lemma well_formed_recognised: "well_formed st rq kv \<Longrightarrow> recognised st rq kv"
  by (auto simp: well_formed_def recognised_def split: option.splits)

definition plain_get :: request_info where
  "plain_get = \<lparr>reqProto = ''HTTP/1.1'', reqMethod = ''GET'', reqPath = ''/'', reqQuery = [],
     reqHeader = [], reqClientIP = ''192.0.2.7'', reqProxy1IP = [], reqProxy2IP = [],
     reqProxy3IP = [], reqLastHopIP = ''192.0.2.7'', reqTargetIP = ''192.0.2.1'', reqMtlsCert = []\<rparr>"

lemma plain_get_validator [simp]: "pick_validator NewDataStore plain_get = validatorForHttp"
  by (simp add: pick_validator_def NewDataStore_def plain_get_def)

text \<open>C1. A request is acted on exactly if, among the parameters whose names the validator of the
  protocol knows, every value is well formed, every condition holds, and at least one is an action.
  Parameters with other names count for nothing.\<close>

theorem validate_needsAction:
  "needsAction (validateCommands st rq m) \<longleftrightarrow>
     (let kvs = combineValuesWithOr m in
      (\<exists>kv \<in> set kvs. well_formed st rq kv \<and> \<not> is_if (fst kv)) \<and>
      (\<forall>kv \<in> set kvs. recognised st rq kv \<longrightarrow>
         well_formed st rq kv \<and> (is_if (fst kv) \<longrightarrow> condition_holds st rq kv)))"
  unfolding needsAction_def validateCommands_def Let_def validate_lists
  by (auto simp: filter_empty_conv dest: well_formed_recognised)

theorem validate_needsAction_witness:
  "needsAction (validateCommands NewDataStore plain_get [(''sleep'', [''100'']), (''foo'', [''x''])]) \<and>
   \<not> needsAction (validateCommands NewDataStore plain_get [(''sleep'', [''100'']), (''size'', [''1k''])])"
  using validate_needsAction [of NewDataStore plain_get "[(''sleep'', [''100'']), (''foo'', [''x''])]"]
    validate_needsAction [of NewDataStore plain_get "[(''sleep'', [''100'']), (''size'', [''1k''])]"]
  by (simp add: well_formed_def recognised_def combineValuesWithOr_def is_if_def
      validatorForHttp_def match_num_range is_digit_code Cons_eq_append_conv del: rx_match.simps)

definition ranged_key :: "string \<Rightarrow> bool" where
  "ranged_key key = (key = ''sleep'' \<or> key = ''size'' \<or> key = ''repeat'')"

text \<open>Every name a validator knows is the name of a field, and the three names that take a
  range have the range pattern.\<close>

definition store_ok :: "data_store \<Rightarrow> bool" where
  "store_ok st = (\<forall>v \<in> {vHttp st, vGrpc st}.
     (\<forall>k \<in> dom v. known_key k) \<and> (\<forall>k. ranged_key k \<longrightarrow> v k \<in> {None, Some regexpNumRange}))"

lemma known_key_lits [simp]:
  "known_key ''cpu''" "known_key ''memory''" "known_key ''sleep''" "known_key ''size''"
  "known_key ''code''" "known_key ''status''" "known_key ''addheader''" "known_key ''delheader''"
  "known_key ''addtrailer''" "known_key ''deltrailer''" "known_key ''chunk''" "known_key ''stdout''"
  "known_key ''stderr''" "known_key ''disconnect''" "known_key ''repeat''" "known_key ''dataonly''"
  "known_key ''noop''" "known_key ''ifclientip''" "known_key ''ifproxy1ip''" "known_key ''ifproxy2ip''"
  "known_key ''ifproxy3ip''" "known_key ''iflasthopip''" "known_key ''iftargetip''" "known_key ''ifhostip''"
  "known_key ''ifhost''" "known_key ''ifaz''" "known_key ''iftype''"
  by (simp_all add: known_key_def action_keys_def if_keys_def)

lemma dom_validators:
  "k \<in> dom validatorForHttp \<Longrightarrow> known_key k"
  "k \<in> dom validatorForGrpc \<Longrightarrow> known_key k"
proof -
  have h: "\<forall>k \<in> dom validatorForHttp. known_key k"
    unfolding validatorForHttp_def by simp
  then show "k \<in> dom validatorForHttp \<Longrightarrow> known_key k" by blast
  have sub: "dom validatorForGrpc \<subseteq> dom validatorForHttp \<union>
      {''addtrailer'', ''deltrailer'', ''code'', ''repeat'', ''dataonly'', ''noop''}"
    by (auto simp: validatorForGrpc_def split: if_splits)
  show "known_key k" if "k \<in> dom validatorForGrpc"
    using subsetD [OF sub that] h by auto
qed

lemma validators_ranged:
  "ranged_key k \<Longrightarrow> validatorForHttp k \<in> {None, Some regexpNumRange}"
  "ranged_key k \<Longrightarrow> validatorForGrpc k \<in> {None, Some regexpNumRange}"
  unfolding ranged_key_def validatorForGrpc_def validatorForHttp_def
  by (elim disjE; simp)+

lemma store_ok_NewDataStore: "store_ok NewDataStore"
  using dom_validators validators_ranged
  by (simp add: store_ok_def NewDataStore_def)

lemma pick_known: "store_ok st \<Longrightarrow> recognised st rq (k, v) \<Longrightarrow> known_key k"
  by (auto simp: store_ok_def recognised_def pick_validator_def split: if_splits)

lemma cmd_field_validate_step:
  assumes "store_ok st"
  shows "cmd_field (validate_step st rq c (k, v)) k' =
    (if recognised st rq (k, v) \<and> k' = k then v else cmd_field c k')"
  using pick_known [OF assms, of rq k v]
  by (auto simp: validate_step_def recognised_def Let_def cmd_field_setValue split: option.splits)

lemma foldl_validate_other:
  assumes "store_ok st" and "\<forall>v. (k, v) \<in> set kvs \<longrightarrow> \<not> recognised st rq (k, v)"
  shows "cmd_field (foldl (validate_step st rq) c kvs) k = cmd_field c k"
  using assms(2)
proof (induction kvs arbitrary: c)
  case (Cons kv kvs)
  then show ?case by (cases kv) (auto simp: cmd_field_validate_step [OF assms(1)])
qed simp

lemma foldl_validate_field:
  assumes "store_ok st" and "distinct (map fst kvs)" and "(k, v) \<in> set kvs" and "recognised st rq (k, v)"
  shows "cmd_field (foldl (validate_step st rq) c kvs) k = v"
  using assms(2-4)
proof (induction kvs arbitrary: c)
  case (Cons kv kvs)
  obtain k1 v1 where kv: "kv = (k1, v1)" by (cases kv)
  show ?case
  proof (cases "k1 = k")
    case True
    with Cons.prems kv have "v1 = v" and "\<forall>v. (k, v) \<notin> set kvs"
      by (auto simp: image_iff)
    with True kv Cons.prems show ?thesis
      by (simp add: foldl_validate_other [OF assms(1)] cmd_field_validate_step [OF assms(1)])
  next
    case False
    with Cons kv show ?thesis by auto
  qed
qed simp

lemma keys_combine [simp]: "map fst (combineValuesWithOr m) = map fst m"
  by (induction m) (auto simp: combineValuesWithOr_def)

lemma recognised_key: "recognised st rq (k, v) = recognised st rq (k, w)"
  by (simp add: recognised_def)

lemma validateCommands_field:
  assumes "store_ok st" and "wf_map m"
  shows "cmd_field (validateCommands st rq m) k =
    (case map_of (combineValuesWithOr m) k of
       None \<Rightarrow> []
     | Some v \<Rightarrow> if recognised st rq (k, v) then v else [])"
proof -
  let ?kvs = "combineValuesWithOr m"
  have d: "distinct (map fst ?kvs)" using assms(2) by (simp add: wf_map_def)
  show ?thesis
  proof (cases "map_of ?kvs k")
    case None
    then have "\<forall>v. (k, v) \<notin> set ?kvs" by (auto simp: map_of_eq_None_iff image_iff)
    with None show ?thesis
      by (simp add: validateCommands_def foldl_validate_other [OF assms(1)])
  next
    case (Some v)
    then have kv: "(k, v) \<in> set ?kvs" by (rule map_of_SomeD)
    show ?thesis
    proof (cases "recognised st rq (k, v)")
      case True
      with Some kv show ?thesis
        by (simp add: validateCommands_def foldl_validate_field [OF assms(1) d])
    next
      case False
      then have "\<forall>w. \<not> recognised st rq (k, w)" using recognised_key by blast
      with False Some show ?thesis
        by (simp add: validateCommands_def foldl_validate_other [OF assms(1)])
    qed
  qed
qed

lemma mset_partition_keys:
  "mset (actions c' @ ifMatches c' @ ifUnmatches c' @ invalids c') =
   mset (map fst (filter (recognised st rq) kvs))"
  if "c' = foldl (validate_step st rq) no_commands kvs"
  unfolding that
proof (induction kvs rule: rev_induct)
  case (snoc kv kvs)
  then show ?case
    using well_formed_recognised [of st rq kv]
    by (auto simp: validate_step_lists)
qed simp

lemma validate_keys_partition:
  assumes "wf_map m"
  shows "distinct (actions (validateCommands st rq m) @ ifMatches (validateCommands st rq m) @
      ifUnmatches (validateCommands st rq m) @ invalids (validateCommands st rq m))"
    and "set (actions (validateCommands st rq m) @ ifMatches (validateCommands st rq m) @
      ifUnmatches (validateCommands st rq m) @ invalids (validateCommands st rq m)) =
    {k \<in> fst ` set m. pick_validator st rq k \<noteq> None}"
proof -
  let ?c = "validateCommands st rq m"
  let ?ks = "actions ?c @ ifMatches ?c @ ifUnmatches ?c @ invalids ?c"
  let ?rs = "map fst (filter (recognised st rq) (combineValuesWithOr m))"
  have ms: "mset ?ks = mset ?rs"
    by (rule mset_partition_keys) (simp add: validateCommands_def)
  have "distinct ?rs"
    using assms by (intro distinct_map_filter) (simp add: wf_map_def)
  then show "distinct ?ks" using mset_eq_imp_distinct_iff [OF ms] by simp
  have "set ?rs = {k \<in> fst ` set m. pick_validator st rq k \<noteq> None}"
    by (force simp: recognised_def combineValuesWithOr_def image_iff)
  then show "set ?ks = {k \<in> fst ` set m. pick_validator st rq k \<noteq> None}"
    using mset_eq_setD [OF ms] by simp
qed

text \<open>C5. The four lists that validation fills partition the names it recognises: no name is listed
  twice, in one list or in two, and every recognised name of the request is listed.\<close>

theorem validate_partition:
  assumes "wf_map m"
  shows "let c = validateCommands st rq m;
             ks = actions c @ ifMatches c @ ifUnmatches c @ invalids c
         in distinct ks \<and> set ks = {k \<in> fst ` set m. pick_validator st rq k \<noteq> None}"
  unfolding Let_def by (intro conjI validate_keys_partition [OF assms])

theorem validate_partition_witness:
  "let c = validateCommands NewDataStore plain_get [(''sleep'', [''100'']), (''foo'', [''x''])]
   in set (actions c @ ifMatches c @ ifUnmatches c @ invalids c) = {''sleep''}"
proof -
  have "validatorForHttp ''sleep'' \<noteq> None \<and> validatorForHttp ''foo'' = None"
    by (simp add: validatorForHttp_def)
  then have "{k \<in> fst ` set [(''sleep'', [''100'']), (''foo'', [''x''])].
      pick_validator NewDataStore plain_get k \<noteq> None} = {''sleep''}"
    by auto
  then show ?thesis
    using validate_partition [of "[(''sleep'', [''100'']), (''foo'', [''x''])]" NewDataStore plain_get]
    unfolding Let_def by simp
qed

text \<open>After validation the field of every recognised name holds the values the request gave for
  it, joined by the or-separator, whether they are well formed or not; the field of a name the
  protocol does not know stays empty.\<close>

theorem validate_fields:
  assumes "wf_map m" and "(k, vs) \<in> set m"
  shows "cmd_field (validateCommands NewDataStore rq m) k =
    (if pick_validator NewDataStore rq k = None then [] else join orSeparator vs)"
proof -
  have "map_of (combineValuesWithOr m) k = Some (join orSeparator vs)"
  proof (rule wf_map_map_of)
    show "wf_map (combineValuesWithOr m)" using assms(1) by (simp add: wf_map_def)
    show "(k, join orSeparator vs) \<in> set (combineValuesWithOr m)"
      using assms(2) by (force simp: combineValuesWithOr_def)
  qed
  then show ?thesis
    by (simp add: validateCommands_field [OF store_ok_NewDataStore assms(1)] recognised_def)
qed

theorem validate_fields_witness:
  "cmd_field (validateCommands NewDataStore plain_get [(''size'', [''1k'']), (''foo'', [''x''])]) ''size'' = ''1k'' \<and>
   cmd_field (validateCommands NewDataStore plain_get [(''size'', [''1k'']), (''foo'', [''x''])]) ''foo'' = []"
  using validate_fields [of "[(''size'', [''1k'']), (''foo'', [''x''])]" "''size''" "[''1k'']" plain_get]
    validate_fields [of "[(''size'', [''1k'']), (''foo'', [''x''])]" "''foo''" "[''x'']" plain_get]
  by (simp add: validatorForHttp_def)

text \<open>The order in which Go happens to range over the parameters has no effect on any field, on
  the contents of the four lists, or on whether the request is acted on.\<close>

theorem validate_order:
  assumes "store_ok st" and "wf_map m" and "mset m = mset m'"
  shows "let c = validateCommands st rq m; c' = validateCommands st rq m' in
    (\<forall>k. cmd_field c k = cmd_field c' k) \<and>
    mset (actions c) = mset (actions c') \<and> mset (ifMatches c) = mset (ifMatches c') \<and>
    mset (ifUnmatches c) = mset (ifUnmatches c') \<and> mset (invalids c) = mset (invalids c') \<and>
    needsAction c = needsAction c'"
proof -
  have wf': "wf_map m'"
    using assms(2) mset_eq_imp_distinct_iff [of "map fst m" "map fst m'"] assms(3)
    by (simp add: wf_map_def)
  have kvs: "mset (combineValuesWithOr m) = mset (combineValuesWithOr m')"
    using assms(3) by (simp add: combineValuesWithOr_def)
  have "map_of (combineValuesWithOr m) = map_of (combineValuesWithOr m')"
    using assms(2) wf' mset_eq_setD [OF kvs]
    by (intro map_of_inject_set [THEN iffD2]) (simp_all add: wf_map_def)
  then have "\<forall>k. cmd_field (validateCommands st rq m) k = cmd_field (validateCommands st rq m') k"
    using assms(1,2) wf' by (simp add: validateCommands_field)
  moreover have ms: "mset (map fst (filter P (combineValuesWithOr m))) =
      mset (map fst (filter P (combineValuesWithOr m')))" for P
    using kvs by (metis mset_filter mset_map)
  moreover have "needsAction (validateCommands st rq m) = needsAction (validateCommands st rq m')"
    unfolding needsAction_def validateCommands_def validate_lists
    using mset_eq_length [OF ms] by (simp del: length_map)
  ultimately show ?thesis
    unfolding Let_def by (simp add: validateCommands_def validate_lists)
qed

theorem validate_order_witness:
  "let m = [(''size'', [''10'']), (''sleep'', [''100''])] in
   needsAction (validateCommands NewDataStore plain_get m) =
   needsAction (validateCommands NewDataStore plain_get (rev m))"
  using validate_order [OF store_ok_NewDataStore, of "[(''size'', [''10'']), (''sleep'', [''100''])]"
      "rev [(''size'', [''10'']), (''sleep'', [''100''])]" plain_get]
  by (simp add: Let_def add_mset_commute)

end
