(* ===== verification/Evaluate.thy ===== *)
theory Evaluate
  imports Commands
begin

text \<open>
  types.go: \<open>evaluate\<close> and \<open>getActionValue\<close>, the values a request's actions are
  carried out with, ranges drawn at random.
\<close>

section \<open>Evaluating the actions\<close>

type_synonym rng = "nat \<Rightarrow> nat"

text \<open>\<open>rand.Intn\<close>: panics unless its argument is positive.\<close>

definition rand_intn :: "int \<Rightarrow> rng \<Rightarrow> (int \<times> rng) res" where
  "rand_intn n g = (if n \<le> 0 then Inl IntnArgument else Inr (int (g 0) mod n, \<lambda>i. g (Suc i)))"

definition getActionValue :: "commands \<Rightarrow> string \<Rightarrow> rng \<Rightarrow> (string \<times> rng) res" where
  "getActionValue cmds key g =
     (if ranged_key key then
        (let values = split ''-'' (getValue cmds key) in
         if length values = 1 then Inr (getValue cmds key, g)
         else
           let v0 = fst (atoi (values ! 0)); v1 = fst (atoi (values ! 1));
               minValue = (if v0 > v1 then v1 else v0);
               maxValue = (if v0 > v1 then v0 else v1)
           in res_bind (rand_intn (wrap64 (wrap64 (maxValue - minValue) + 1)) g)
                (\<lambda>(r, g). Inr (itoa (wrap64 (minValue + r)), g)))
      else if key = ''chunk'' then Inr (''chunked when using HTTP/1.1'', g)
      else Inr (getValue cmds key, g))"

fun set_actions :: "commands \<Rightarrow> string list \<Rightarrow> commands \<Rightarrow> rng \<Rightarrow> (commands \<times> rng) res" where
  "set_actions cmds [] result g = Inr (result, g)"
| "set_actions cmds (a # as) result g =
     res_bind (getActionValue cmds a g) (\<lambda>(v, g). set_actions cmds as (setValue a v result) g)"

definition evaluate :: "commands \<Rightarrow> rng \<Rightarrow> (commands \<times> rng) res" where
  "evaluate cmds g =
     (let r1 = foldl (\<lambda>r k. setValue k ''invalid'' r) no_commands (invalids cmds) in
      if length (actions cmds) = 0 then Inr (r1, g)
      else
        let r2 = foldl (\<lambda>r k. setValue k ''matched'' r) r1 (ifMatches cmds);
            r3 = foldl (\<lambda>r k. setValue k ''unmatched'' r) r2 (ifUnmatches cmds)
        in set_actions cmds (actions cmds) r3 g)"

section \<open>Ranges\<close>

definition digits :: "string \<Rightarrow> bool" where
  "digits s = (s \<noteq> [] \<and> list_all is_digit s)"

text \<open>The number that \<open>strconv.Atoi\<close> makes of a digit string: cut off at the largest int.\<close>

definition sat_val :: "string \<Rightarrow> int" where
  "sat_val s = min (dec_val s) max_int64"

definition range_lo :: "string \<Rightarrow> string \<Rightarrow> int" where
  "range_lo a b = min (sat_val a) (sat_val b)"

definition range_hi :: "string \<Rightarrow> string \<Rightarrow> int" where
  "range_hi a b = max (sat_val a) (sat_val b)"

lemma digits_no_dash: "digits s \<Longrightarrow> CHR ''-'' \<notin> set s"
  using not_digit_sign by (auto simp: digits_def list_all_iff)

lemma match_num_range_digits:
  "rx_match regexpNumRange s \<longleftrightarrow> digits s \<or> (\<exists>a b. s = a @ ''-'' @ b \<and> digits a \<and> digits b)"
  by (auto simp: match_num_range digits_def)

lemma sat_val_range: "digits s \<Longrightarrow> 0 \<le> sat_val s \<and> sat_val s \<le> max_int64"
  using dec_val_nonneg [of s] by (simp add: sat_val_def digits_def max_int64_def)

lemma atoi_sat: "digits s \<Longrightarrow> fst (atoi s) = sat_val s"
  by (simp add: digits_def sat_val_def fst_atoi_digits)

lemma getActionValue_single:
  "ranged_key key \<Longrightarrow> digits (getValue c key) \<Longrightarrow> getActionValue c key g = Inr (getValue c key, g)"
  using digits_no_dash by (simp add: getActionValue_def split_no_sep)

lemma range_width:
  assumes "digits a" "digits b"
  shows "wrap64 (wrap64 (range_hi a b - range_lo a b) + 1) =
    (if range_lo a b = 0 \<and> range_hi a b = max_int64 then min_int64
     else range_hi a b - range_lo a b + 1)"
proof -
  have r: "0 \<le> range_lo a b" "range_lo a b \<le> range_hi a b" "range_hi a b \<le> max_int64"
    using assms [THEN sat_val_range] by (auto simp: range_lo_def range_hi_def)
  then have w: "wrap64 (range_hi a b - range_lo a b) = range_hi a b - range_lo a b"
    by (intro wrap64_id) (auto simp: min_int64_def)
  show ?thesis
  proof (cases "range_lo a b = 0 \<and> range_hi a b = max_int64")
    case True
    then show ?thesis using w wrap64_max_succ by simp
  next
    case False
    with r have "range_hi a b - range_lo a b + 1 \<le> max_int64" by linarith
    with r False show ?thesis unfolding w by (subst wrap64_id) (auto simp: min_int64_def)
  qed
qed

lemma getActionValue_two:
  assumes "ranged_key key" and "getValue c key = a @ ''-'' @ b" and "digits a" "digits b"
  shows "getActionValue c key g =
    (if range_lo a b = 0 \<and> range_hi a b = max_int64 then Inl IntnArgument
     else Inr (itoa (range_lo a b + int (g 0) mod (range_hi a b - range_lo a b + 1)),
               \<lambda>i. g (Suc i)))"
proof -
  have sp: "split ''-'' (a @ ''-'' @ b) = [a, b]"
    using assms(3,4) [THEN digits_no_dash] by (simp add: split_append_sep split_no_sep)
  have r: "0 \<le> range_lo a b" "range_lo a b \<le> range_hi a b" "range_hi a b \<le> max_int64"
    using assms(3,4) [THEN sat_val_range] by (auto simp: range_lo_def range_hi_def)
  have m: "0 \<le> int (g 0) mod (range_hi a b - range_lo a b + 1)"
    "int (g 0) mod (range_hi a b - range_lo a b + 1) < range_hi a b - range_lo a b + 1"
    using r by (intro pos_mod_sign pos_mod_bound; linarith)+
  have w: "wrap64 (range_lo a b + int (g 0) mod (range_hi a b - range_lo a b + 1)) =
      range_lo a b + int (g 0) mod (range_hi a b - range_lo a b + 1)"
  proof (rule wrap64_id)
    have "min_int64 \<le> 0" by (simp add: min_int64_def)
    with r m show "min_int64 \<le> range_lo a b + int (g 0) mod (range_hi a b - range_lo a b + 1)"
      by linarith
    from r(3) m(2) show "range_lo a b + int (g 0) mod (range_hi a b - range_lo a b + 1) \<le> max_int64"
      by linarith
  qed
  have sat: "sat_val b < sat_val a \<and> sat_val b = range_lo a b \<and> sat_val a = range_hi a b \<or>
      \<not> sat_val b < sat_val a \<and> sat_val a = range_lo a b \<and> sat_val b = range_hi a b"
    by (auto simp: range_lo_def range_hi_def)
  have ev: "getActionValue c key g =
      res_bind (rand_intn (wrap64 (wrap64 (range_hi a b - range_lo a b) + 1)) g)
        (\<lambda>(r, g). Inr (itoa (wrap64 (range_lo a b + r)), g))"
    unfolding getActionValue_def Let_def if_P [OF assms(1)] assms(2) sp
    using sat by (auto simp: atoi_sat assms(3,4))
  show ?thesis
    unfolding ev range_width [OF assms(3,4)]
    using r w by (auto simp: rand_intn_def min_int64_def)
qed

text \<open>C2. A range for sleep, size or repeat, its ends in either order: the value drawn lies between
  the ends, every value between them can be drawn, and the draw panics exactly if the range spans
  all of 0 to the largest int (an end too large for an int counts as the largest).\<close>

theorem getActionValue_range:
  assumes "ranged_key key" and "getValue c key = a @ ''-'' @ b" and "digits a" "digits b"
  shows "(panics (getActionValue c key g) \<longleftrightarrow> range_lo a b = 0 \<and> range_hi a b = max_int64) \<and>
    (\<not> panics (getActionValue c key g) \<longrightarrow>
       (\<exists>x g'. getActionValue c key g = Inr (itoa x, g') \<and> range_lo a b \<le> x \<and> x \<le> range_hi a b)) \<and>
    (range_lo a b \<noteq> 0 \<or> range_hi a b \<noteq> max_int64 \<longrightarrow>
       (\<forall>x. range_lo a b \<le> x \<and> x \<le> range_hi a b \<longrightarrow>
          (\<exists>g g'. getActionValue c key g = Inr (itoa x, g'))))"
proof (intro conjI)
  let ?lo = "range_lo a b" and ?hi = "range_hi a b"
  have le: "?lo \<le> ?hi" by (simp add: range_lo_def range_hi_def)
  show "panics (getActionValue c key g) \<longleftrightarrow> ?lo = 0 \<and> ?hi = max_int64"
    by (simp add: getActionValue_two [OF assms])
  show "\<not> panics (getActionValue c key g) \<longrightarrow>
      (\<exists>x g'. getActionValue c key g = Inr (itoa x, g') \<and> ?lo \<le> x \<and> x \<le> ?hi)"
    using le pos_mod_bound [of "?hi - ?lo + 1" "int (g 0)"]
    by (auto simp: getActionValue_two [OF assms])
  show "?lo \<noteq> 0 \<or> ?hi \<noteq> max_int64 \<longrightarrow>
      (\<forall>x. ?lo \<le> x \<and> x \<le> ?hi \<longrightarrow> (\<exists>g g'. getActionValue c key g = Inr (itoa x, g')))"
  proof (intro impI allI)
    fix x assume ne: "?lo \<noteq> 0 \<or> ?hi \<noteq> max_int64" and x: "?lo \<le> x \<and> x \<le> ?hi"
    have "int (nat (x - ?lo)) mod (?hi - ?lo + 1) = x - ?lo"
      using x by (simp add: mod_pos_pos_trivial)
    then have "getActionValue c key (\<lambda>_. nat (x - ?lo)) = Inr (itoa x, \<lambda>_. nat (x - ?lo))"
      using ne getActionValue_two [OF assms, of "\<lambda>_. nat (x - ?lo)"] by auto
    then show "\<exists>g g'. getActionValue c key g = Inr (itoa x, g')" by blast
  qed
qed


theorem getActionValue_range_witness:
  "(let c = no_commands\<lparr>cSleep := ''3000-100''\<rparr> in
      (\<exists>g g'. getActionValue c ''sleep'' g = Inr (itoa 1627, g'))) \<and>
   panics (getActionValue (no_commands\<lparr>cSize := ''0-99999999999999999999''\<rparr>) ''size'' (\<lambda>_. 0))"
proof -
  have v: "sat_val ''100'' = 100" "sat_val ''3000'' = 3000" "sat_val ''0'' = 0"
    "sat_val ''99999999999999999999'' = max_int64"
    by (simp_all add: sat_val_def dec_val_def digit_val_def max_int64_def)
  have d: "digits ''100'' \<and> digits ''3000'' \<and> digits ''0'' \<and> digits ''99999999999999999999''"
    by (simp add: digits_def is_digit_code)
  show ?thesis
    using d getActionValue_range [of "''sleep''" "no_commands\<lparr>cSleep := ''3000-100''\<rparr>" "''3000''" "''100''"]
      getActionValue_range [of "''size''" "no_commands\<lparr>cSize := ''0-99999999999999999999''\<rparr>" "''0''"
        "''99999999999999999999''"]
    by (simp add: ranged_key_def range_lo_def range_hi_def v max_int64_def)
qed

section \<open>The result record\<close>

lemma panics_getActionValue_rng: "panics (getActionValue c k g) = panics (getActionValue c k g')"
  by (auto simp: getActionValue_def rand_intn_def Let_def)

lemma panics_set_actions:
  "panics (set_actions c as r g) \<longleftrightarrow> (\<exists>a \<in> set as. panics (getActionValue c a g))"
proof (induction as arbitrary: r g)
  case (Cons a as)
  show ?case
  proof (cases "getActionValue c a g")
    case (Inl p)
    then show ?thesis by simp
  next
    case (Inr vg)
    then show ?thesis
      using Cons.IH panics_getActionValue_rng [of c _ "snd vg" g]
      by (cases vg) auto
  qed
qed simp

lemma panics_evaluate:
  "panics (evaluate c g) \<longleftrightarrow> (\<exists>a \<in> set (actions c). panics (getActionValue c a g))"
  by (simp add: evaluate_def Let_def panics_set_actions)

lemma getActionValue_unranged: "\<not> ranged_key k \<Longrightarrow> \<not> panics (getActionValue c k g)"
  by (simp add: getActionValue_def)

lemma foldl_setValue:
  "\<forall>k \<in> set ks. known_key k \<Longrightarrow>
   cmd_field (foldl (\<lambda>r k. setValue k v r) c ks) k' = (if k' \<in> set ks then v else cmd_field c k')"
  by (induction ks arbitrary: c) (auto simp: cmd_field_setValue)

lemma set_actions_field:
  assumes "set_actions c as r g = Inr (r', g')" and "\<forall>k \<in> set as. known_key k" and "distinct as"
  shows "(\<forall>k. k \<notin> set as \<longrightarrow> cmd_field r' k = cmd_field r k) \<and>
    (\<forall>k \<in> set as. \<exists>g1 g2. getActionValue c k g1 = Inr (cmd_field r' k, g2))"
  using assms
proof (induction as arbitrary: r g)
  case (Cons a as)
  from Cons.prems(1) obtain v g1 where
    v: "getActionValue c a g = Inr (v, g1)" and
    rest: "set_actions c as (setValue a v r) g1 = Inr (r', g')"
    by (auto simp: res_bind_Inr)
  have ih: "(\<forall>k. k \<notin> set as \<longrightarrow> cmd_field r' k = cmd_field (setValue a v r) k) \<and>
      (\<forall>k \<in> set as. \<exists>g1 g2. getActionValue c k g1 = Inr (cmd_field r' k, g2))"
    using Cons.IH [OF rest] Cons.prems(2,3) by simp
  have "cmd_field r' a = v"
    using ih Cons.prems(2,3) by (simp add: cmd_field_setValue)
  with v have "\<exists>g1 g2. getActionValue c a g1 = Inr (cmd_field r' a, g2)" by auto
  with ih show ?case using Cons.prems(2) by (auto simp: cmd_field_setValue)
qed simp


text \<open>A range from 0 to at least the largest int.\<close>

definition full_range :: "string \<Rightarrow> bool" where
  "full_range s = (\<exists>a b. s = a @ ''-'' @ b \<and> digits a \<and> digits b \<and>
     range_lo a b = 0 \<and> range_hi a b = max_int64)"

lemma getActionValue_panics:
  assumes "ranged_key k" and "rx_match regexpNumRange (getValue c k)"
  shows "panics (getActionValue c k g) \<longleftrightarrow> full_range (getValue c k)"
proof (cases "digits (getValue c k)")
  case True
  then have "CHR ''-'' \<notin> set (getValue c k)" by (rule digits_no_dash)
  then have "\<not> full_range (getValue c k)" by (auto simp: full_range_def)
  with True show ?thesis using getActionValue_single [OF assms(1) True] by simp
next
  case False
  with assms(2) obtain a b where ab: "getValue c k = a @ ''-'' @ b" "digits a" "digits b"
    by (auto simp: match_num_range_digits)
  have "a' = a \<and> b' = b" if "getValue c k = a' @ ''-'' @ b'" "digits a'" "digits b'" for a' b'
    using that ab split_append_sep [of "CHR ''-''"] split_no_sep [of "CHR ''-''"] digits_no_dash
    by (metis append_Cons append_Nil list.inject)
  then show ?thesis
    using ab getActionValue_two [OF assms(1) ab] by (auto simp: full_range_def)
qed

lemma getValue_field: "ranged_key k \<Longrightarrow> getValue c k = cmd_field c k"
  by (auto simp: ranged_key_def)

lemma validated_action:
  assumes "store_ok st" and "wf_map m" and "c = validateCommands st rq m" and "k \<in> set (actions c)"
  shows "\<exists>re. pick_validator st rq k = Some re \<and> rx_match re (cmd_field c k) \<and> \<not> is_if k"
proof -
  obtain v where v: "(k, v) \<in> set (combineValuesWithOr m)" "well_formed st rq (k, v)" "\<not> is_if k"
    using assms(3,4) by (auto simp: validateCommands_def validate_lists)
  have "map_of (combineValuesWithOr m) k = Some v"
    using assms(2) v(1) by (intro wf_map_map_of) (simp add: wf_map_def)
  then have "cmd_field c k = v"
    using v(2) by (simp add: assms(3) validateCommands_field [OF assms(1,2)] well_formed_recognised)
  then show ?thesis using v(2,3) by (auto simp: well_formed_def split: option.splits)
qed

lemma evaluate_panics_iff:
  assumes "store_ok st" and "wf_map m" and "c = validateCommands st rq m"
  shows "panics (evaluate c g) \<longleftrightarrow> (\<exists>k \<in> set (actions c). ranged_key k \<and> full_range (cmd_field c k))"
proof -
  have "rx_match regexpNumRange (cmd_field c k)" if k: "k \<in> set (actions c)" "ranged_key k" for k
  proof -
    obtain re where re: "pick_validator st rq k = Some re" "rx_match re (cmd_field c k)"
      using validated_action [OF assms k(1)] by auto
    moreover have "pick_validator st rq k \<in> {None, Some regexpNumRange}"
      using assms(1) k(2) by (auto simp: store_ok_def pick_validator_def)
    ultimately show ?thesis by auto
  qed
  then show ?thesis
    unfolding panics_evaluate
    using getActionValue_panics getActionValue_unranged getValue_field by metis
qed

text \<open>C3. Evaluating validated commands panics exactly if one of the actions has the full range
  as its value, whatever the random draws: on every other request the evaluation returns.\<close>

theorem evaluate_panics:
  assumes "store_ok st" and "wf_map m"
  shows "let c = validateCommands st rq m in
    panics (evaluate c g) \<longleftrightarrow> (\<exists>k \<in> set (actions c). ranged_key k \<and> full_range (cmd_field c k))"
  unfolding Let_def by (rule evaluate_panics_iff [OF assms refl])

theorem evaluate_panics_witness:
  "panics (evaluate (validateCommands NewDataStore plain_get
     [(''size'', [''0-9223372036854775807''])]) (\<lambda>_. 0))"
proof -
  let ?v = "''0-9223372036854775807''"
  let ?c = "validateCommands NewDataStore plain_get [(''size'', [?v])]"
  have v: "sat_val ''0'' = 0" "sat_val ''9223372036854775807'' = max_int64"
    by (simp_all add: sat_val_def dec_val_def digit_val_def max_int64_def)
  have d: "digits ''0''" "digits ''9223372036854775807''"
    by (simp_all add: digits_def is_digit_code)
  then have m: "rx_match regexpNumRange ?v"
    unfolding match_num_range_digits by (intro disjI2 exI [of _ "''0''"] exI [of _ "''9223372036854775807''"]) simp
  have "full_range ?v"
    unfolding full_range_def
    by (intro exI [of _ "''0''"] exI [of _ "''9223372036854775807''"])
      (simp add: d v range_lo_def range_hi_def max_int64_def)
  moreover have "actions ?c = [''size''] \<and> cmd_field ?c ''size'' = ?v"
    using m by (simp add: validateCommands_def combineValuesWithOr_def validate_step_def is_if_def
        validatorForHttp_def no_commands_def)
  ultimately show ?thesis
    using evaluate_panics [OF store_ok_NewDataStore, of "[(''size'', [?v])]" plain_get "\<lambda>_. 0"]
    by (simp add: Let_def ranged_key_def)
qed

lemma validate_keys_known:
  assumes "store_ok st" and "c = validateCommands st rq m"
  shows "\<forall>k \<in> set (actions c @ ifMatches c @ ifUnmatches c @ invalids c). known_key k"
  using pick_known [OF assms(1)] unfolding assms(2) validateCommands_def validate_lists
  by (auto dest: well_formed_recognised)

lemma evaluate_fields:
  assumes "store_ok st" and "wf_map m" and "c = validateCommands st rq m" and "actions c \<noteq> []"
    and "evaluate c g = Inr (r, g')"
  shows "(\<forall>k \<in> set (invalids c). cmd_field r k = ''invalid'') \<and>
    (\<forall>k \<in> set (ifMatches c). cmd_field r k = ''matched'') \<and>
    (\<forall>k \<in> set (ifUnmatches c). cmd_field r k = ''unmatched'') \<and>
    (\<forall>k \<in> set (actions c). \<exists>g1 g2. getActionValue c k g1 = Inr (cmd_field r k, g2)) \<and>
    (\<forall>k. k \<notin> set (actions c @ ifMatches c @ ifUnmatches c @ invalids c) \<longrightarrow> cmd_field r k = [])"
proof -
  have dist: "distinct (actions c @ ifMatches c @ ifUnmatches c @ invalids c)"
    using validate_keys_partition [OF assms(2), of st rq] assms(3) by simp
  have known: "\<forall>k \<in> set (actions c @ ifMatches c @ ifUnmatches c @ invalids c). known_key k"
    by (rule validate_keys_known [OF assms(1,3)])
  let ?r1 = "foldl (\<lambda>r k. setValue k ''invalid'' r) no_commands (invalids c)"
  let ?r2 = "foldl (\<lambda>r k. setValue k ''matched'' r) ?r1 (ifMatches c)"
  let ?r3 = "foldl (\<lambda>r k. setValue k ''unmatched'' r) ?r2 (ifUnmatches c)"
  have "set_actions c (actions c) ?r3 g = Inr (r, g')"
    using assms(4,5) by (simp add: evaluate_def Let_def)
  from set_actions_field [OF this] known dist
  have a: "\<forall>k. k \<notin> set (actions c) \<longrightarrow> cmd_field r k = cmd_field ?r3 k"
    and b: "\<forall>k \<in> set (actions c). \<exists>g1 g2. getActionValue c k g1 = Inr (cmd_field r k, g2)"
    by auto
  from known have fs: "cmd_field ?r3 k =
      (if k \<in> set (ifUnmatches c) then ''unmatched'' else if k \<in> set (ifMatches c) then ''matched''
       else if k \<in> set (invalids c) then ''invalid'' else [])" for k
    by (simp add: foldl_setValue)
  from a have a': "k \<notin> set (actions c) \<Longrightarrow> cmd_field r k =
      (if k \<in> set (ifUnmatches c) then ''unmatched'' else if k \<in> set (ifMatches c) then ''matched''
       else if k \<in> set (invalids c) then ''invalid'' else [])" for k
    by (simp add: fs)
  have disj: "k \<in> set (invalids c) \<Longrightarrow> k \<notin> set (actions c) \<and> k \<notin> set (ifMatches c) \<and> k \<notin> set (ifUnmatches c)"
    "k \<in> set (ifMatches c) \<Longrightarrow> k \<notin> set (actions c) \<and> k \<notin> set (ifUnmatches c)"
    "k \<in> set (ifUnmatches c) \<Longrightarrow> k \<notin> set (actions c)" for k
    using dist by auto
  show ?thesis
    by (intro conjI ballI allI impI b [rule_format]) (simp_all add: a' disj)
qed

text \<open>C4. What the result shows when there is an action: \<open>invalid\<close>, \<open>matched\<close> or
  \<open>unmatched\<close> for each name of the list of that kind, for each action a value drawn for it,
  and nothing for any other name.\<close>

theorem evaluate_result:
  assumes "store_ok st" and "wf_map m" and "c = validateCommands st rq m" and "actions c \<noteq> []"
    and "evaluate c g = Inr (r, g')"
  shows "(\<forall>k \<in> set (invalids c). cmd_field r k = ''invalid'') \<and>
    (\<forall>k \<in> set (ifMatches c). cmd_field r k = ''matched'') \<and>
    (\<forall>k \<in> set (ifUnmatches c). cmd_field r k = ''unmatched'') \<and>
    (\<forall>k \<in> set (actions c). \<exists>g1 g2. getActionValue c k g1 = Inr (cmd_field r k, g2)) \<and>
    (\<forall>k. k \<notin> set (actions c @ ifMatches c @ ifUnmatches c @ invalids c) \<longrightarrow> cmd_field r k = [])"
  by (rule evaluate_fields [OF assms])

theorem evaluate_result_witness:
  "let c = validateCommands NewDataStore plain_get [(''status'', [''404'']), (''size'', [''1k''])] in
   \<exists>r g. evaluate c (\<lambda>_. 0) = Inr (r, g) \<and> cmd_field r ''size'' = ''invalid'' \<and> cmd_field r ''cpu'' = []"
proof -
  let ?m = "[(''status'', [''404'']), (''size'', [''1k''])]"
  let ?c = "validateCommands NewDataStore plain_get ?m"
  have c: "actions ?c = [''status''] \<and> ifMatches ?c = [] \<and> ifUnmatches ?c = [] \<and> invalids ?c = [''size'']"
    by (simp add: validateCommands_def combineValuesWithOr_def validate_step_def is_if_def
        validatorForHttp_def no_commands_def match_num_range match_status is_digit_code Cons_eq_append_conv del: rx_match.simps)
  then obtain r g where e: "evaluate ?c (\<lambda>_. 0) = Inr (r, g)"
    by (simp add: evaluate_def getActionValue_def ranged_key_def)
  have "wf_map ?m" "actions ?c \<noteq> []" using c by simp_all
  note res = evaluate_result [OF store_ok_NewDataStore this(1) refl this(2) e]
  have "cmd_field r ''size'' = ''invalid''"
    by (rule bspec [OF conjunct1 [OF res]]) (simp add: c)
  moreover have "cmd_field r ''cpu'' = []"
    by (rule mp [OF spec [OF conjunct2 [OF conjunct2 [OF conjunct2 [OF conjunct2 [OF res]]]]]]) (simp add: c)
  ultimately show ?thesis using e unfolding Let_def by blast
qed

end
