(* ===== verification/NodeInfo.thy ===== *)
theory NodeInfo
  imports Prelude "HOL-Library.Word"
begin

text \<open>
  nodeinfo.go and the remote node map of types.go: the counters of a node and how requests and
  connections change them, the map of the nodes this server was reached from, and the unit
  that a byte count is shown in. Counters are 64-bit words, so that Go's wrap-around is the
  model's. A \<open>float64\<close> is only copied here: it is its 64 bits. The clock is an argument.
\<close>

type_synonym int64 = "64 word"
type_synonym float64 = "64 word"

section \<open>Nodes\<close>

text \<open>
  A pointer to a node of the remote node map is the address whose entry it is, or nil: an entry
  is allocated once and never replaced or removed, so the address identifies it.
\<close>

type_synonym node_ref = "string option"

record node_info =
  createdAt :: int64
  updatedAt :: int64
  requestCount :: int64
  sentBytes :: int64
  receivedBytes :: int64
  nodeCPU :: float64
  nodeMemory :: float64
  activeConns :: int64
  totalConns :: int64
  elbs :: "string \<rightharpoonup> node_ref"

definition NewNodeInfo :: "int64 \<Rightarrow> node_info" where
  "NewNodeInfo now =
     \<lparr>createdAt = now, updatedAt = now, requestCount = 0, sentBytes = 0, receivedBytes = 0,
      nodeCPU = 0, nodeMemory = 0, activeConns = 0, totalConns = 0, elbs = Map.empty\<rparr>"

definition reflectRequest :: "int64 \<Rightarrow> int64 \<Rightarrow> int64 \<Rightarrow> node_info \<Rightarrow> node_info" where
  "reflectRequest now received sent ni =
     ni\<lparr>receivedBytes := receivedBytes ni + received, sentBytes := sentBytes ni + sent,
        requestCount := requestCount ni + 1, updatedAt := now\<rparr>"

definition addTotalConns :: "int64 \<Rightarrow> int64 \<Rightarrow> node_info \<Rightarrow> node_info" where
  "addTotalConns now cnt ni = ni\<lparr>updatedAt := now, totalConns := totalConns ni + cnt\<rparr>"

definition addActiveConns :: "int64 \<Rightarrow> int64 \<Rightarrow> node_info \<Rightarrow> node_info" where
  "addActiveConns now cnt ni = ni\<lparr>updatedAt := now, activeConns := activeConns ni + cnt\<rparr>"

definition setCreatedAt :: "int64 \<Rightarrow> node_info \<Rightarrow> node_info" where
  "setCreatedAt t ni = ni\<lparr>createdAt := t\<rparr>"

lemma addConns_fields [simp]:
  "totalConns (addTotalConns now cnt ni) = totalConns ni + cnt"
  "activeConns (addTotalConns now cnt ni) = activeConns ni"
  "totalConns (addActiveConns now cnt ni) = totalConns ni"
  "activeConns (addActiveConns now cnt ni) = activeConns ni + cnt"
  by (simp_all add: addTotalConns_def addActiveConns_def)

text \<open>\<open>updateNode\<close>: the server's own node takes the current resource usage and counters.\<close>

definition updateNode :: "float64 \<Rightarrow> float64 \<Rightarrow> int64 \<Rightarrow> int64 \<Rightarrow> int64 \<Rightarrow> node_info \<Rightarrow> node_info" where
  "updateNode cpu mem act tot now ni =
     ni\<lparr>nodeCPU := cpu, nodeMemory := mem, activeConns := act, totalConns := tot, updatedAt := now\<rparr>"

section \<open>The remote node map\<close>

type_synonym remote_nodes = "string \<rightharpoonup> node_info"

definition rnm_addTotalConns :: "int64 \<Rightarrow> string \<Rightarrow> int64 \<Rightarrow> remote_nodes \<Rightarrow> remote_nodes" where
  "rnm_addTotalConns now addr cnt m =
     (let m = (if m addr = None then m(addr \<mapsto> (NewNodeInfo now)\<lparr>createdAt := now\<rparr>) else m)
      in m(addr \<mapsto> addTotalConns now cnt (the (m addr))))"

text \<open>The map holds pointers: an address with no entry is a nil dereference.\<close>

definition rnm_addActiveConns :: "int64 \<Rightarrow> string \<Rightarrow> int64 \<Rightarrow> remote_nodes \<Rightarrow> remote_nodes res" where
  "rnm_addActiveConns now addr cnt m =
     (case m addr of
        None \<Rightarrow> Inl NilDereference
      | Some ni \<Rightarrow> Inr (m(addr \<mapsto> addActiveConns now cnt ni)))"

definition rnm_reflectRequest :: "int64 \<Rightarrow> string \<Rightarrow> int64 \<Rightarrow> int64 \<Rightarrow> remote_nodes \<Rightarrow> remote_nodes res" where
  "rnm_reflectRequest now addr received sent m =
     (case m addr of
        None \<Rightarrow> Inl NilDereference
      | Some ni \<Rightarrow> Inr (m(addr \<mapsto> reflectRequest now received sent ni)))"

text \<open>A counter summed over all remote nodes.\<close>

definition nodes_sum :: "(node_info \<Rightarrow> int64) \<Rightarrow> remote_nodes \<Rightarrow> int64" where
  "nodes_sum f m = (\<Sum>a \<in> dom m. f (the (m a)))"

lemma nodes_sum_upd:
  assumes "finite (dom m)"
  shows "nodes_sum f (m(a \<mapsto> x)) = nodes_sum f m + f x - (case m a of None \<Rightarrow> 0 | Some y \<Rightarrow> f y)"
proof -
  have "(\<Sum>b \<in> dom m - {a}. f (the ((m(a \<mapsto> x)) b))) = (\<Sum>b \<in> dom m - {a}. f (the (m b)))"
    by (rule sum.cong) auto
  then have "nodes_sum f (m(a \<mapsto> x)) = f x + (\<Sum>b \<in> dom m - {a}. f (the (m b)))"
    using assms by (simp add: nodes_sum_def sum.insert_remove)
  moreover have "nodes_sum f m = (case m a of None \<Rightarrow> 0 | Some y \<Rightarrow> f y) + (\<Sum>b \<in> dom m - {a}. f (the (m b)))"
  proof (cases "m a")
    case None
    then have "dom m - {a} = dom m" by auto
    with None show ?thesis by (simp add: nodes_sum_def)
  next
    case (Some y)
    then have "a \<in> dom m" by auto
    with Some assms show ?thesis by (simp add: nodes_sum_def sum.remove)
  qed
  ultimately show ?thesis by simp
qed

lemma dom_rnm_addTotalConns [simp]: "dom (rnm_addTotalConns now addr cnt m) = insert addr (dom m)"
  by (auto simp: rnm_addTotalConns_def Let_def)

lemma sum_rnm_addTotalConns:
  assumes "finite (dom m)"
  shows "nodes_sum totalConns (rnm_addTotalConns now addr cnt m) = nodes_sum totalConns m + cnt"
    and "nodes_sum activeConns (rnm_addTotalConns now addr cnt m) = nodes_sum activeConns m"
  using assms
  by (auto simp: rnm_addTotalConns_def Let_def nodes_sum_upd NewNodeInfo_def split: option.splits)

lemma rnm_addActiveConns_ok:
  "addr \<in> dom m \<Longrightarrow> \<exists>m'. rnm_addActiveConns now addr cnt m = Inr m'"
  by (auto simp: rnm_addActiveConns_def)

lemma sum_rnm_addActiveConns:
  assumes "finite (dom m)" and "rnm_addActiveConns now addr cnt m = Inr m'"
  shows "nodes_sum totalConns m' = nodes_sum totalConns m"
    and "nodes_sum activeConns m' = nodes_sum activeConns m + cnt"
    and "dom m' = dom m"
  using assms
  by (auto simp: rnm_addActiveConns_def nodes_sum_upd split: option.splits if_splits)

section \<open>Showing a byte count\<close>

text \<open>
  The loop of \<open>easeReadBytes\<close> and its result. \<open>show_quotient\<close> stands for
  \<open>fmt.Sprintf\<close> with the verb for one decimal, applied to the quotient of the two numbers
  as floats.
\<close>

function ease_loop :: "int \<Rightarrow> int \<Rightarrow> nat \<Rightarrow> int \<times> nat" where
  "ease_loop n div' exp' =
     (if n \<ge> 1000 then ease_loop (n div 1000) (wrap64 (div' * 1000)) (Suc exp') else (div', exp'))"
  by pat_completeness auto
termination by (relation "measure (\<lambda>(n, _, _). nat n)") auto

declare ease_loop.simps [simp del]

definition byte_units :: string where
  "byte_units = ''kMGTPE''"

definition easeReadBytes :: "(int \<Rightarrow> int \<Rightarrow> string) \<Rightarrow> string \<Rightarrow> string res" where
  "easeReadBytes show_quotient sb =
     (let b = fst (atoi sb) in
      if b < 1000 then Inr (itoa b @ '' B'')
      else
        let (d, e) = ease_loop (b div 1000) 1000 0
        in res_bind (go_index byte_units e) (\<lambda>u. Inr (show_quotient b d @ '' '' @ [u] @ ''B'')))"

lemma ease_loop_scale:
  assumes "1000 ^ k \<le> n" and "n < 1000 ^ Suc k" and "d * 1000 ^ k \<le> max_int64" and "0 < d"
  shows "ease_loop n d e = (d * 1000 ^ k, e + k)"
  using assms
proof (induction k arbitrary: n d e)
  case 0
  then show ?case by (simp add: ease_loop.simps)
next
  case (Suc k)
  have "(1::int) \<le> 1000 ^ k" by simp
  moreover have "1000 * 1000 ^ k \<le> n" using Suc.prems(1) by simp
  ultimately have n: "1000 \<le> n" by linarith
  have lo: "1000 ^ k \<le> n div 1000" and hi: "n div 1000 < 1000 ^ Suc k"
    using Suc.prems(1,2) by simp_all
  have "d * 1000 \<le> d * 1000 ^ Suc k" using Suc.prems(4) by simp
  then have "d * 1000 \<le> max_int64" using Suc.prems(3) by (rule order_trans)
  then have "wrap64 (d * 1000) = d * 1000"
    using Suc.prems(4) by (intro wrap64_id) (simp_all add: min_int64_def)
  with n Suc.IH [OF lo hi, of "d * 1000" "Suc e"] Suc.prems(3,4) show ?case
    by (simp add: ease_loop.simps [of n] mult.assoc)
qed

lemma exists_scale:
  assumes "1000 \<le> b" and "b \<le> max_int64"
  obtains k where "k \<le> 5" and "(1000::int) ^ Suc k \<le> b" and "b < 1000 ^ Suc (Suc k)"
proof -
  have "b < 1000 ^ Suc (Suc 5)" using assms(2) by (simp add: max_int64_def)
  then have ex: "\<exists>k. b < 1000 ^ Suc (Suc k)" ..
  define k where "k = (LEAST k. b < 1000 ^ Suc (Suc k))"
  have hi: "b < 1000 ^ Suc (Suc k)" unfolding k_def by (rule LeastI_ex [OF ex])
  have "k \<le> 5" unfolding k_def by (rule Least_le) fact
  moreover have "1000 ^ Suc k \<le> b"
  proof (cases k)
    case 0
    with assms show ?thesis by simp
  next
    case (Suc j)
    then have "\<not> b < 1000 ^ Suc (Suc j)" unfolding k_def by (intro not_less_Least) simp
    with Suc show ?thesis by simp
  qed
  ultimately show thesis using hi that by blast
qed

lemma easeReadBytes_scaled:
  assumes "list_all is_digit sb" "sb \<noteq> []" and "b = min (dec_val sb) max_int64" and "1000 \<le> b"
  shows "\<exists>k \<le> 5. 1000 ^ Suc k \<le> b \<and> b < 1000 ^ Suc (Suc k) \<and>
    easeReadBytes sq sb = Inr (sq b (1000 ^ Suc k) @ '' '' @ [byte_units ! k] @ ''B'')"
proof -
  have b: "fst (atoi sb) = b" using assms(1-3) by (simp add: fst_atoi_digits)
  obtain k where k: "k \<le> 5" "(1000::int) ^ Suc k \<le> b" "b < 1000 ^ Suc (Suc k)"
    using exists_scale assms(3,4) by (metis min.cobounded2)
  have "ease_loop (b div 1000) 1000 0 = (1000 * 1000 ^ k, 0 + k)"
  proof (rule ease_loop_scale)
    show "1000 ^ k \<le> b div 1000" "b div 1000 < 1000 ^ Suc k" using k(2,3) by simp_all
    have "(1000::int) ^ Suc k \<le> b" by fact
    then show "1000 * 1000 ^ k \<le> max_int64" using assms(3) by simp
  qed simp
  then have "easeReadBytes sq sb = Inr (sq b (1000 ^ Suc k) @ '' '' @ [byte_units ! k] @ ''B'')"
    using assms(4) k(1) b by (simp add: easeReadBytes_def Let_def go_index_def byte_units_def)
  with k show ?thesis by blast
qed

text \<open>The loop that picks the unit of a byte count ends on the right one and never reads
  past its table of unit letters: for every decimal string (values beyond an int count as the
  largest), a count below a thousand is shown in bytes, any other is divided by the power of a
  thousand that leaves a quotient from 1 to below 1000, and the letter is that power's.\<close>

theorem easeReadBytes_unit:
  assumes "list_all is_digit sb" "sb \<noteq> []" and "b = min (dec_val sb) max_int64"
  shows "if b < 1000 then easeReadBytes sq sb = Inr (itoa b @ '' B'')
    else \<exists>k \<le> 5. 1000 ^ Suc k \<le> b \<and> b < 1000 ^ Suc (Suc k) \<and>
      easeReadBytes sq sb = Inr (sq b (1000 ^ Suc k) @ '' '' @ [''kMGTPE'' ! k] @ ''B'')"
proof (cases "b < 1000")
  case True
  then have "easeReadBytes sq sb = Inr (itoa b @ '' B'')"
    using assms(3) unfolding easeReadBytes_def Let_def fst_atoi_digits [OF assms(2,1)] by simp
  with True show ?thesis by simp
next
  case False
  then show ?thesis using easeReadBytes_scaled [OF assms, of sq] by (simp add: byte_units_def)
qed

theorem easeReadBytes_unit_witness:
  "easeReadBytes (\<lambda>b d. itoa (b div d)) ''999'' = Inr ''999 B'' \<and>
   (\<exists>s. easeReadBytes (\<lambda>b d. itoa (b div d)) ''18446744073709551616'' = Inr s)"
proof
  have i: "itoa 999 = ''999''" by (simp add: itoa_def nat_str.simps) code_simp
  have "min (dec_val ''999'') max_int64 = 999" "list_all is_digit ''999''"
    by (simp_all add: dec_val_def digit_val_def max_int64_def is_digit_code)
  then show "easeReadBytes (\<lambda>b d. itoa (b div d)) ''999'' = Inr ''999 B''"
    using easeReadBytes_unit [of "''999''" 999 "\<lambda>b d. itoa (b div d)"] by (simp add: i)
  have "min (dec_val ''18446744073709551616'') max_int64 = 9223372036854775807"
    "list_all is_digit ''18446744073709551616''"
    by (simp_all add: dec_val_def digit_val_def max_int64_def is_digit_code)
  then show "\<exists>s. easeReadBytes (\<lambda>b d. itoa (b div d)) ''18446744073709551616'' = Inr s"
    using easeReadBytes_unit [of "''18446744073709551616''" 9223372036854775807 "\<lambda>b d. itoa (b div d)"]
    by auto
qed

end
