(* ===== verification/Addr.thy ===== *)
theory Addr
  imports Prelude
begin

text \<open>
  types.go: taking a host and a port out of an address (\<open>extractIPAddress\<close>,
  \<open>extractPort\<close>), splitting an X-Forwarded-For header (\<open>splitXFF\<close>) and the keys of
  the connection table (\<open>connKey\<close>). The lemmas show that the two extractors invert
  \<open>net.JoinHostPort\<close>, the form in which package net prints a peer address, for IPv4 and for
  bracketed IPv6 hosts, and that a connection key determines its two addresses.
\<close>

section \<open>Hosts and ports\<close>

definition is_bracket :: "char \<Rightarrow> bool" where
  "is_bracket c = (c = CHR ''['' \<or> c = CHR '']'')"

definition has_port6 :: "string \<Rightarrow> bool" where
  "has_port6 ipport = (prefix ''['' ipport \<and> \<not> has_suffix ipport '']'')"

definition extractIPAddress :: "string \<Rightarrow> string" where
  "extractIPAddress ipport =
     (let parts = split '':'' ipport in
      if length parts > 2 then
        let portExists = (if has_port6 ipport then 1 else 0)
        in trim is_bracket (join '':'' (take (length parts - portExists) parts))
      else if contains ipport '':'' then parts ! 0
      else ipport)"

definition extractPort :: "string \<Rightarrow> int" where
  "extractPort ipport =
     (let parts = split '':'' ipport;
          port = (if length parts > 2 then
                    (if has_port6 ipport then join '':'' (drop (length parts - 1) parts) else [])
                  else if contains ipport '':'' then parts ! 1
                  else [])
      in case atoi port of (n, ok) \<Rightarrow> if ok then n else 0)"

text \<open>The constant indices are in range: the list is never empty, and has two elements where
  index 1 is read.\<close>

lemma extract_index_ok:
  "0 < length (split '':'' s)"
  "contains s '':'' \<Longrightarrow> 1 < length (split '':'' s)"
  by (simp_all add: length_split_single contains_single count_list_pos)

text \<open>\<open>net.JoinHostPort\<close>, which \<open>net.TCPAddr.String\<close> uses: a host with a colon is
  bracketed.\<close>

definition joinHostPort :: "string \<Rightarrow> string \<Rightarrow> string" where
  "joinHostPort host port =
     (if contains host '':'' then ''['' @ host @ '']:'' @ port else host @ '':'' @ port)"

lemma split_colon_snoc:
  "CHR '':'' \<notin> set p \<Longrightarrow> split '':'' (s @ CHR '':'' # p) = split '':'' s @ [p]"
proof (induction s)
  case Nil
  then show ?case by (simp add: split_single_Cons split_no_sep)
next
  case (Cons c s)
  obtain w ws where "split '':'' s = w # ws"
    using split_not_Nil [of "'':''" s] by (cases "split '':'' s") auto
  with Cons show ?case by (simp add: split_single_Cons)
qed

lemma trim_brackets:
  assumes "\<forall>c \<in> set h. \<not> is_bracket c"
  shows "trim is_bracket (''['' @ h @ '']'') = h"
proof (cases "h = []")
  case True
  then show ?thesis by (simp add: trim_def trim_left_def trim_right_def is_bracket_def)
next
  case False
  have "dropWhile is_bracket (''['' @ h @ '']'') = h @ '']''"
    using assms False by (cases h) (auto simp: is_bracket_def)
  moreover have "dropWhile is_bracket (rev h) = rev h"
    using assms False by (cases h rule: rev_cases) auto
  ultimately show ?thesis
    using assms False
    by (simp add: trim_def trim_left_def trim_right_def is_bracket_def)
qed

lemma split_bracketed:
  assumes "CHR '':'' \<notin> set port"
  shows "split '':'' (''['' @ h @ '']:'' @ port) = split '':'' (''['' @ h @ '']'') @ [port]"
  using split_colon_snoc [OF assms, of "''['' @ h @ '']''"] by simp

lemma length_split_bracketed:
  assumes "contains h '':''" and "CHR '':'' \<notin> set port"
  shows "2 < length (split '':'' (''['' @ h @ '']:'' @ port))"
  using assms count_list_pos [of "CHR '':''" h]
  by (simp add: length_split_single contains_single)

lemma has_port6_bracketed:
  assumes "port \<noteq> []" and "\<forall>c \<in> set port. \<not> is_bracket c"
  shows "has_port6 (''['' @ h @ '']:'' @ port)"
proof -
  have "last (''['' @ h @ '']:'' @ port) = last port" using assms(1) by simp
  moreover have "last port \<noteq> CHR '']''" using assms by (auto simp: is_bracket_def)
  ultimately show ?thesis by (simp add: has_port6_def has_suffix_single)
qed

text \<open>C7. For every host and port, the extractors recover exactly what
  \<open>net.JoinHostPort\<close> printed: the host without its brackets, and the port's number. The host is
  any string without brackets (an IPv4 or IPv6 address, with or without a zone, or a name), the
  port a decimal number that fits an int.\<close>

theorem extract_joinHostPort:
  assumes "\<forall>c \<in> set host. \<not> is_bracket c"
    and "port \<noteq> []" and "list_all is_digit port" and "dec_val port \<le> max_int64"
  shows "extractIPAddress (joinHostPort host port) = host \<and>
    extractPort (joinHostPort host port) = dec_val port"
proof -
  have colon: "CHR '':'' \<notin> set port" and nb: "\<forall>c \<in> set port. \<not> is_bracket c"
    using assms(3) by (auto simp: list_all_iff is_bracket_def is_digit_code)
  have atoi: "atoi port = (dec_val port, True)"
    using assms(2-4) by (simp add: atoi_digits)
  show ?thesis
  proof (cases "contains host '':''")
    case True
    let ?s = "''['' @ host @ '']:'' @ port"
    have parts: "split '':'' ?s = split '':'' (''['' @ host @ '']'') @ [port]"
      by (rule split_bracketed [OF colon])
    have long: "2 < length (split '':'' ?s)"
      by (rule length_split_bracketed [OF True colon])
    have hp: "has_port6 ?s"
      using assms(2) nb by (rule has_port6_bracketed)
    have "join '':'' (split '':'' (''['' @ host @ '']'')) = ''['' @ host @ '']''"
      by (rule join_split) simp
    then have ip: "extractIPAddress ?s = host"
      using long hp trim_brackets [OF assms(1)] unfolding extractIPAddress_def Let_def parts
      by simp
    have "extractPort ?s = dec_val port"
      using long hp atoi unfolding extractPort_def Let_def parts by simp
    with ip True show ?thesis by (simp add: joinHostPort_def)
  next
    case False
    then have "CHR '':'' \<notin> set host" by (simp add: contains_single)
    then have parts: "split '':'' (host @ '':'' @ port) = [host, port]"
      using colon by (simp add: split_append_sep split_no_sep)
    have c: "contains (host @ '':'' @ port) '':''" by (simp add: contains_single)
    show ?thesis
      using False atoi c unfolding joinHostPort_def extractIPAddress_def extractPort_def Let_def
      by (simp only: parts if_False) simp
  qed
qed

theorem extract_joinHostPort_witness:
  "extractIPAddress (joinHostPort ''2001:db8::1'' ''443'') = ''2001:db8::1'' \<and>
   extractPort (joinHostPort ''2001:db8::1'' ''443'') = 443 \<and>
   joinHostPort ''2001:db8::1'' ''443'' = ''[2001:db8::1]:443''"
proof -
  have "dec_val ''443'' = 443" by (simp add: dec_val_def digit_val_def)
  then show ?thesis
    using extract_joinHostPort [of "''2001:db8::1''" "''443''"]
    by (simp add: is_bracket_def is_digit_code max_int64_def joinHostPort_def contains_single)
qed

lemma extract_no_port: "CHR '':'' \<notin> set ip \<Longrightarrow> extractIPAddress ip = ip \<and> extractPort ip = 0"
  by (simp add: extractIPAddress_def extractPort_def Let_def split_no_sep contains_single atoi_def parse_uint_def)

section \<open>X-Forwarded-For\<close>

definition splitXFF :: "string \<Rightarrow> string list" where
  "splitXFF xffStr = (if xffStr = [] then [] else map trim_space (split '','' xffStr))"

definition trimmed :: "string \<Rightarrow> bool" where
  "trimmed s = (s \<noteq> [] \<and> \<not> is_space (hd s) \<and> \<not> is_space (last s))"

lemma join_first_Cons: "join sep ((c # w) # ws) = c # join sep (w # ws)"
  by (cases ws) auto

lemma join_comma_space:
  "join '', '' (w # ws) = join '','' (w # map (\<lambda>v. CHR '' '' # v) ws)"
  by (induction ws arbitrary: w) (auto simp: join_first_Cons)

lemma trim_space_trimmed: "trimmed w \<Longrightarrow> trim_space w = w"
  by (simp add: trimmed_def trim_space_def trim_id)

lemma trim_space_padded: "trimmed w \<Longrightarrow> trim_space (CHR '' '' # w) = w"
  by (simp add: trimmed_def trim_space_def trim_left_Cons is_space_def trim_id)

text \<open>A header that lists addresses separated by a comma and a space, as proxies write it,
  is split into exactly those addresses, in order.\<close>

theorem splitXFF_join:
  assumes "\<forall>w \<in> set ips. trimmed w \<and> CHR '','' \<notin> set w"
  shows "splitXFF (join '', '' ips) = ips"
proof (cases ips)
  case Nil
  then show ?thesis by (simp add: splitXFF_def)
next
  case (Cons w ws)
  have ne: "join '', '' ips \<noteq> []"
    using assms Cons by (cases ws) (auto simp: trimmed_def)
  have "split '','' (join '', '' ips) = w # map (\<lambda>v. CHR '' '' # v) ws"
    unfolding Cons join_comma_space using assms Cons
    by (intro split_join_single) auto
  then have "map trim_space (split '','' (join '', '' ips)) = ips"
    using assms Cons
    by (auto simp: trim_space_padded trim_space_trimmed intro!: map_idI)
  with ne show ?thesis by (simp add: splitXFF_def)
qed

theorem splitXFF_join_witness:
  "splitXFF ''203.0.113.145, 172.31.39.211'' = [''203.0.113.145'', ''172.31.39.211'']"
  using splitXFF_join [of "[''203.0.113.145'', ''172.31.39.211'']"]
  by (simp add: trimmed_def is_space_def)

section \<open>Keys of the connection table\<close>

definition arrow :: string where
  "arrow = ''->''"

definition connKey :: "string \<Rightarrow> string \<Rightarrow> string" where
  "connKey remoteAddr localAddr = remoteAddr @ arrow @ localAddr"

text \<open>No printed address holds the character \<open>>\<close>.\<close>

definition plain_addr :: "string \<Rightarrow> bool" where
  "plain_addr a = (CHR ''>'' \<notin> set a)"

lemma arrow_split_unique:
  assumes "CHR ''>'' \<notin> set r" and "CHR ''>'' \<notin> set r'"
    and "r @ ''->'' @ l = r' @ ''->'' @ l'"
  shows "r = r' \<and> l = l'"
  using assms
proof (induction r arbitrary: r')
  case Nil
  then show ?case
    by (cases r'; cases "tl r'") auto
next
  case (Cons c r)
  show ?case
  proof (cases r')
    case Nil
    with Cons.prems show ?thesis by (cases r) auto
  next
    case (Cons d t)
    with Cons.prems Cons.IH [of t] show ?thesis by auto
  qed
qed

lemma connKey_inject:
  assumes "plain_addr r" "plain_addr r'"
  shows "connKey r l = connKey r' l' \<longleftrightarrow> r = r' \<and> l = l'"
  using assms arrow_split_unique [of r r' l l']
  by (auto simp: connKey_def arrow_def plain_addr_def)

lemma connKey_prefix:
  assumes "plain_addr r" "plain_addr r'"
  shows "prefix (r @ arrow) (connKey r' l') \<longleftrightarrow> r = r'"
  using assms arrow_split_unique [of r r' _ l']
  by (auto simp: connKey_def arrow_def plain_addr_def prefix_def)

end
