(* ===== verification/Conns.thy ===== *)
theory Conns
  imports NodeInfo Addr
begin

text \<open>
  The connection table and the connection counters: \<open>ConnState\<close> and
  \<open>ConnStateMap\<close> (types.go), \<open>ConnectionWatcher\<close>, the handler wrappers,
  \<open>disconnect\<close> and \<open>closeConnection\<close> (main.go), the tracked gRPC connections
  (grpc.go) and the recount around an h2c connection (h2c.go).

  A connection object is a number; its fields are in a heap, since the table, the server and the
  request handlers share it. An entry of the table is named by its key. Each function is one atomic
  step, its updates in the code's order; \<open>disconnect\<close> is also given as its two halves,
  which another goroutine's steps can come between. A range loop over the table visits its keys in
  an order the caller passes, any enumeration of the keys.
\<close>

section \<open>Connections and the table\<close>

datatype http_state = StateNew | StateActive | StateIdle | StateHijacked | StateClosed

text \<open>The dynamic type of a \<open>net.Conn\<close>: a TCP connection, a TLS connection over a TCP or
  over another connection, or another type (such as the PROXY protocol wrapper).\<close>

datatype conn_kind = TCPConn | TLSConn bool | OtherConn

datatype keepalive = KeepDefault | KeepOff | KeepEvery int

record net_conn =
  remoteAddr :: string
  localAddr :: string
  connKind :: conn_kind
  tracked :: bool
  onceDone :: bool
  keepAlive :: keepalive
  linger :: "int option"
  connOpen :: bool

record conn_state =
  csConn :: nat
  reuse :: int64
  prevState :: http_state
  curState :: http_state

type_synonym conn_state_map = "string \<rightharpoonup> conn_state"

definition updateState :: "http_state \<Rightarrow> conn_state \<Rightarrow> conn_state" where
  "updateState st cs = cs\<lparr>prevState := curState cs, curState := st\<rparr>"

definition csm_set :: "string \<Rightarrow> nat \<Rightarrow> conn_state_map \<Rightarrow> conn_state_map" where
  "csm_set k c m = m(k \<mapsto> \<lparr>csConn = c, reuse = -1, prevState = StateNew, curState = StateNew\<rparr>)"

definition csm_del :: "string \<Rightarrow> conn_state_map \<Rightarrow> conn_state_map" where
  "csm_del k m = m(k := None)"

text \<open>The key of the first entry, in the order visited, that starts with the address.\<close>

definition getByRemoteAddr :: "string list \<Rightarrow> string \<Rightarrow> string option" where
  "getByRemoteAddr ks addr = find (\<lambda>k. prefix (addr @ arrow) k) ks"

record net_state =
  heap :: "nat \<rightharpoonup> net_conn"
  csMaps :: conn_state_map
  total :: int64
  active :: int64
  remoteNodes :: remote_nodes
  h2cConns :: "string list"
  handlers :: "string list"

definition net_init :: net_state where
  "net_init = \<lparr>heap = Map.empty, csMaps = Map.empty, total = 0, active = 0,
     remoteNodes = Map.empty, h2cConns = [], handlers = []\<rparr>"

definition conn_of :: "net_state \<Rightarrow> nat \<Rightarrow> net_conn" where
  "conn_of w c = the (heap w c)"

definition key_of :: "net_conn \<Rightarrow> string" where
  "key_of conn = connKey (remoteAddr conn) (localAddr conn)"

text \<open>The pair of updates by which every change of the total is made.\<close>

definition count_total :: "int64 \<Rightarrow> string \<Rightarrow> int64 \<Rightarrow> net_state \<Rightarrow> net_state" where
  "count_total now ip d w =
     w\<lparr>total := total w + d, remoteNodes := rnm_addTotalConns now ip d (remoteNodes w)\<rparr>"

section \<open>State changes of the HTTP server's connections\<close>

definition getTCPConn :: "net_conn \<Rightarrow> bool" where
  "getTCPConn conn =
     (\<not> tracked conn \<and> (connKind conn = TCPConn \<or> connKind conn = TLSConn True))"

definition set_keepalive :: "int \<Rightarrow> net_conn \<Rightarrow> net_conn" where
  "set_keepalive probeInterval conn =
     (if probeInterval \<noteq> 15 \<and> getTCPConn conn
      then conn\<lparr>keepAlive := (if probeInterval = 0 then KeepOff else KeepEvery probeInterval)\<rparr>
      else conn)"

definition OnStateChange ::
  "int \<Rightarrow> int64 \<Rightarrow> nat \<Rightarrow> http_state \<Rightarrow> net_state \<Rightarrow> net_state" where
  "OnStateChange probeInterval now c state w =
     (let conn = conn_of w c; key = key_of conn; ip = extractIPAddress (remoteAddr conn) in
      if state = StateNew then
        (let m = (if csMaps w key \<noteq> None then csm_del key (csMaps w) else csMaps w);
             w = count_total now ip 1 (w\<lparr>csMaps := csm_set key c m\<rparr>)
         in w\<lparr>heap := (heap w)(c \<mapsto> set_keepalive probeInterval conn)\<rparr>)
      else
        (case csMaps w key of
           None \<Rightarrow> w
         | Some cs \<Rightarrow>
             (let w = w\<lparr>csMaps := (csMaps w)(key \<mapsto> updateState state cs)\<rparr> in
              case state of
                StateHijacked \<Rightarrow> count_total now ip (-1) w
              | StateClosed \<Rightarrow>
                  (let w = count_total now ip (-1) w in w\<lparr>csMaps := csm_del key (csMaps w)\<rparr>)
              | _ \<Rightarrow> w)))"

section \<open>Tracked gRPC connections\<close>

definition Accept :: "int64 \<Rightarrow> nat \<Rightarrow> net_state \<Rightarrow> net_state" where
  "Accept now c w =
     (let conn = conn_of w c; key = key_of conn;
          m = (if csMaps w key \<noteq> None then csm_del key (csMaps w) else csMaps w);
          w = w\<lparr>heap := (heap w)(c \<mapsto> conn\<lparr>tracked := True, onceDone := False\<rparr>),
                csMaps := csm_set key c m\<rparr>
      in count_total now (extractIPAddress (remoteAddr conn)) 1 w)"

text \<open>\<open>once.Do\<close> around the decrement, shared by \<open>Close\<close> and \<open>disconnect\<close>.\<close>

definition once_count :: "int64 \<Rightarrow> string \<Rightarrow> nat \<Rightarrow> net_state \<Rightarrow> net_state" where
  "once_count now addr c w =
     (if onceDone (conn_of w c) then w
      else count_total now (extractIPAddress addr) (-1)
             (w\<lparr>heap := (heap w)(c \<mapsto> (conn_of w c)\<lparr>onceDone := True\<rparr>)\<rparr>))"

definition tracked_Close :: "int64 \<Rightarrow> nat \<Rightarrow> net_state \<Rightarrow> net_state" where
  "tracked_Close now c w =
     (let w = once_count now (remoteAddr (conn_of w c)) c w
      in w\<lparr>heap := (heap w)(c \<mapsto> (conn_of w c)\<lparr>connOpen := False\<rparr>)\<rparr>)"

section \<open>h2c connections\<close>

definition h2c_start :: "int64 \<Rightarrow> string \<Rightarrow> net_state \<Rightarrow> net_state" where
  "h2c_start now addr w =
     (let ip = extractIPAddress addr
      in (count_total now ip 1 w)\<lparr>h2cConns := ip # h2cConns w\<rparr>)"

definition h2c_end :: "int64 \<Rightarrow> string \<Rightarrow> net_state \<Rightarrow> net_state" where
  "h2c_end now ip w = (count_total now ip (-1) w)\<lparr>h2cConns := remove1 ip (h2cConns w)\<rparr>"

section \<open>Request handlers\<close>

text \<open>The reuse count of the request, and the table with it stored.\<close>

definition bump_reuse :: "string list \<Rightarrow> string \<Rightarrow> conn_state_map \<Rightarrow> int64 \<times> conn_state_map" where
  "bump_reuse ks addr m =
     (case getByRemoteAddr ks addr of
        None \<Rightarrow> (0, m)
      | Some k \<Rightarrow>
          let cs = the (m k); r = reuse cs + 1 in (r, m(k \<mapsto> cs\<lparr>reuse := r\<rparr>)))"

definition active_start :: "int64 \<Rightarrow> string \<Rightarrow> net_state \<Rightarrow> net_state res" where
  "active_start now addr w =
     (let ip = extractIPAddress addr; w = w\<lparr>active := active w + 1\<rparr> in
      res_bind (rnm_addActiveConns now ip 1 (remoteNodes w))
        (\<lambda>m. Inr (w\<lparr>remoteNodes := m, handlers := ip # handlers w\<rparr>)))"

definition active_end :: "int64 \<Rightarrow> string \<Rightarrow> net_state \<Rightarrow> net_state res" where
  "active_end now ip w =
     (let w = w\<lparr>active := active w + (-1)\<rparr> in
      res_bind (rnm_addActiveConns now ip (-1) (remoteNodes w))
        (\<lambda>m. Inr (w\<lparr>remoteNodes := m, handlers := remove1 ip (handlers w)\<rparr>)))"

definition handler_start :: "int64 \<Rightarrow> string list \<Rightarrow> string \<Rightarrow> net_state \<Rightarrow> (int64 \<times> net_state) res" where
  "handler_start now ks addr w =
     (let (r, m) = bump_reuse ks addr (csMaps w)
      in res_bind (active_start now addr (w\<lparr>csMaps := m\<rparr>)) (\<lambda>w. Inr (r, w)))"

section \<open>Disconnecting\<close>

definition close_raw :: "bool \<Rightarrow> net_conn \<Rightarrow> net_conn" where
  "close_raw force conn = conn\<lparr>linger := Some (if \<not> force then 1 else 0), connOpen := False\<rparr>"

text \<open>\<open>closeConnection\<close> on the connection with the given dynamic type.\<close>

definition close_kind :: "bool \<Rightarrow> net_conn \<Rightarrow> net_conn res" where
  "close_kind force conn =
     (case connKind conn of
        TCPConn \<Rightarrow> Inr (close_raw force conn)
      | TLSConn over_tcp \<Rightarrow> if over_tcp then Inr (close_raw force conn) else Inl TypeAssertion
      | OtherConn \<Rightarrow> Inr conn)"

definition closeConnection :: "bool \<Rightarrow> net_conn \<Rightarrow> net_conn res" where
  "closeConnection force conn = (if tracked conn then Inr conn else close_kind force conn)"

definition is_grpc_proto :: "string \<Rightarrow> bool" where
  "is_grpc_proto proto = (proto = ''grpc'' \<or> proto = ''grpcs'')"

text \<open>Up to the test of the current state: the state, the key to delete, whether to count.\<close>

definition disconnect_close ::
  "int64 \<Rightarrow> string list \<Rightarrow> string \<Rightarrow> string \<Rightarrow> bool \<Rightarrow> net_state \<Rightarrow> (net_state \<times> (string \<times> bool) option) res" where
  "disconnect_close now ks addr proto force w =
     (case getByRemoteAddr ks addr of
        None \<Rightarrow> Inr (w, None)
      | Some k \<Rightarrow>
          let cs = the (csMaps w k); c = csConn cs;
              key = connKey addr (localAddr (conn_of w c));
              store = (\<lambda>w conn. w\<lparr>heap := (heap w)(c \<mapsto> conn)\<rparr>);
              closed =
                (if is_grpc_proto proto then
                   (if tracked (conn_of w c) then
                      let w = once_count now addr c w
                      in res_bind (close_kind force (conn_of w c)) (\<lambda>conn. Inr (store w conn))
                    else res_bind (closeConnection force (conn_of w c)) (\<lambda>conn. Inr (store w conn)))
                 else res_bind (closeConnection force (conn_of w c)) (\<lambda>conn. Inr (store w conn)))
          in res_bind closed
               (\<lambda>w. Inr (w, Some (key,
                  \<not> is_grpc_proto proto \<and> proto \<noteq> ''h2c'' \<and> curState cs \<noteq> StateClosed))))"

definition disconnect_count ::
  "int64 \<Rightarrow> string \<Rightarrow> (string \<times> bool) option \<Rightarrow> net_state \<Rightarrow> net_state" where
  "disconnect_count now addr dec w =
     (case dec of
        None \<Rightarrow> w
      | Some (key, counts) \<Rightarrow>
          let w = (if counts then count_total now (extractIPAddress addr) (-1) w else w)
          in w\<lparr>csMaps := csm_del key (csMaps w)\<rparr>)"

definition disconnect ::
  "int64 \<Rightarrow> string list \<Rightarrow> string \<Rightarrow> string \<Rightarrow> bool \<Rightarrow> net_state \<Rightarrow> net_state res" where
  "disconnect now ks addr proto force w =
     res_bind (disconnect_close now ks addr proto force w)
       (\<lambda>(w, dec). Inr (disconnect_count now addr dec w))"

end
