(* ===== verification/Response.thy ===== *)
theory Response
  imports Prelude "HOL-Library.Word"
begin

text \<open>
  response.go: the body of a response, its JSON text padded with random letters to the requested
  size. The random source is a sequence of naturals of which \<open>Int63\<close> takes the low 63
  bits. The loop of \<open>randBytes\<close> runs until it has drawn enough usable values, so it is a
  partial function: \<open>None\<close> means that it does not return.
\<close>

section \<open>Random letters\<close>

definition letterBytes :: string where
  "letterBytes = ''0123456789abcdefghijklmnopqrstuvwxyzABCDEFGHIJKLMNOPQRSTUVWXYZ''"

lemma length_letterBytes [simp]: "length letterBytes = 62"
  by (simp add: letterBytes_def)

definition letterIdxMax :: nat where "letterIdxMax = 10"
definition letterIdxMask :: "64 word" where "letterIdxMask = 63"
definition loopUnit :: nat where "loopUnit = 100"

type_synonym source = "nat \<Rightarrow> nat"

definition int63 :: "source \<Rightarrow> 64 word" where
  "int63 g = word_of_nat (g 0 mod 2 ^ 63)"

definition advance :: "source \<Rightarrow> source" where
  "advance g = (\<lambda>i. g (Suc i))"

text \<open>One round: the next six bits, after refilling the cache when its ten letters are used up.\<close>

definition draw :: "64 word \<Rightarrow> nat \<Rightarrow> source \<Rightarrow> nat \<times> 64 word \<times> nat \<times> source" where
  "draw cache remain g =
     (let (cache, remain, g) =
            (if remain = 0 then (int63 g, letterIdxMax, advance g) else (cache, remain, g))
      in (unat (and cache letterIdxMask), drop_bit 6 cache, remain - 1, g))"

text \<open>The loop from the last index down: \<open>left\<close> letters are still to be set, those behind
  them are in \<open>b\<close>.\<close>

partial_function (option) rand_loop ::
  "nat \<Rightarrow> 64 word \<Rightarrow> nat \<Rightarrow> source \<Rightarrow> string \<Rightarrow> (string \<times> source) option" where
  "rand_loop left cache remain g b =
     (if left = 0 then Some (b, g)
      else
        (case draw cache remain g of
           (idx, cache, remain, g) \<Rightarrow>
             if idx < length letterBytes
             then rand_loop (left - 1) cache remain g (letterBytes ! idx # b)
             else rand_loop left cache remain g b))"

definition randBytes :: "source \<Rightarrow> nat \<Rightarrow> (string \<times> source) option" where
  "randBytes g n = rand_loop n (int63 g) letterIdxMax (advance g) []"

text \<open>The lines of a filler: \<open>count\<close> times 99 letters and a line break.\<close>

fun rand_lines :: "nat \<Rightarrow> source \<Rightarrow> (string \<times> source) option" where
  "rand_lines 0 g = Some ([], g)"
| "rand_lines (Suc count) g =
     (case randBytes g (loopUnit - 1) of
        None \<Rightarrow> None
      | Some (s, g) \<Rightarrow>
          (case rand_lines count g of
             None \<Rightarrow> None
           | Some (t, g) \<Rightarrow> Some (s @ [CHR 0x0A] @ t, g)))"

definition filler :: "nat \<Rightarrow> source \<Rightarrow> string option" where
  "filler n g =
     (case rand_lines (n div loopUnit) g of
        None \<Rightarrow> None
      | Some (s, g) \<Rightarrow>
          if n mod loopUnit \<noteq> 0
          then (case randBytes g (n mod loopUnit) of None \<Rightarrow> None | Some (t, _) \<Rightarrow> Some (s @ t))
          else Some s)"

section \<open>The two writers\<close>

text \<open>What is written to the client: \<open>None\<close> if the writer does not return, else a panic or
  the bytes.\<close>

definition writeResponse :: "int \<Rightarrow> string \<Rightarrow> source \<Rightarrow> string res option" where
  "writeResponse respSize respJSON g =
     (let respJSON = respJSON @ [CHR 0x0A, CHR 0x0A]; n = int (length respJSON) in
      if respSize \<le> n then Some (go_slice_to respJSON respSize)
      else map_option (\<lambda>s. Inr (respJSON @ s)) (filler (nat (respSize - n)) g))"

text \<open>The chunked writer, with the test that the writer can flush; the line break is part of each
  line's format.\<close>

fun chunk_lines :: "nat \<Rightarrow> source \<Rightarrow> string \<Rightarrow> (string \<times> source) option" where
  "chunk_lines 0 g out = Some (out, g)"
| "chunk_lines (Suc count) g out =
     (case randBytes g (loopUnit - 1) of
        None \<Rightarrow> None
      | Some (s, g) \<Rightarrow> chunk_lines count g (out @ s @ [CHR 0x0A]))"

datatype write_error = NotFlusher

definition writeChunkedResponse ::
  "bool \<Rightarrow> int \<Rightarrow> string \<Rightarrow> source \<Rightarrow> (string res + write_error) option" where
  "writeChunkedResponse flusher respSize respJSON g =
     (if \<not> flusher then Some (Inr NotFlusher)
      else
        let respJSON = respJSON @ [CHR 0x0A, CHR 0x0A]; n = int (length respJSON) in
        if respSize \<le> n then Some (Inl (go_slice_to respJSON respSize))
        else
          let m = nat (respSize - n) in
          (case chunk_lines (m div loopUnit) g respJSON of
             None \<Rightarrow> None
           | Some (out, g) \<Rightarrow>
               if m mod loopUnit \<noteq> 0
               then (case randBytes g (m mod loopUnit) of
                       None \<Rightarrow> None | Some (t, _) \<Rightarrow> Some (Inl (Inr (out @ t))))
               else Some (Inl (Inr out))))"

section \<open>Letters only, as many as asked for\<close>

lemma rand_loop_result:
  assumes "rand_loop left cache remain g b = Some r"
  shows "\<exists>t. fst r = t @ b \<and> length t = left \<and> set t \<subseteq> set letterBytes"
proof (rule rand_loop.raw_induct [where P = "\<lambda>left cache remain g b r.
    \<exists>t. fst r = t @ b \<and> length t = left \<and> set t \<subseteq> set letterBytes", OF _ assms])
  fix loop left cache remain g b r
  assume hyps: "\<And>left cache remain g b r. loop left cache remain g b = Some r \<Longrightarrow>
      \<exists>t. fst r = t @ b \<and> length t = left \<and> set t \<subseteq> set letterBytes"
    and prems: "(if left = 0 then Some (b, g)
      else
        (case draw cache remain g of
           (idx, cache, remain, g) \<Rightarrow>
             if idx < length letterBytes
             then loop (left - 1) cache remain g (letterBytes ! idx # b)
             else loop left cache remain g b)) = Some r"
  obtain idx cache' remain' g' where d: "draw cache remain g = (idx, cache', remain', g')"
    by (cases "draw cache remain g")
  consider (done0) "left = 0" | (taken) "left \<noteq> 0" "idx < 62" | (skipped) "left \<noteq> 0" "\<not> idx < 62"
    by blast
  then show "\<exists>t. fst r = t @ b \<and> length t = left \<and> set t \<subseteq> set letterBytes"
  proof cases
    case done0
    with prems show ?thesis by auto
  next
    case taken
    then have "loop (left - 1) cache' remain' g' (letterBytes ! idx # b) = Some r"
      using prems d by simp
    from hyps [OF this] obtain t where
      "fst r = t @ letterBytes ! idx # b" "length t = left - 1" "set t \<subseteq> set letterBytes" by auto
    moreover have "letterBytes ! idx \<in> set letterBytes" using taken by simp
    ultimately show ?thesis
      using taken by (intro exI [of _ "t @ [letterBytes ! idx]"]) auto
  next
    case skipped
    then have "loop left cache' remain' g' b = Some r"
      using prems d by simp
    from hyps [OF this] show ?thesis .
  qed
qed

lemma randBytes_result:
  "randBytes g n = Some (s, g') \<Longrightarrow> length s = n \<and> set s \<subseteq> set letterBytes"
  using rand_loop_result [of n "int63 g" letterIdxMax "advance g" "[]" "(s, g')"]
  by (auto simp: randBytes_def)

section \<open>When the loop returns\<close>

text \<open>A draw that holds a usable value, and a source that never stops having such draws.\<close>

definition usable :: "64 word \<Rightarrow> bool" where
  "usable x = (\<exists>j < 10. unat (and (drop_bit (6 * j) x) letterIdxMask) < 62)"

definition fair :: "source \<Rightarrow> bool" where
  "fair g = (\<forall>i. \<exists>j \<ge> i. usable (word_of_nat (g j mod 2 ^ 63)))"

lemma fair_advance: "fair g \<Longrightarrow> fair (advance g)"
proof -
  assume f: "fair g"
  have "\<exists>j \<ge> i. usable (word_of_nat (g (Suc j) mod 2 ^ 63))" for i
  proof -
    obtain j where "j \<ge> Suc i" "usable (word_of_nat (g j mod 2 ^ 63))"
      using f by (auto simp: fair_def)
    then show ?thesis by (intro exI [of _ "j - 1"]) (auto simp: Suc_diff_Suc)
  qed
  then show ?thesis by (simp add: fair_def advance_def)
qed

inductive hits :: "64 word \<Rightarrow> nat \<Rightarrow> source \<Rightarrow> bool" where
  hit: "draw cache remain g = (idx, c, r, g') \<Longrightarrow> idx < 62 \<Longrightarrow> hits cache remain g"
| miss: "draw cache remain g = (idx, c, r, g') \<Longrightarrow> hits c r g' \<Longrightarrow> hits cache remain g"

lemma draw_Suc: "draw cache (Suc r) g = (unat (and cache letterIdxMask), drop_bit 6 cache, r, g)"
  by (simp add: draw_def)

lemma draw_refill: "draw cache 0 g = draw (int63 g) 10 (advance g)"
  by (simp add: draw_def letterIdxMax_def)

lemma draw_fair: "draw cache remain g = (idx, c, r, g') \<Longrightarrow> fair g \<Longrightarrow> fair g'"
  by (cases remain) (auto simp: draw_def Let_def fair_advance)

lemma hits_cached:
  "j < remain \<Longrightarrow> unat (and (drop_bit (6 * j) cache) letterIdxMask) < 62 \<Longrightarrow> hits cache remain g"
proof (induction j arbitrary: cache remain)
  case 0
  then obtain r where "remain = Suc r" by (cases remain) auto
  with 0 show ?case by (intro hit [OF draw_Suc [of cache r g, folded \<open>remain = Suc r\<close>]]) simp
next
  case (Suc j)
  then obtain r where r: "remain = Suc r" by (cases remain) auto
  have "hits (drop_bit 6 cache) r g"
    using Suc.prems r by (intro Suc.IH) (simp_all add: add.commute)
  then show ?case using miss [OF draw_Suc] r by simp
qed

lemma hits_refill: "hits (int63 g) 10 (advance g) \<Longrightarrow> hits cache 0 g"
  by (erule hits.cases) (auto intro: hits.intros simp: draw_refill)

lemma hits_empty: "(\<And>c. hits c 0 g) \<Longrightarrow> hits cache remain g"
  by (induction remain arbitrary: cache) (auto intro: miss [OF draw_Suc])

lemma hits_usable: "usable (word_of_nat (g m mod 2 ^ 63)) \<Longrightarrow> hits cache remain g"
proof (induction m arbitrary: g cache remain)
  case 0
  then have "hits (int63 g) 10 (advance g)"
    by (auto simp: usable_def int63_def intro: hits_cached)
  then show ?case by (rule hits_empty [OF hits_refill])
next
  case (Suc m)
  then have "hits (int63 g) 10 (advance g)" by (simp add: advance_def)
  then show ?case by (rule hits_empty [OF hits_refill])
qed

lemma fair_hits: "fair g \<Longrightarrow> hits cache remain g"
  using hits_usable by (auto simp: fair_def)

lemma rand_loop_Suc:
  "draw cache remain g = (idx, c, r, g') \<Longrightarrow>
   rand_loop (Suc left) cache remain g b =
     (if idx < 62 then rand_loop left c r g' (letterBytes ! idx # b) else rand_loop (Suc left) c r g' b)"
  by (subst rand_loop.simps) simp

lemma rand_loop_step:
  assumes "hits cache remain g" and "fair g"
    and "\<And>cache remain g b. fair g \<Longrightarrow> \<exists>s g'. rand_loop left cache remain g b = Some (s, g') \<and> fair g'"
  shows "\<exists>s g'. rand_loop (Suc left) cache remain g b = Some (s, g') \<and> fair g'"
  using assms(1,2)
proof (induction rule: hits.induct)
  case (hit cache remain g idx c r g')
  then have "fair g'" using draw_fair by blast
  from assms(3) [OF this] hit(2) show ?case by (simp add: rand_loop_Suc [OF hit(1)])
next
  case (miss cache remain g idx c r g')
  then have "fair g'" using draw_fair by blast
  from miss(3) [OF this] assms(3) [OF this] show ?case
    by (cases "idx < 62") (simp_all add: rand_loop_Suc [OF miss(1)])
qed

lemma rand_loop_returns:
  "fair g \<Longrightarrow> \<exists>s g'. rand_loop left cache remain g b = Some (s, g') \<and> fair g'"
proof (induction left arbitrary: cache remain g b)
  case 0
  then show ?case by (simp add: rand_loop.simps)
next
  case (Suc left)
  show ?case by (rule rand_loop_step [OF fair_hits [OF Suc.prems] Suc.prems Suc.IH])
qed

lemma randBytes_returns:
  assumes "fair g"
  obtains s g' where "randBytes g n = Some (s, g')" "length s = n" "set s \<subseteq> set letterBytes" "fair g'"
  using rand_loop_returns [OF fair_advance [OF assms], of n "int63 g" letterIdxMax "[]"] randBytes_result
  unfolding randBytes_def by metis

section \<open>The body\<close>

definition is_filler :: "string \<Rightarrow> bool" where
  "is_filler s = (\<forall>i < length s.
     if i mod loopUnit = loopUnit - 1 then s ! i = CHR 0x0A else s ! i \<in> set letterBytes)"

lemma is_filler_append:
  assumes "is_filler s" and "is_filler t" and "length s mod loopUnit = 0"
  shows "is_filler (s @ t)"
  unfolding is_filler_def
proof (intro allI impI)
  fix i assume i: "i < length (s @ t)"
  show "if i mod loopUnit = loopUnit - 1 then (s @ t) ! i = CHR 0x0A else (s @ t) ! i \<in> set letterBytes"
  proof (cases "i < length s")
    case True
    with assms(1) show ?thesis by (simp add: is_filler_def nth_append)
  next
    case False
    then have "i = length s + (i - length s)" by simp
    then have "i mod loopUnit = (i - length s) mod loopUnit"
      using assms(3) by (metis mod_add_left_eq add_0)
    with False i assms(2) show ?thesis by (simp add: is_filler_def nth_append)
  qed
qed

lemma is_filler_letters:
  "length s < loopUnit \<Longrightarrow> set s \<subseteq> set letterBytes \<Longrightarrow> is_filler s"
  "length s = loopUnit - 1 \<Longrightarrow> set s \<subseteq> set letterBytes \<Longrightarrow> is_filler (s @ [CHR 0x0A])"
  by (auto simp: is_filler_def loopUnit_def nth_append dest: nth_mem)

lemma rand_lines_returns:
  assumes "fair g"
  shows "\<exists>s g'. rand_lines k g = Some (s, g') \<and> length s = loopUnit * k \<and> is_filler s \<and> fair g'"
  using assms
proof (induction k arbitrary: g)
  case 0
  then show ?case by (simp add: is_filler_def)
next
  case (Suc k)
  obtain s g1 where s: "randBytes g (loopUnit - 1) = Some (s, g1)" "length s = loopUnit - 1"
    "set s \<subseteq> set letterBytes" "fair g1"
    using randBytes_returns [OF Suc.prems] .
  obtain t g2 where t: "rand_lines k g1 = Some (t, g2)" "length t = loopUnit * k" "is_filler t" "fair g2"
    using Suc.IH [OF s(4)] by auto
  have "is_filler ((s @ [CHR 0x0A]) @ t)"
    using s t is_filler_letters(2) [of s]
    by (intro is_filler_append [of "s @ [CHR 0x0A]" t]) (simp_all add: loopUnit_def)
  with s t show ?case by (simp add: loopUnit_def)
qed

lemma filler_returns:
  assumes "fair g"
  obtains s where "filler n g = Some s" and "length s = n" and "is_filler s"
proof -
  obtain s g1 where s: "rand_lines (n div loopUnit) g = Some (s, g1)" "length s = loopUnit * (n div loopUnit)"
    "is_filler s" "fair g1"
    using rand_lines_returns [OF assms] by blast
  obtain t g2 where t: "randBytes g1 (n mod loopUnit) = Some (t, g2)" "length t = n mod loopUnit"
    "set t \<subseteq> set letterBytes" "fair g2"
    using randBytes_returns [OF s(4)] .
  have m: "n mod loopUnit < loopUnit" by (simp add: loopUnit_def)
  have "is_filler (s @ t)"
    using s t m is_filler_letters(1) [of t] by (intro is_filler_append) simp_all
  moreover have "n mod loopUnit = 0 \<Longrightarrow> t = []" using t(2) by simp
  moreover have "length (s @ t) = n" using s(2) t(2) by simp
  ultimately show thesis
    using that [of "s @ t"] s t by (auto simp: filler_def)
qed

lemma writeResponse_ok:
  assumes "fair g" and "0 \<le> respSize"
  shows "\<exists>body. writeResponse respSize respJSON g = Some (Inr body) \<and> int (length body) = respSize \<and>
    (prefix body (respJSON @ [CHR 0x0A, CHR 0x0A]) \<or>
     (\<exists>s. body = respJSON @ [CHR 0x0A, CHR 0x0A] @ s \<and> is_filler s))"
proof -
  let ?json = "respJSON @ [CHR 0x0A, CHR 0x0A]"
  show ?thesis
  proof (cases "respSize \<le> int (length ?json)")
    case True
    then have "writeResponse respSize respJSON g = Some (Inr (take (nat respSize) ?json))"
      using assms(2) by (simp add: writeResponse_def Let_def go_slice_to_def)
    moreover have "int (length (take (nat respSize) ?json)) = respSize"
      using True assms(2) by simp
    ultimately show ?thesis using take_is_prefix by blast
  next
    case False
    obtain s where s: "filler (nat (respSize - int (length ?json))) g = Some s"
      "length s = nat (respSize - int (length ?json))" "is_filler s"
      using filler_returns [OF assms(1)] .
    with False have "writeResponse respSize respJSON g = Some (Inr (?json @ s))"
      by (simp add: writeResponse_def Let_def)
    moreover have "int (length (?json @ s)) = respSize" using False s(2) by simp
    ultimately show ?thesis using s(3) by auto
  qed
qed

text \<open>Whenever the writer returns, the body has the size asked for.\<close>

lemma rand_lines_length: "rand_lines k g = Some (s, g') \<Longrightarrow> length s = loopUnit * k"
  by (induction k arbitrary: g s g') (auto simp: loopUnit_def dest!: randBytes_result split: option.splits)

lemma filler_length: "filler n g = Some s \<Longrightarrow> length s = n"
  by (auto simp: filler_def dest!: rand_lines_length randBytes_result split: option.splits if_splits)

lemma writeResponse_length:
  "writeResponse respSize respJSON g = Some (Inr body) \<Longrightarrow> int (length body) = respSize"
  by (auto simp: writeResponse_def Let_def go_slice_to_def dest: filler_length split: if_splits)

text \<open>C18. The writer returns, on every random source that keeps producing usable draws, and the
  body has exactly the size that was asked for and that the Content-Length header announces. It
  is the JSON text with two line breaks, cut off at that size or filled up with lines of 99
  random letters.\<close>

theorem writeResponse_body:
  assumes "fair g" and "0 \<le> respSize"
  shows "\<exists>body. writeResponse respSize respJSON g = Some (Inr body) \<and> int (length body) = respSize \<and>
    (prefix body (respJSON @ [CHR 0x0A, CHR 0x0A]) \<or>
     (\<exists>s. body = respJSON @ [CHR 0x0A, CHR 0x0A] @ s \<and> is_filler s))"
  by (rule writeResponse_ok [OF assms])

theorem writeResponse_body_witness:
  "\<exists>body. writeResponse 250 ''{}'' (\<lambda>_. 0) = Some (Inr body) \<and> length body = 250"
proof -
  have "usable 0" unfolding usable_def by (rule exI [of _ 0]) simp
  then have "fair (\<lambda>_. 0)" by (auto simp: fair_def)
  from writeResponse_body [OF this, of 250 "''{}''"] show ?thesis by auto
qed

lemma chunk_lines_eq:
  "chunk_lines k g out = map_option (\<lambda>(s, g). (out @ s, g)) (rand_lines k g)"
  by (induction k arbitrary: g out) (auto split: option.splits)

lemma writeChunkedResponse_eq:
  "writeChunkedResponse flusher respSize respJSON g =
    (if flusher then map_option Inl (writeResponse respSize respJSON g) else Some (Inr NotFlusher))"
  by (auto simp: writeChunkedResponse_def writeResponse_def filler_def chunk_lines_eq Let_def
      split: option.splits)

text \<open>The chunked writer sends the same bytes as the plain one, and fails with an error, having
  sent nothing, on a writer that cannot flush.\<close>

theorem writeChunkedResponse_same:
  "writeChunkedResponse flusher respSize respJSON g =
    (if flusher then map_option Inl (writeResponse respSize respJSON g) else Some (Inr NotFlusher))"
  by (rule writeChunkedResponse_eq)

end
