(* ===== verification/HeaderMap.thy ===== *)
theory HeaderMap
  imports Commands
begin

text \<open>
  types.go: the map of headers that requests add and delete (\<open>HeaderMap\<close>), and of package
  \<open>net/http\<close> the header operations that the response uses. Keys of the first are lower case,
  keys of the second in canonical form.
\<close>

section \<open>The header map\<close>

type_synonym header_map = "string \<rightharpoonup> string"

definition NewHeaderMap :: header_map where
  "NewHeaderMap = Map.empty"

definition hm_add :: "string \<Rightarrow> string \<Rightarrow> header_map \<Rightarrow> header_map" where
  "hm_add key value m = m(to_lower key \<mapsto> value)"

definition hm_del :: "string \<Rightarrow> header_map \<Rightarrow> header_map" where
  "hm_del key m =
     (let lkey = to_lower key in if m lkey \<noteq> None then m(lkey := None) else m)"

text \<open>The copy that \<open>getAll\<close> makes, key by key in the order of its range loop.\<close>

definition hm_getAll :: "string list \<Rightarrow> header_map \<Rightarrow> header_map" where
  "hm_getAll ks m = foldl (\<lambda>c k. case m k of None \<Rightarrow> c | Some v \<Rightarrow> c(k \<mapsto> v)) Map.empty ks"

definition lower_keys :: "header_map \<Rightarrow> bool" where
  "lower_keys m = (\<forall>k \<in> dom m. to_lower k = k)"

lemma lower_keys_ops:
  "lower_keys NewHeaderMap"
  "lower_keys m \<Longrightarrow> lower_keys (hm_add k v m)"
  "lower_keys m \<Longrightarrow> lower_keys (hm_del k m)"
  by (auto simp: lower_keys_def NewHeaderMap_def hm_add_def hm_del_def Let_def split: if_splits)

text \<open>The header map as a store of optional values, over the lower-case keys.\<close>

definition hm_put :: "string \<Rightarrow> string option \<Rightarrow> header_map \<Rightarrow> header_map" where
  "hm_put k v m = (case v of None \<Rightarrow> hm_del k m | Some s \<Rightarrow> hm_add k s m)"

lemma hm_put_apply: "hm_put k v m k' = (if k' = to_lower k then v else m k')"
  by (auto simp: hm_put_def hm_add_def hm_del_def Let_def split: option.splits)

interpretation hm: keyed_store "\<lambda>k. to_lower k = k" "\<lambda>m k. m k" hm_put
  by unfold_locales (simp add: hm_put_apply)

lemma hm_getAll_eq:
  assumes "set ks = dom m"
  shows "hm_getAll ks m = m"
proof -
  have "foldl (\<lambda>c k. case m k of None \<Rightarrow> c | Some v \<Rightarrow> c(k \<mapsto> v)) c ks k =
      (if k \<in> set ks \<and> m k \<noteq> None then m k else c k)" for c k
    by (induction ks arbitrary: c) (auto split: option.splits)
  then show ?thesis using assms by (auto simp: hm_getAll_def fun_eq_iff)
qed

text \<open>Adding and deleting headers: after any sequence of additions and deletions the map holds,
  under the lower-case form of each name and only there, the value of the last addition for it if
  no deletion of it came later. Names that differ in case only are one name.\<close>

theorem hm_history:
  "foldl (\<lambda>m (k, v). hm_put k v m) NewHeaderMap ops key =
    (if to_lower key = key
     then case filter (\<lambda>(k, v). to_lower k = key) (rev ops) of [] \<Rightarrow> None | (k, v) # _ \<Rightarrow> v
     else None)"
proof (induction ops rule: rev_induct)
  case Nil
  then show ?case by (simp add: NewHeaderMap_def)
next
  case (snoc op ops)
  then show ?case
    by (cases op) (auto simp: hm_put_apply split: list.splits)
qed

section \<open>Response headers\<close>

text \<open>The canonical form of a header name, for names of letters, digits and dashes.\<close>

fun canonical :: "bool \<Rightarrow> string \<Rightarrow> string" where
  "canonical up [] = []"
| "canonical up (c # s) =
     (if up then upper_char c else lower_char c) # canonical (c = CHR ''-'') s"

definition header_key :: "string \<Rightarrow> string" where
  "header_key k = canonical True k"

type_synonym http_header = "string \<rightharpoonup> string list"

definition header_Set :: "string \<Rightarrow> string \<Rightarrow> http_header \<Rightarrow> http_header" where
  "header_Set k v h = h(header_key k \<mapsto> [v])"

definition header_Add :: "string \<Rightarrow> string \<Rightarrow> http_header \<Rightarrow> http_header" where
  "header_Add k v h =
     h(header_key k \<mapsto> (case h (header_key k) of None \<Rightarrow> [] | Some vs \<Rightarrow> vs) @ [v])"

definition header_Del :: "string \<Rightarrow> http_header \<Rightarrow> http_header" where
  "header_Del k h = h(header_key k := None)"

lemma lower_upper_char: "lower_char (upper_char c) = lower_char c"
proof (cases "CHR ''a'' \<le> c \<and> c \<le> CHR ''z''")
  case True
  then have b: "(97::nat) \<le> of_char c" "of_char c \<le> (122::nat)"
    by (simp_all add: less_eq_char_def)
  define n where "n = (of_char c :: nat)"
  have c: "char_of n = c" by (simp add: n_def)
  have "upper_char c = char_of (n - 32)" using True by (simp add: upper_char_def n_def)
  moreover have "65 \<le> n - 32" "n - 32 \<le> 90" "n - 32 < 256" using b by (simp_all add: n_def)
  then have "lower_char (char_of (n - 32)) = char_of (n - 32 + 32)"
    by (simp add: lower_char_def less_eq_char_def)
  moreover have "lower_char c = c"
    using b by (simp add: lower_char_def less_eq_char_def)
  moreover have "n - 32 + 32 = n" using b by (simp add: n_def)
  ultimately show ?thesis using c by simp
next
  case False
  then have "upper_char c = c" unfolding upper_char_def by (rule if_not_P)
  then show ?thesis by simp
qed

lemma to_lower_canonical: "to_lower (canonical up s) = to_lower s"
  by (induction up s rule: canonical.induct) (simp_all add: to_lower_def lower_upper_char lower_char_idem)

lemma header_key_inj:
  "to_lower k = k \<Longrightarrow> to_lower k' = k' \<Longrightarrow> header_key k = header_key k' \<longleftrightarrow> k = k'"
  using to_lower_canonical unfolding header_key_def by metis

end
