(* ===== verification/Resource.thy ===== *)
theory Resource
  imports Prelude "HOL-Library.Word"
begin

text \<open>
  types.go: \<open>ResourceUsage\<close>; cpu.go and memory.go: the goroutines that follow its target.
  A target is a percentage that a request gave in one to three digits, a whole number that
  \<open>float64\<close> holds exactly, so it is an int here. A measured usage is compared with the
  target by the caller, which passes the outcome.
\<close>

section \<open>Targets\<close>

text \<open>\<open>sent\<close> is what went through the unbuffered channel to the goroutine, in order; the measured usage
  is the 64 bits of its float, and \<open>feq\<close> the comparison of floats.\<close>

record resource_usage =
  target :: int
  sent :: "int list"
  current :: "64 word"

definition NewResourceUsage :: resource_usage where
  "NewResourceUsage = \<lparr>target = 0, sent = [], current = 0\<rparr>"

definition setCurrent :: "(64 word \<Rightarrow> 64 word \<Rightarrow> bool) \<Rightarrow> 64 word \<Rightarrow> resource_usage \<Rightarrow> resource_usage" where
  "setCurrent feq value ru = (if \<not> feq (current ru) value then ru\<lparr>current := value\<rparr> else ru)"

text \<open>What a request meets at a usage: the goroutine comes to its end of the channel and takes what is
  sent; it never does, or there is none; or a caller that waits for it for ever holds the lock. When
  each is the case is the matter of the theory on the lock and the channel.\<close>

datatype load_peer = Takes | Busy | LockHeld

text \<open>The reads and writes of the target: \<open>None\<close> if the call waits for ever.\<close>

definition getTarget :: "load_peer \<Rightarrow> resource_usage \<Rightarrow> int option" where
  "getTarget peer ru = (if peer = LockHeld then None else Some (target ru))"

definition setTarget :: "bool \<Rightarrow> load_peer \<Rightarrow> int \<Rightarrow> resource_usage \<Rightarrow> resource_usage option" where
  "setTarget linux peer value ru =
     (case getTarget peer ru of
        None \<Rightarrow> None
      | Some t \<Rightarrow>
          if t \<noteq> value then
            (if linux then
               (if peer = Takes then Some (ru\<lparr>sent := sent ru @ [value], target := value\<rparr>) else None)
             else Some (ru\<lparr>target := value\<rparr>))
          else Some ru)"

section \<open>CPU load\<close>

text \<open>The goroutine's variables, and how many load controllers run.\<close>

record cpu_state =
  started :: bool
  cpuUsage :: int
  controllers :: nat

definition cpu_init :: cpu_state where
  "cpu_init = \<lparr>started = False, cpuUsage = 0, controllers = 0\<rparr>"

definition cpu_target :: "int \<Rightarrow> cpu_state \<Rightarrow> cpu_state" where
  "cpu_target newCPUUsage s =
     (let s = (if started s then
                 (if newCPUUsage = 0
                  then s\<lparr>started := False, controllers := controllers s - 1\<rparr> else s)
               else s\<lparr>started := True, controllers := controllers s + 1\<rparr>)
      in if 0 \<le> newCPUUsage \<and> newCPUUsage \<le> 100 then s\<lparr>cpuUsage := newCPUUsage\<rparr> else s)"

text \<open>The direction in which a tick changes the controller's interval: \<open>None\<close> if it is
  not running, else whether the ratio is below one (more load) or not.\<close>

definition cpu_tick :: "bool \<Rightarrow> cpu_state \<Rightarrow> bool option" where
  "cpu_tick below s = (if started s then Some below else None)"

lemma cpu_target_simps:
  "0 \<le> v \<Longrightarrow> v \<le> 100 \<Longrightarrow> cpuUsage (cpu_target v s) = v"
  "started (cpu_target v s) = (\<not> started s \<or> v \<noteq> 0)"
  by (auto simp: cpu_target_def Let_def)

text \<open>The targets that requests set, and the goroutine that gets what is sent.\<close>

text \<open>What a call that does not wait stores.\<close>

definition store_target :: "int \<Rightarrow> resource_usage \<Rightarrow> resource_usage" where
  "store_target value ru = the (setTarget True Takes value ru)"

definition run_targets :: "int list \<Rightarrow> resource_usage" where
  "run_targets vs = foldl (\<lambda>ru v. store_target v ru) NewResourceUsage vs"

definition cpu_run :: "int list \<Rightarrow> cpu_state" where
  "cpu_run vs = foldl (\<lambda>s v. cpu_target v s) cpu_init vs"

lemma store_target:
  "setTarget True Takes v ru = Some (store_target v ru)"
  "store_target v ru = (if target ru \<noteq> v then ru\<lparr>sent := sent ru @ [v], target := v\<rparr> else ru)"
  by (simp_all add: store_target_def setTarget_def getTarget_def)

lemma store_target_fields [simp]:
  "target (store_target v ru) = v"
  "sent (store_target v ru) = (if target ru = v then sent ru else sent ru @ [v])"
  by (auto simp: store_target(2))

text \<open>When a call waits for ever.\<close>

lemma setTarget_None:
  "setTarget linux peer v ru = None \<longleftrightarrow> peer = LockHeld \<or> peer = Busy \<and> linux \<and> target ru \<noteq> v"
  by (cases peer) (auto simp: setTarget_def getTarget_def)

lemma run_targets_snoc: "run_targets (vs @ [v]) = store_target v (run_targets vs)"
  by (simp add: run_targets_def)

lemma cpu_run_snoc: "cpu_run (vs @ [v]) = cpu_target v (cpu_run vs)"
  by (simp add: cpu_run_def)

text \<open>The goroutine's state agrees with a target.\<close>

definition follows :: "int \<Rightarrow> cpu_state \<Rightarrow> bool" where
  "follows t s = (cpuUsage s = t \<and> started s = (t \<noteq> 0) \<and> controllers s = (if t = 0 then 0 else 1))"

lemma follows_step:
  "follows t s \<Longrightarrow> v \<noteq> t \<Longrightarrow> 0 \<le> v \<Longrightarrow> v \<le> 100 \<Longrightarrow> follows v (cpu_target v s)"
  by (auto simp: follows_def cpu_target_def Let_def)

lemma cpu_run_targets:
  "list_all (\<lambda>v. 0 \<le> v \<and> v \<le> 100) vs \<Longrightarrow>
   follows (target (run_targets vs)) (cpu_run (sent (run_targets vs)))"
proof (induction vs rule: rev_induct)
  case Nil
  then show ?case
    by (simp add: run_targets_def cpu_run_def NewResourceUsage_def cpu_init_def follows_def)
next
  case (snoc v vs)
  then have v: "0 \<le> v" "v \<le> 100" and ih: "follows (target (run_targets vs)) (cpu_run (sent (run_targets vs)))"
    by simp_all
  show ?case
  proof (cases "target (run_targets vs) = v")
    case True
    with ih show ?thesis by (simp add: run_targets_snoc)
  next
    case False
    with follows_step [OF ih _ v] show ?thesis by (simp add: run_targets_snoc cpu_run_snoc)
  qed
qed

text \<open>However requests change the CPU target, the goroutine that makes load follows it: it
  works towards the current target, exactly one load controller runs while the target is not zero,
  and none runs while it is. Sending only changed targets is what makes this so.\<close>

theorem cpu_follows_target:
  assumes "list_all (\<lambda>v. 0 \<le> v \<and> v \<le> 100) vs"
  shows "let ru = run_targets vs; s = cpu_run (sent ru) in
    cpuUsage s = target ru \<and> controllers s = (if target ru = 0 then 0 else 1) \<and>
    (cpu_tick below s = None \<longleftrightarrow> target ru = 0)"
  using cpu_run_targets [OF assms] by (simp add: Let_def cpu_tick_def follows_def)

theorem cpu_follows_target_witness:
  "controllers (cpu_run (sent (run_targets [50, 50, 0, 0, 30]))) = 1"
  using cpu_follows_target [of "[50, 50, 0, 0, 30]"]
  by (simp add: Let_def run_targets_def NewResourceUsage_def)

section \<open>Memory load\<close>

definition alloc_str :: string where
  "alloc_str = ''1234567890abcdefghijklmnopqrstuvwxyzABCDEFGHIJKLMNOPQRSTUVWXYZ%#''"

fun alloc_loop :: "nat \<Rightarrow> string \<Rightarrow> string" where
  "alloc_loop 0 buf = buf"
| "alloc_loop (Suc n) buf = alloc_loop n (buf @ alloc_str)"

definition allocMemory :: "nat \<Rightarrow> string" where
  "allocMemory n = alloc_loop (n div length alloc_str) []"

record memory_state =
  allocData :: "string list"
  memoryUsage :: int

definition memory_init :: memory_state where
  "memory_init = \<lparr>allocData = [], memoryUsage = 0\<rparr>"

text \<open>One tick of \<open>memoryAllocate\<close>: \<open>below\<close> is whether the measured usage is below
  the target.\<close>

definition memory_tick :: "nat \<Rightarrow> bool \<Rightarrow> memory_state \<Rightarrow> memory_state" where
  "memory_tick allocUnit below s =
     (if below then s\<lparr>allocData := allocData s @ [allocMemory allocUnit]\<rparr>
      else if length (allocData s) \<noteq> 0 then s\<lparr>allocData := tl (allocData s)\<rparr>
      else s)"

definition memory_target :: "int \<Rightarrow> memory_state \<Rightarrow> memory_state" where
  "memory_target newMemoryUsage s =
     (if 0 \<le> newMemoryUsage \<and> newMemoryUsage \<le> 100 then s\<lparr>memoryUsage := newMemoryUsage\<rparr> else s)"

lemma length_alloc_str [simp]: "length alloc_str = 64"
  by (simp add: alloc_str_def)

lemma length_alloc_loop: "length (alloc_loop n buf) = length buf + 64 * n"
  by (induction n arbitrary: buf) auto

lemma length_allocMemory: "length (allocMemory n) = 64 * (n div 64)"
  by (simp add: allocMemory_def length_alloc_loop)

text \<open>How many blocks are held after the ticks: up on each tick below the target, down otherwise,
  never below none.\<close>

fun blocks :: "bool list \<Rightarrow> nat \<Rightarrow> nat" where
  "blocks [] n = n"
| "blocks (b # bs) n = blocks bs (if b then n + 1 else n - 1)"

lemma memory_ticks_blocks:
  "list_all (\<lambda>d. d = allocMemory u) (allocData s) \<Longrightarrow>
   allocData (foldl (\<lambda>s b. memory_tick u b s) s bs) =
     replicate (blocks bs (length (allocData s))) (allocMemory u)"
proof (induction bs arbitrary: s)
  case Nil
  then show ?case by (simp add: list_all_iff replicate_length_same)
next
  case (Cons b bs)
  have "list_all (\<lambda>d. d = allocMemory u) (allocData (memory_tick u b s))"
    using Cons.prems by (cases "allocData s") (auto simp: memory_tick_def)
  from Cons.IH [OF this] show ?case
    by (auto simp: memory_tick_def)
qed

text \<open>The memory held by the allocating goroutine: after any sequence of ticks it is as many
  blocks as the ticks below the target exceed the others, counted from none and never negative,
  and every block has the size of a hundredth of the memory, rounded down to whole lines of 64
  bytes.\<close>

theorem memory_held:
  "sum_list (map length (allocData (foldl (\<lambda>s b. memory_tick u b s) memory_init bs))) =
    blocks bs 0 * (u - u mod 64)"
  by (simp add: memory_ticks_blocks memory_init_def sum_list_replicate length_allocMemory
      minus_mod_eq_mult_div)

end
