(* ===== verification/HttpAction.thy ===== *)
theory HttpAction
  imports Evaluate Conns Response HeaderMap Resource
begin

text \<open>
  main.go: \<open>defaultHandler\<close> and \<open>execAction\<close>, what a request to the default
  route does. The state is the server's (connections, headers, resource targets, own node) with what
  was printed and how long was slept; the response is what the handler hands to
  \<open>net/http\<close>.

  \<open>respJSON\<close> is the text of the response information, which the handler passes in.
  Parameters: \<open>envConns\<close> and \<open>envHeaders\<close> are the orders in which the range loops visit
  the connection table and the header map, \<open>g\<close> and \<open>src\<close> are random sources.
\<close>

section \<open>State and response\<close>

record server =
  net :: net_state
  headerMap :: header_map
  cpuRes :: resource_usage
  memRes :: resource_usage
  node :: node_info
  stdoutText :: string
  stderrText :: string
  slept :: "int list"

record response =
  respHeader :: http_header
  respStatus :: int
  respBody :: string

text \<open>The variables of \<open>execAction\<close> while it runs.\<close>

record action_vars =
  srv :: server
  wHeader :: http_header
  statusCode :: int
  respSize :: int
  chunkFlag :: bool

definition has_action :: "commands \<Rightarrow> string \<Rightarrow> bool" where
  "has_action cmds key = (key \<in> set (actions cmds))"

text \<open>\<open>strconv.ParseFloat\<close> on a validated percentage.\<close>

definition parse_percent :: "string \<Rightarrow> int" where
  "parse_percent s = (if digits s then dec_val s else 0)"

text \<open>A duration of that many milliseconds, in nanoseconds.\<close>

definition millis :: "int \<Rightarrow> int" where
  "millis n = wrap64 (n * 1000000)"

text \<open>Who takes what the handler writes: the HTTP/1 or the HTTP/2 server of \<open>net/http\<close>, or the recorder
  of a Lambda event.\<close>

datatype writer = Http1 | Http2 | Recorder

text \<open>The facts of the request that \<open>execAction\<close> reads, what it meets at the targets of the load, and
  whether the writer sends the answer to a HEAD request.\<close>

record exec_env =
  envLinux :: bool
  envNow :: int64
  envConns :: "string list"
  envHeaders :: "string list"
  envFlusher :: bool
  envHTTP11 :: bool
  envRemote :: string
  envProto :: string
  envWriter :: writer
  envHead :: bool
  envCpuLoad :: load_peer
  envMemLoad :: load_peer

section \<open>The actions one by one\<close>

definition act_sleep :: "commands \<Rightarrow> commands \<Rightarrow> server \<Rightarrow> server" where
  "act_sleep input result s =
     (if has_action input ''sleep''
      then s\<lparr>slept := slept s @ [millis (fst (atoi (getValue result ''sleep'')))]\<rparr> else s)"

definition act_status :: "commands \<Rightarrow> commands \<Rightarrow> action_vars \<Rightarrow> action_vars" where
  "act_status input result v =
     (if has_action input ''status''
      then v\<lparr>statusCode := fst (atoi (getValue result ''status''))\<rparr> else v)"

definition act_cpu :: "exec_env \<Rightarrow> commands \<Rightarrow> commands \<Rightarrow> server \<Rightarrow> server option" where
  "act_cpu env input result s =
     (if has_action input ''cpu'' then
        map_option (\<lambda>ru. s\<lparr>cpuRes := ru\<rparr>)
          (setTarget (envLinux env) (envCpuLoad env) (parse_percent (getValue result ''cpu'')) (cpuRes s))
      else Some s)"

definition act_memory :: "exec_env \<Rightarrow> commands \<Rightarrow> commands \<Rightarrow> server \<Rightarrow> server option" where
  "act_memory env input result s =
     (if has_action input ''memory'' then
        map_option (\<lambda>ru. s\<lparr>memRes := ru\<rparr>)
          (setTarget (envLinux env) (envMemLoad env) (parse_percent (getValue result ''memory'')) (memRes s))
      else Some s)"

text \<open>The two together: a call that waits for ever is \<open>None\<close>.\<close>

definition act_load :: "exec_env \<Rightarrow> commands \<Rightarrow> commands \<Rightarrow> server \<Rightarrow> server res option" where
  "act_load env input result s =
     (case act_cpu env input result s of
        None \<Rightarrow> None | Some s \<Rightarrow> map_option Inr (act_memory env input result s))"

text \<open>The reads of the two targets for a response: each waits while the lock is held.\<close>

definition read_load :: "exec_env \<Rightarrow> server \<Rightarrow> (int \<times> int) res option" where
  "read_load env s =
     (case getTarget (envCpuLoad env) (cpuRes s) of
        None \<Rightarrow> None
      | Some c \<Rightarrow> map_option (\<lambda>m. Inr (c, m)) (getTarget (envMemLoad env) (memRes s)))"

lemma read_load_Some:
  "read_load env s = Some x \<longleftrightarrow>
     envCpuLoad env \<noteq> LockHeld \<and> envMemLoad env \<noteq> LockHeld \<and> x = Inr (target (cpuRes s), target (memRes s))"
  by (auto simp: read_load_def getTarget_def)

lemma read_load_None: "read_load env s = None \<longleftrightarrow> envCpuLoad env = LockHeld \<or> envMemLoad env = LockHeld"
  by (auto simp: read_load_def getTarget_def)

definition act_size :: "commands \<Rightarrow> commands \<Rightarrow> action_vars \<Rightarrow> action_vars" where
  "act_size input result v =
     (if has_action input ''size'' then
        (let n = fst (atoi (getValue result ''size''))
         in v\<lparr>respSize := n, wHeader := header_Set ''Content-Length'' (itoa n) (wHeader v)\<rparr>)
      else v)"

text \<open>\<open>addheader\<close> splits the value at its first colon; without one, the index panics.\<close>

definition add_to_map :: "string \<Rightarrow> header_map \<Rightarrow> header_map res" where
  "add_to_map value m =
     (let parts = split2 CHR '':'' value in
      res_bind (go_index parts 0) (\<lambda>k.
      res_bind (go_index parts 1) (\<lambda>v. Inr (hm_add k v m))))"

definition act_addheader :: "commands \<Rightarrow> commands \<Rightarrow> server \<Rightarrow> server res" where
  "act_addheader input result s =
     (if has_action input ''addheader''
      then res_bind (add_to_map (getValue result ''addheader'') (headerMap s))
             (\<lambda>m. Inr (s\<lparr>headerMap := m\<rparr>))
      else Inr s)"

definition act_delheader :: "commands \<Rightarrow> commands \<Rightarrow> server \<Rightarrow> server" where
  "act_delheader input result s =
     (if has_action input ''delheader''
      then s\<lparr>headerMap := hm_del (getValue result ''delheader'') (headerMap s)\<rparr> else s)"

definition act_chunk :: "commands \<Rightarrow> action_vars \<Rightarrow> action_vars" where
  "act_chunk input v =
     (if has_action input ''chunk''
      then v\<lparr>chunkFlag := True, wHeader := header_Del ''Content-Length'' (wHeader v)\<rparr> else v)"

definition act_print :: "commands \<Rightarrow> commands \<Rightarrow> server \<Rightarrow> server" where
  "act_print input result s =
     (let s = (if has_action input ''stdout''
               then s\<lparr>stdoutText := stdoutText s @ getValue result ''stdout'' @ [CHR 0x0A]\<rparr> else s)
      in if has_action input ''stderr''
         then s\<lparr>stderrText := stderrText s @ getValue result ''stderr'' @ [CHR 0x0A]\<rparr> else s)"

text \<open>All of them in the order of the source, up to the disconnect; \<open>None\<close> if a target's call waits for
  ever.\<close>

definition run_actions :: "exec_env \<Rightarrow> commands \<Rightarrow> commands \<Rightarrow> action_vars \<Rightarrow> action_vars res option" where
  "run_actions env input result v =
     (let v = v\<lparr>srv := act_sleep input result (srv v)\<rparr>;
          v = act_status input result v
      in ro_bind (act_load env input result (srv v)) (\<lambda>s.
         let v = act_size input result (v\<lparr>srv := s\<rparr>)
         in Some (res_bind (act_addheader input result (srv v)) (\<lambda>s.
              let v = v\<lparr>srv := act_delheader input result s\<rparr>;
                  v = act_chunk input v
              in Inr (v\<lparr>srv := act_print input result (srv v)\<rparr>)))))"

section \<open>Writing the response\<close>

text \<open>\<open>WriteHeader\<close> of \<open>net/http\<close> panics on a status outside 100 to 999; the recorder keeps any.\<close>

definition checkStatus :: "writer \<Rightarrow> int \<Rightarrow> unit res" where
  "checkStatus w code = (if w \<noteq> Recorder \<and> (code < 100 \<or> 999 < code) then Inl InvalidStatus else Inr ())"

text \<open>A status below 200 is sent by \<open>net/http\<close> as an interim response and a status 200 follows with the
  body; over HTTP/1 all but 101, which is final.\<close>

definition interim :: "writer \<Rightarrow> int \<Rightarrow> bool" where
  "interim w code = (w \<noteq> Recorder \<and> 100 \<le> code \<and> code \<le> 199 \<and> (w = Http1 \<longrightarrow> code \<noteq> 101))"

definition sent_status :: "writer \<Rightarrow> int \<Rightarrow> int" where
  "sent_status w code = (if interim w code then 200 else code)"

text \<open>Whether the body reaches the client: a status without a body makes \<open>Write\<close> fail, which is only
  printed, and for HEAD what is written is dropped. The recorder keeps it always.\<close>

definition status_body :: "int \<Rightarrow> bool" where
  "status_body code = (code \<noteq> 204 \<and> code \<noteq> 304 \<and> \<not> (100 \<le> code \<and> code \<le> 199))"

definition takes_body :: "exec_env \<Rightarrow> int \<Rightarrow> bool" where
  "takes_body env code = (envWriter env = Recorder \<or> \<not> envHead env \<and> status_body (sent_status (envWriter env) code))"

definition add_headers :: "string list \<Rightarrow> header_map \<Rightarrow> http_header \<Rightarrow> http_header" where
  "add_headers hs m h =
     foldl (\<lambda>h k. case m k of None \<Rightarrow> h | Some v \<Rightarrow> header_Add k v h) h hs"

text \<open>The rest of \<open>execAction\<close>: \<open>None\<close> if the writer does not return. The response is what the client
  gets, the size and the status behind it what the function returns. An error of the writers is only
  printed.\<close>

definition write_out ::
  "exec_env \<Rightarrow> string \<Rightarrow> source \<Rightarrow> action_vars \<Rightarrow> (response \<times> int \<times> int \<times> server) res option" where
  "write_out env respJSON src v =
     (let hdr = add_headers (envHeaders env) (headerMap (srv v)) (wHeader v) in
      case checkStatus (envWriter env) (statusCode v) of
        Inl p \<Rightarrow> Some (Inl p)
      | Inr _ \<Rightarrow>
          map_option
            (\<lambda>body. res_bind body (\<lambda>b. Inr
               (\<lparr>respHeader = hdr, respStatus = sent_status (envWriter env) (statusCode v),
                 respBody = (if takes_body env (statusCode v) then b else [])\<rparr>,
                respSize v, statusCode v, srv v)))
            (if chunkFlag v \<and> envHTTP11 env
             then map_option (\<lambda>r. case r of Inl b \<Rightarrow> b | Inr NotFlusher \<Rightarrow> Inr [])
                    (writeChunkedResponse (envFlusher env) (respSize v) respJSON src)
             else writeResponse (respSize v) respJSON src))"

definition no_response :: response where
  "no_response = \<lparr>respHeader = Map.empty, respStatus = 0, respBody = []\<rparr>"

definition execAction ::
  "exec_env \<Rightarrow> string \<Rightarrow> source \<Rightarrow> commands \<Rightarrow> commands \<Rightarrow> server \<Rightarrow> (response \<times> int \<times> int \<times> server) res option" where
  "execAction env respJSON src input result s =
     (let n = int (length respJSON);
          hdr = header_Set ''Content-Length'' (itoa n) (header_Set ''Content-Type'' ''application/json'' Map.empty);
          v = \<lparr>srv = s, wHeader = hdr, statusCode = 200, respSize = n, chunkFlag = False\<rparr>
      in if needsAction input then
           ro_bind (run_actions env input result v) (\<lambda>v.
             if has_action input ''disconnect'' then
               Some (res_bind
                 (disconnect (envNow env) (envConns env) (envRemote env) (envProto env)
                    (getValue result ''disconnect'' = ''rst'') (net (srv v)))
                 (\<lambda>w. Inr (no_response, 0, 0, (srv v)\<lparr>net := w\<rparr>)))
             else write_out env respJSON src v)
         else write_out env respJSON src v)"

section \<open>Values of validated actions\<close>

lemma ranged_value:
  assumes "ranged_key k" and "rx_match regexpNumRange (getValue c k)"
    and "getActionValue c k g = Inr (v, g')"
  shows "0 \<le> fst (atoi v) \<and> fst (atoi v) \<le> max_int64"
proof (cases "digits (getValue c k)")
  case True
  with assms(3) getActionValue_single [OF assms(1) True] show ?thesis
    using sat_val_range [OF True] by (simp add: atoi_sat)
next
  case False
  with assms(2) obtain a b where ab: "getValue c k = a @ ''-'' @ b" "digits a" "digits b"
    by (auto simp: match_num_range_digits)
  let ?x = "range_lo a b + int (g 0) mod (range_hi a b - range_lo a b + 1)"
  have r: "0 \<le> range_lo a b" "range_lo a b \<le> range_hi a b" "range_hi a b \<le> max_int64"
    using ab(2,3) [THEN sat_val_range] by (auto simp: range_lo_def range_hi_def)
  then have "0 \<le> int (g 0) mod (range_hi a b - range_lo a b + 1)"
    "int (g 0) mod (range_hi a b - range_lo a b + 1) < range_hi a b - range_lo a b + 1"
    by (intro pos_mod_sign pos_mod_bound; linarith)+
  with r have x: "0 \<le> ?x" "?x \<le> max_int64" by linarith+
  have "v = itoa ?x"
    using assms(3) getActionValue_two [OF assms(1) ab, of g] by (simp split: if_splits)
  then show ?thesis using x atoi_itoa_nonneg [OF x] by simp
qed

lemma status_value:
  assumes "rx_match regexpStatus s"
  shows "100 \<le> fst (atoi s) \<and> fst (atoi s) \<le> 999"
proof -
  obtain a b c where s: "s = [a, b, c]" "CHR ''1'' \<le> a" "a \<le> CHR ''9''" "is_digit b" "is_digit c"
    using assms by (auto simp: match_status)
  then have "49 \<le> (of_char a :: nat)" "(of_char a :: nat) \<le> 57"
    by (simp_all add: less_eq_char_def)
  then have a: "is_digit a" "1 \<le> digit_val a"
    by (simp_all add: is_digit_code digit_val_def)
  have "dec_val s = 100 * digit_val a + 10 * digit_val b + digit_val c"
    by (simp add: s(1) dec_val_def)
  then have "100 \<le> dec_val s" "dec_val s \<le> 999"
    using a digit_val_range [OF a(1)] digit_val_range [OF s(4)] digit_val_range [OF s(5)] by linarith+
  moreover have "fst (atoi s) = min (dec_val s) max_int64"
    by (rule fst_atoi_digits) (use s a in simp_all)
  ultimately show ?thesis by (simp add: max_int64_def)
qed

lemma add_to_map_header:
  assumes "rx_match regexpHeader v"
  obtains n s where "v = n @ '': '' @ s" and "add_to_map v m = Inr (hm_add n (CHR '' '' # s) m)"
proof -
  obtain n s where v: "v = n @ '': '' @ s" "list_all (in_cls header_cls) n"
    using assms by (auto simp: match_header)
  have "\<not> in_cls header_cls CHR '':''" by (simp add: in_cls_def header_cls_def)
  then have "CHR '':'' \<notin> set n" using v(2) by (auto simp: list_all_iff)
  then have "split2 CHR '':'' v = [n, CHR '' '' # s]"
    using split2_append [of "CHR '':''" n "CHR '' '' # s"] v(1) by simp
  then have "add_to_map v m = Inr (hm_add n (CHR '' '' # s) m)"
    by (simp add: add_to_map_def go_index_def)
  with v(1) show thesis by (rule that)
qed

text \<open>A store whose HTTP validator knows no more than the one built at the start: that one, whatever
  the host is known as, and the one without the resource commands.\<close>

definition http_store :: "data_store \<Rightarrow> bool" where
  "http_store st = (store_ok st \<and> vHttp st \<subseteq>\<^sub>m validatorForHttp)"

lemma http_store_NewDataStore [simp]:
  "http_store NewDataStore" "http_store (NewDataStore\<lparr>host := h\<rparr>)"
  using store_ok_NewDataStore by (simp_all add: http_store_def NewDataStore_def store_ok_def)

text \<open>A request over HTTP that was validated and evaluated.\<close>

definition evaluated :: "request_info \<Rightarrow> commands \<Rightarrow> commands \<Rightarrow> bool" where
  "evaluated rq input result =
     (\<not> prefix ''grpc'' (reqProto rq) \<and>
      (\<exists>st m g g'. http_store st \<and> wf_map m \<and> input = validateCommands st rq m \<and>
         evaluate input g = Inr (result, g')))"

lemma evaluated_action:
  assumes "evaluated rq input result" and "has_action input k"
  shows "\<exists>re g g'. validatorForHttp k = Some re \<and> rx_match re (cmd_field input k) \<and>
    getActionValue input k g = Inr (cmd_field result k, g')"
proof -
  obtain st m g g' where st: "store_ok st" "vHttp st \<subseteq>\<^sub>m validatorForHttp"
    and m: "wf_map m" "input = validateCommands st rq m"
    "evaluate input g = Inr (result, g')" and p: "\<not> prefix ''grpc'' (reqProto rq)"
    using assms(1) by (auto simp: evaluated_def http_store_def)
  have k: "k \<in> set (actions input)" using assms(2) by (simp add: has_action_def)
  then have "actions input \<noteq> []" by auto
  from evaluate_fields [OF st(1) m(1,2) this m(3)] k
  have "\<exists>g1 g2. getActionValue input k g1 = Inr (cmd_field result k, g2)" by blast
  moreover have "\<exists>re. pick_validator st rq k = Some re \<and> rx_match re (cmd_field input k)"
    using validated_action [OF st(1) m(1,2) k] by blast
  moreover have "pick_validator st rq k = Some re \<Longrightarrow> validatorForHttp k = Some re" for re
    using p st(2) by (force simp: pick_validator_def map_le_def)
  ultimately show ?thesis by blast
qed

lemma evaluated_values:
  assumes "evaluated rq input result"
  shows "has_action input ''size'' \<Longrightarrow> 0 \<le> fst (atoi (getValue result ''size''))"
    and "has_action input ''sleep'' \<Longrightarrow>
      0 \<le> fst (atoi (getValue result ''sleep'')) \<and> fst (atoi (getValue result ''sleep'')) \<le> max_int64"
    and "has_action input ''status'' \<Longrightarrow>
      100 \<le> fst (atoi (getValue result ''status'')) \<and> fst (atoi (getValue result ''status'')) \<le> 999"
    and "has_action input ''addheader'' \<Longrightarrow> rx_match regexpHeader (getValue result ''addheader'')"
proof -
  have ranged: "0 \<le> fst (atoi (getValue result k)) \<and> fst (atoi (getValue result k)) \<le> max_int64"
    if a: "has_action input k" and k: "k = ''size'' \<or> k = ''sleep''" for k
  proof -
    obtain re g g' where re: "validatorForHttp k = Some re" "rx_match re (cmd_field input k)"
      and v: "getActionValue input k g = Inr (cmd_field result k, g')"
      using evaluated_action [OF assms a] by auto
    have rk: "ranged_key k" using k by (auto simp: ranged_key_def)
    have "re = regexpNumRange" using validators_ranged(1) [OF rk] re(1) by simp
    then have "rx_match regexpNumRange (getValue input k)" using re(2) getValue_field [OF rk] by simp
    from ranged_value [OF rk this v] show ?thesis using getValue_field [OF rk] by simp
  qed
  show "0 \<le> fst (atoi (getValue result ''size''))" if "has_action input ''size''"
    using ranged [OF that] by simp
  show "0 \<le> fst (atoi (getValue result ''sleep'')) \<and> fst (atoi (getValue result ''sleep'')) \<le> max_int64"
    if "has_action input ''sleep''"
    using ranged [OF that] by blast
  have plain: "rx_match re (getValue result k)"
    if "has_action input k" "validatorForHttp k = Some re" "\<not> ranged_key k" "k \<noteq> ''chunk''"
      "\<And>c. getValue c k = cmd_field c k" for k re
    using evaluated_action [OF assms that(1)] that(2-5) by (auto simp: getActionValue_def)
  show "100 \<le> fst (atoi (getValue result ''status'')) \<and> fst (atoi (getValue result ''status'')) \<le> 999"
    if "has_action input ''status''"
    by (rule status_value [OF plain [OF that]]) (simp_all add: validatorForHttp_def ranged_key_def)
  show "rx_match regexpHeader (getValue result ''addheader'')" if "has_action input ''addheader''"
    by (rule plain [OF that]) (simp_all add: validatorForHttp_def ranged_key_def)
qed

section \<open>The response\<close>

lemma header_key_lits [simp]:
  "header_key ''Content-Length'' = ''Content-Length''"
  "header_key ''content-length'' = ''Content-Length''"
  "header_key ''Content-Type'' = ''Content-Type''"
  by code_simp+

lemma to_lower_content_length [simp]: "to_lower ''content-length'' = ''content-length''"
  by code_simp

lemma add_headers_other:
  "\<forall>k \<in> set hs. m k \<noteq> None \<longrightarrow> header_key k \<noteq> K \<Longrightarrow> add_headers hs m h K = h K"
  unfolding add_headers_def
  by (induction hs arbitrary: h) (auto simp: header_Add_def split: option.splits)

lemma add_headers_content_length:
  assumes "lower_keys m" and "m ''content-length'' = None"
  shows "add_headers hs m h ''Content-Length'' = h ''Content-Length''"
proof (intro add_headers_other ballI impI)
  fix k assume "m k \<noteq> None"
  then have "to_lower k = k" "k \<noteq> ''content-length''"
    using assms by (auto simp: lower_keys_def)
  then show "header_key k \<noteq> ''Content-Length''"
    using header_key_inj [of k "''content-length''"] by simp
qed

text \<open>What the variables satisfy before and after the actions.\<close>

definition vars_ok :: "bool \<Rightarrow> action_vars \<Rightarrow> bool" where
  "vars_ok chunk v =
     (100 \<le> statusCode v \<and> statusCode v \<le> 999 \<and> 0 \<le> respSize v \<and> lower_keys (headerMap (srv v)) \<and>
      (\<not> chunk \<longrightarrow> wHeader v ''Content-Length'' = Some [itoa (respSize v)]))"

text \<open>What the actions on the load leave alone, and when they do not wait.\<close>

definition load_free :: "exec_env \<Rightarrow> commands \<Rightarrow> bool" where
  "load_free env input =
     ((has_action input ''cpu'' \<longrightarrow> envCpuLoad env = Takes) \<and>
      (has_action input ''memory'' \<longrightarrow> envMemLoad env = Takes))"

lemma act_load_frame:
  assumes "act_load env input result s = Some (Inr s')"
  shows "headerMap s' = headerMap s" and "net s' = net s" and "node s' = node s"
    and "\<not> has_action input ''cpu'' \<Longrightarrow> cpuRes s' = cpuRes s"
    and "\<not> has_action input ''memory'' \<Longrightarrow> memRes s' = memRes s"
  using assms by (auto simp: act_load_def act_cpu_def act_memory_def split: option.splits if_splits)

lemma act_load_not_panics: "act_load env input result s \<noteq> Some (Inl p)"
  by (auto simp: act_load_def split: option.splits)

lemma act_load_free:
  assumes "load_free env input"
  obtains s' where "act_load env input result s = Some (Inr s')"
  using assms setTarget_None
  by (fastforce simp: act_load_def act_cpu_def act_memory_def load_free_def split: option.splits if_splits)

lemma run_actions_ok:
  assumes "evaluated rq input result" and "vars_ok (has_action input ''chunk'') v" and "load_free env input"
  shows "\<exists>v'. run_actions env input result v = Some (Inr v') \<and> vars_ok (has_action input ''chunk'') v' \<and>
    chunkFlag v' = (chunkFlag v \<or> has_action input ''chunk'')"
proof -
  define v0 where "v0 = act_status input result (v\<lparr>srv := act_sleep input result (srv v)\<rparr>)"
  obtain s0 where s0: "act_load env input result (srv v0) = Some (Inr s0)"
    by (rule act_load_free [OF assms(3)])
  have hm: "headerMap s0 = headerMap (srv v)"
    using act_load_frame(1) [OF s0] by (simp add: v0_def act_status_def act_sleep_def)
  define v1 where "v1 = act_size input result (v0\<lparr>srv := s0\<rparr>)"
  have v1: "vars_ok (has_action input ''chunk'') v1" "srv v1 = s0" "chunkFlag v1 = chunkFlag v"
    using assms(2) evaluated_values(1,3) [OF assms(1)] hm
    by (auto simp: v1_def v0_def vars_ok_def act_size_def act_status_def Let_def header_Set_def)
  obtain m where m: "act_addheader input result s0 = Inr (s0\<lparr>headerMap := m\<rparr>)" "lower_keys m"
  proof (cases "has_action input ''addheader''")
    case True
    then obtain n x where "add_to_map (getValue result ''addheader'') (headerMap s0) = Inr (hm_add n x (headerMap s0))"
      using evaluated_values(4) [OF assms(1)] add_to_map_header by metis
    with True that show thesis
      using assms(2) hm by (auto simp: act_addheader_def vars_ok_def intro: lower_keys_ops)
  next
    case False
    with that [of "headerMap s0"] show thesis
      using assms(2) hm by (simp add: act_addheader_def vars_ok_def)
  qed
  define v2 where "v2 = act_chunk input (v1\<lparr>srv := act_delheader input result (s0\<lparr>headerMap := m\<rparr>)\<rparr>)"
  have "run_actions env input result v = Some (Inr (v2\<lparr>srv := act_print input result (srv v2)\<rparr>))"
    using m(1) s0 v1(2) unfolding run_actions_def Let_def v2_def v1_def v0_def by simp
  moreover have "lower_keys (headerMap (act_print input result (srv v2)))"
    using m(2) lower_keys_ops(3)
    by (auto simp: v2_def act_chunk_def act_print_def act_delheader_def Let_def)
  ultimately show ?thesis
    using v1 by (auto simp: vars_ok_def v2_def act_chunk_def header_Del_def)
qed

lemma write_out_ok:
  assumes "fair src" and "envFlusher env" and "100 \<le> statusCode v" "statusCode v \<le> 999" and "0 \<le> respSize v"
  shows "\<exists>body. write_out env respJSON src v =
      Some (Inr (\<lparr>respHeader = add_headers (envHeaders env) (headerMap (srv v)) (wHeader v),
        respStatus = sent_status (envWriter env) (statusCode v),
        respBody = (if takes_body env (statusCode v) then body else [])\<rparr>, respSize v, statusCode v, srv v)) \<and>
    int (length body) = respSize v \<and> writeResponse (respSize v) respJSON src = Some (Inr body)"
  using writeResponse_ok [OF assms(1,5), of respJSON] assms(2-4)
  by (auto simp: write_out_def checkStatus_def writeChunkedResponse_eq)

text \<open>The variables that \<open>execAction\<close> starts with.\<close>

definition start_vars :: "string \<Rightarrow> server \<Rightarrow> action_vars" where
  "start_vars respJSON s =
     \<lparr>srv = s, wHeader = header_Set ''Content-Length'' (itoa (int (length respJSON)))
        (header_Set ''Content-Type'' ''application/json'' Map.empty),
      statusCode = 200, respSize = int (length respJSON), chunkFlag = False\<rparr>"

lemma start_vars_ok: "lower_keys (headerMap s) \<Longrightarrow> vars_ok c (start_vars respJSON s)"
  by (simp add: vars_ok_def start_vars_def header_Set_def)

lemma execAction_cases:
  "execAction env respJSON src input result s =
     (if needsAction input then
        ro_bind (run_actions env input result (start_vars respJSON s)) (\<lambda>v.
          if has_action input ''disconnect'' then
            Some (res_bind
              (disconnect (envNow env) (envConns env) (envRemote env) (envProto env)
                 (getValue result ''disconnect'' = ''rst'') (net (srv v)))
              (\<lambda>w. Inr (no_response, 0, 0, (srv v)\<lparr>net := w\<rparr>)))
          else write_out env respJSON src v)
      else write_out env respJSON src (start_vars respJSON s))"
  by (simp add: execAction_def Let_def start_vars_def)

text \<open>What the client gets of an answer that the handler gives with a status and a size.\<close>

definition answered :: "exec_env \<Rightarrow> response \<Rightarrow> int \<Rightarrow> int \<Rightarrow> bool" where
  "answered env resp sz code =
     (100 \<le> code \<and> code \<le> 999 \<and> respStatus resp = sent_status (envWriter env) code \<and>
      int (length (respBody resp)) = (if takes_body env code then sz else 0))"

lemma write_out_answered:
  assumes "fair src" and "envFlusher env" and "vars_ok c v"
  shows "\<exists>resp. write_out env respJSON src v = Some (Inr (resp, respSize v, statusCode v, srv v)) \<and>
    answered env resp (respSize v) (statusCode v) \<and>
    respHeader resp = add_headers (envHeaders env) (headerMap (srv v)) (wHeader v)"
proof -
  have v: "100 \<le> statusCode v" "statusCode v \<le> 999" "0 \<le> respSize v" using assms(3) by (simp_all add: vars_ok_def)
  from write_out_ok [OF assms(1,2) v, of respJSON] obtain body where
    b: "write_out env respJSON src v =
      Some (Inr (\<lparr>respHeader = add_headers (envHeaders env) (headerMap (srv v)) (wHeader v),
        respStatus = sent_status (envWriter env) (statusCode v),
        respBody = (if takes_body env (statusCode v) then body else [])\<rparr>, respSize v, statusCode v, srv v))"
    and n: "int (length body) = respSize v"
    by blast
  show ?thesis unfolding b using v n by (simp add: answered_def)
qed

lemma execAction_ok:
  assumes "evaluated rq input result" and "lower_keys (headerMap s)" and "fair src" and "envFlusher env"
    and "load_free env input" and "has_action input ''disconnect'' \<Longrightarrow> \<not> needsAction input"
  shows "\<exists>resp size code s'. execAction env respJSON src input result s = Some (Inr (resp, size, code, s')) \<and>
    answered env resp size code \<and> 0 \<le> size \<and> lower_keys (headerMap s') \<and>
    (\<not> has_action input ''chunk'' \<and> headerMap s' ''content-length'' = None \<longrightarrow>
       respHeader resp ''Content-Length'' = Some [itoa size])"
proof -
  have written: ?thesis if v: "vars_ok (has_action input ''chunk'') v"
    and e: "execAction env respJSON src input result s = write_out env respJSON src v" for v
  proof -
    obtain resp where r: "write_out env respJSON src v = Some (Inr (resp, respSize v, statusCode v, srv v))"
      "answered env resp (respSize v) (statusCode v)"
      "respHeader resp = add_headers (envHeaders env) (headerMap (srv v)) (wHeader v)"
      using write_out_answered [OF assms(3,4) v] by blast
    have l: "lower_keys (headerMap (srv v))" "0 \<le> respSize v"
      and "\<not> has_action input ''chunk'' \<Longrightarrow> wHeader v ''Content-Length'' = Some [itoa (respSize v)]"
      using v by (simp_all add: vars_ok_def)
    then have "\<not> has_action input ''chunk'' \<and> headerMap (srv v) ''content-length'' = None \<longrightarrow>
        respHeader resp ''Content-Length'' = Some [itoa (respSize v)]"
      using add_headers_content_length [of "headerMap (srv v)" "envHeaders env" "wHeader v"] by (simp add: r(3))
    with r(2) l show ?thesis unfolding e r(1) by blast
  qed
  show ?thesis
  proof (cases "needsAction input")
    case True
    obtain v where "run_actions env input result (start_vars respJSON s) = Some (Inr v)"
      "vars_ok (has_action input ''chunk'') v"
      using run_actions_ok [OF assms(1) start_vars_ok [OF assms(2)] assms(5)] by blast
    moreover have "\<not> has_action input ''disconnect''" using True assms(6) by blast
    ultimately show ?thesis using True by (intro written [of v]) (simp_all add: execAction_cases)
  next
    case False
    with written [OF start_vars_ok [OF assms(2)]] show ?thesis by (simp add: execAction_cases)
  qed
qed

text \<open>A request to the default route that passed validation, does not disconnect, is not
  made to panic by a full range and does not wait for the load is always answered: no index, no status code
  and no slice of the response can panic, the body is as long as the size that is reported and logged, if the
  status and the method allow one, and unless a client added a Content-Length header of its own or asked for
  chunks, the Content-Length header is that size.\<close>

theorem execAction_answers:
  assumes "wf_map m" and "\<not> prefix ''grpc'' (reqProto rq)"
    and "http_store st" and "input = validateCommands st rq m" and "evaluate input g = Inr (result, g')"
    and "lower_keys (headerMap s)" and "fair src" and "envFlusher env"
    and "load_free env input" and "\<not> has_action input ''disconnect''"
  shows "\<exists>resp size code s'. execAction env respJSON src input result s = Some (Inr (resp, size, code, s')) \<and>
    answered env resp size code \<and>
    (\<not> has_action input ''chunk'' \<and> headerMap s' ''content-length'' = None \<longrightarrow>
       respHeader resp ''Content-Length'' = Some [itoa size])"
proof -
  have "evaluated rq input result"
    using assms(1-5) by (auto simp: evaluated_def)
  from execAction_ok [OF this assms(6-9)] assms(10) show ?thesis by blast
qed

text \<open>A server that was just started.\<close>

definition new_server :: "int64 \<Rightarrow> server" where
  "new_server now = \<lparr>net = net_init, headerMap = NewHeaderMap, cpuRes = NewResourceUsage,
     memRes = NewResourceUsage, node = NewNodeInfo now, stdoutText = [], stderrText = [], slept = []\<rparr>"

definition plain_env :: exec_env where
  "plain_env = \<lparr>envLinux = True, envNow = 0, envConns = [], envHeaders = [], envFlusher = True,
     envHTTP11 = True, envRemote = ''192.0.2.7:50000'', envProto = ''http'', envWriter = Http1,
     envHead = False, envCpuLoad = Takes, envMemLoad = Takes\<rparr>"

lemma sent_ok [simp]: "sent_status w 200 = 200" "takes_body env 200 \<longleftrightarrow> envWriter env = Recorder \<or> \<not> envHead env"
  by (simp_all add: sent_status_def interim_def takes_body_def status_body_def)

lemma load_free_plain [simp]: "load_free plain_env input"
  by (simp add: load_free_def plain_env_def)

lemma fair_zero: "fair (\<lambda>_. 0)"
proof -
  have "usable 0" unfolding usable_def by (rule exI [of _ 0]) simp
  then show ?thesis by (auto simp: fair_def)
qed

lemma single_request:
  assumes "validatorForHttp k = Some re" and "rx_match re v" and "\<not> is_if k"
  shows "let c = validateCommands NewDataStore plain_get [(k, [v])] in
    actions c = [k] \<and> ifMatches c = [] \<and> ifUnmatches c = [] \<and> invalids c = [] \<and> cmd_field c k = v"
proof -
  have "cmd_field (validateCommands NewDataStore plain_get [(k, [v])]) k = v"
    using validateCommands_field [OF store_ok_NewDataStore, of "[(k, [v])]" plain_get k] assms(1)
    by (simp add: recognised_def combineValuesWithOr_def)
  then show ?thesis
    using assms by (simp add: validateCommands_def combineValuesWithOr_def validate_step_def Let_def)
qed

lemma evaluate_single:
  assumes "actions c = [k]" and "\<not> panics (getActionValue c k (\<lambda>_. 0))"
  obtains r g where "evaluate c (\<lambda>_. 0) = Inr (r, g)"
proof -
  have "\<not> panics (evaluate c (\<lambda>_. 0))" using assms by (simp add: panics_evaluate)
  then show thesis using that by (cases "evaluate c (\<lambda>_. 0)") auto
qed

theorem execAction_answers_witness:
  "let input = validateCommands NewDataStore plain_get [(''size'', [''100000''])] in
   \<exists>result g resp size code s'. evaluate input (\<lambda>_. 0) = Inr (result, g) \<and>
     execAction plain_env ''{}'' (\<lambda>_. 0) input result (new_server 0) = Some (Inr (resp, size, code, s')) \<and>
     answered plain_env resp size code"
proof -
  let ?m = "[(''size'', [''100000''])]"
  let ?input = "validateCommands NewDataStore plain_get ?m"
  have input: "actions ?input = [''size'']" "cmd_field ?input ''size'' = ''100000''"
    using single_request [of "''size''" regexpNumRange "''100000''"]
    by (simp_all add: Let_def validatorForHttp_def is_if_def match_num_range is_digit_code
        Cons_eq_append_conv del: rx_match.simps)
  then have "digits (getValue ?input ''size'')" by (simp add: digits_def is_digit_code)
  then have "\<not> panics (getActionValue ?input ''size'' (\<lambda>_. 0))"
    using getActionValue_single [of "''size''" ?input] by (simp add: ranged_key_def)
  then obtain result g where e: "evaluate ?input (\<lambda>_. 0) = Inr (result, g)"
    using evaluate_single [OF input(1)] by blast
  have "wf_map ?m" "\<not> prefix ''grpc'' (reqProto plain_get)" "lower_keys (headerMap (new_server 0))"
    "envFlusher plain_env" "\<not> has_action ?input ''disconnect''"
    using input by (simp_all add: plain_get_def new_server_def lower_keys_ops plain_env_def has_action_def)
  from execAction_answers [OF this(1,2) http_store_NewDataStore(1) refl e this(3) fair_zero this(4) load_free_plain this(5),
      of "''{}''"] e
  show ?thesis unfolding Let_def by blast
qed

text \<open>A request that calls for no action changes nothing on the server and is answered with
  status 200 and exactly its JSON text, unless the method is HEAD.\<close>

theorem execAction_idle:
  assumes "\<not> needsAction input"
  shows "\<exists>resp. execAction env respJSON src input result s = Some (Inr (resp, int (length respJSON), 200, s)) \<and>
    respStatus resp = 200 \<and>
    respBody resp = (if envWriter env = Recorder \<or> \<not> envHead env then respJSON else [])"
  using assms
  by (simp add: execAction_cases write_out_def start_vars_def checkStatus_def writeResponse_def Let_def
      go_slice_to_def)

theorem execAction_idle_witness:
  "\<exists>resp. execAction plain_env ''{}'' (\<lambda>_. 0) no_commands no_commands (new_server 0) =
     Some (Inr (resp, 2, 200, new_server 0)) \<and> respBody resp = ''{}''"
proof -
  have "\<not> needsAction no_commands" by (simp add: needsAction_def)
  from execAction_idle [OF this, of plain_env "''{}''" "\<lambda>_. 0" no_commands "new_server 0"]
  show ?thesis by (auto simp: plain_env_def)
qed

text \<open>How long a sleep action sleeps: exactly the drawn number of milliseconds up to
  9223372036854 of them; from one more on, the multiplication of the duration overflows and the
  duration is not the one asked for.\<close>

theorem sleep_duration:
  assumes "wf_map m" and "\<not> prefix ''grpc'' (reqProto rq)"
    and "http_store st" and "input = validateCommands st rq m" and "evaluate input g = Inr (result, g')"
    and "has_action input ''sleep''"
  shows "\<exists>n. fst (atoi (getValue result ''sleep'')) = n \<and> 0 \<le> n \<and>
    slept (act_sleep input result s) = slept s @ [millis n] \<and>
    (millis n = n * 1000000 \<longleftrightarrow> n \<le> 9223372036854)"
proof -
  define n where "n = fst (atoi (getValue result ''sleep''))"
  have "evaluated rq input result"
    using assms(1-5) by (auto simp: evaluated_def)
  then have n: "0 \<le> n" using evaluated_values(2) assms(6) n_def by auto
  have "millis n = n * 1000000 \<longleftrightarrow> n \<le> 9223372036854"
  proof
    assume "n \<le> 9223372036854"
    with n show "millis n = n * 1000000"
      unfolding millis_def by (intro wrap64_id) (auto simp: min_int64_def max_int64_def)
  next
    assume "millis n = n * 1000000"
    then have "n * 1000000 \<le> max_int64"
      using wrap64_range [of "n * 1000000"] by (simp add: millis_def)
    then show "n \<le> 9223372036854" by (simp add: max_int64_def)
  qed
  then show ?thesis using n assms(6) by (simp add: n_def act_sleep_def)
qed

theorem sleep_duration_witness:
  "let input = validateCommands NewDataStore plain_get [(''sleep'', [''9223372036855''])] in
   \<exists>result g d. evaluate input (\<lambda>_. 0) = Inr (result, g) \<and>
     slept (act_sleep input result (new_server 0)) = [d] \<and> d < 0"
proof -
  let ?m = "[(''sleep'', [''9223372036855''])]"
  let ?input = "validateCommands NewDataStore plain_get ?m"
  have input: "actions ?input = [''sleep'']" "cmd_field ?input ''sleep'' = ''9223372036855''"
    using single_request [of "''sleep''" regexpNumRange "''9223372036855''"]
    by (simp_all add: Let_def validatorForHttp_def is_if_def match_num_range is_digit_code
        Cons_eq_append_conv del: rx_match.simps)
  then have d: "digits (getValue ?input ''sleep'')" by (simp add: digits_def is_digit_code)
  have v: "getActionValue ?input ''sleep'' h = Inr (''9223372036855'', h)" for h
    using getActionValue_single [OF _ d] input by (simp add: ranged_key_def)
  then obtain result g where e: "evaluate ?input (\<lambda>_. 0) = Inr (result, g)"
    using evaluate_single [OF input(1)] by auto
  have "wf_map ?m" "actions ?input \<noteq> []" using input by simp_all
  from evaluate_fields [OF store_ok_NewDataStore this(1) refl this(2) e] input(1) v
  have r: "getValue result ''sleep'' = ''9223372036855''" by auto
  have "wf_map ?m" "\<not> prefix ''grpc'' (reqProto plain_get)" "has_action ?input ''sleep''"
    using input by (simp_all add: plain_get_def has_action_def)
  from sleep_duration [OF this(1,2) http_store_NewDataStore(1) refl e this(3), of "new_server 0"] obtain n where
    n: "fst (atoi (getValue result ''sleep'')) = n" "slept (act_sleep ?input result (new_server 0)) = [millis n]"
    by (auto simp: new_server_def)
  have "n = 9223372036855"
    using n(1) unfolding r by (simp add: fst_atoi_digits is_digit_code dec_val_def digit_val_def max_int64_def)
  then have "millis n < 0" by (simp add: millis_def wrap64_def)
  with n e show ?thesis unfolding Let_def by blast
qed

end
