(* ===== verification/Json.thy ===== *)
theory Json
  imports NetIP
begin

text \<open>
  The part of package \<open>encoding/json\<close> that the source uses: the text of strings, of objects and of
  indented objects. A value is what the encoder has walked over: a struct and a map are both the
  list of their members in the order of the text. The flag \<open>html\<close> is the encoder's setting for the
  characters of HTML. A reader of the texts, which is not in the source, says what a client gets out
  of them: the lemmas show that it gets the value that was written.
\<close>

section \<open>Strings\<close>

definition byte :: "char \<Rightarrow> nat" where
  "byte c = of_char c"

definition quote_char :: char where
  "quote_char = CHR 0x22"

definition backslash :: char where
  "backslash = CHR 0x5C"

definition hex_digit :: "nat \<Rightarrow> char" where
  "hex_digit n = (if n < 10 then char_of (48 + n) else char_of (87 + n))"

text \<open>A byte below 128.\<close>

definition escape_char :: "bool \<Rightarrow> char \<Rightarrow> string" where
  "escape_char html c =
     (if c = quote_char \<or> c = backslash then [backslash, c]
      else if c = CHR 0x08 then [backslash, CHR ''b'']
      else if c = CHR 0x0C then [backslash, CHR ''f'']
      else if c = CHR 0x0A then [backslash, CHR ''n'']
      else if c = CHR 0x0D then [backslash, CHR ''r'']
      else if c = CHR 0x09 then [backslash, CHR ''t'']
      else if byte c < 32 \<or> html \<and> (c = CHR ''<'' \<or> c = CHR ''>'' \<or> c = CHR ''&'')
      then [backslash, CHR ''u'', CHR ''0'', CHR ''0'', hex_digit (byte c div 16), hex_digit (byte c mod 16)]
      else [c])"

text \<open>The length of the UTF-8 sequence at the front of a text that begins with a byte from 128 on: 1
  for a byte that begins none, as \<open>utf8.DecodeRune\<close> has it.\<close>

definition cont_byte :: "char \<Rightarrow> bool" where
  "cont_byte c = (128 \<le> byte c \<and> byte c \<le> 191)"

definition second_byte :: "char \<Rightarrow> char \<Rightarrow> bool" where
  "second_byte a b =
     (if byte a = 224 then 160 \<le> byte b \<and> byte b \<le> 191
      else if byte a = 237 then 128 \<le> byte b \<and> byte b \<le> 159
      else if byte a = 240 then 144 \<le> byte b \<and> byte b \<le> 191
      else if byte a = 244 then 128 \<le> byte b \<and> byte b \<le> 143
      else cont_byte b)"

fun utf8_len :: "string \<Rightarrow> nat" where
  "utf8_len (a # b # s) =
     (if 194 \<le> byte a \<and> byte a \<le> 223 \<and> cont_byte b then 2
      else if 224 \<le> byte a \<and> byte a \<le> 239 \<and> second_byte a b
      then (case s of c # _ \<Rightarrow> if cont_byte c then 3 else 1 | [] \<Rightarrow> 1)
      else if 240 \<le> byte a \<and> byte a \<le> 244 \<and> second_byte a b
      then (case s of c # d # _ \<Rightarrow> if cont_byte c \<and> cont_byte d then 4 else 1 | _ \<Rightarrow> 1)
      else 1)"
| "utf8_len s = 1"

text \<open>The line and paragraph separators, and what a byte that is no UTF-8 is replaced by.\<close>

definition line_sep :: string where
  "line_sep = [CHR 0xE2, CHR 0x80, CHR 0xA8]"

definition para_sep :: string where
  "para_sep = [CHR 0xE2, CHR 0x80, CHR 0xA9]"

definition replacement :: string where
  "replacement = [CHR 0xEF, CHR 0xBF, CHR 0xBD]"

lemma utf8_len_range: "1 \<le> utf8_len s \<and> (s \<noteq> [] \<longrightarrow> utf8_len s \<le> length s)"
  by (cases s rule: utf8_len.cases) (auto split: list.splits)

function escape :: "bool \<Rightarrow> string \<Rightarrow> string" where
  "escape html [] = []"
| "escape html (c # s) =
     (if byte c < 128 then escape_char html c @ escape html s
      else
        let n = utf8_len (c # s); r = take n (c # s) in
        (if n = 1 then backslash # ''ufffd''
         else if r = line_sep then backslash # ''u2028''
         else if r = para_sep then backslash # ''u2029''
         else r) @ escape html (drop (n - 1) s))"
  by pat_completeness auto
termination
  by (relation "measure (\<lambda>(html, s). length s)") auto

definition quoted :: "bool \<Rightarrow> string \<Rightarrow> string" where
  "quoted html s = quote_char # escape html s @ [quote_char]"

section \<open>Values\<close>

datatype json = JNull | JNum string | JStr string | JObj "(string \<times> json) list"

definition nl :: "nat \<Rightarrow> string" where
  "nl d = CHR 0x0A # concat (replicate d ''  '')"

text \<open>The text of a value at a depth, with the line breaks \<open>brk\<close> between members and the text \<open>gap\<close>
  after a colon: with \<open>nl\<close> and a blank it is what \<open>json.Indent\<close> lays out with an indent of two
  blanks, with nothing it is what the encoder writes.\<close>

fun print_json :: "(nat \<Rightarrow> string) \<Rightarrow> string \<Rightarrow> bool \<Rightarrow> nat \<Rightarrow> json \<Rightarrow> string"
  and print_members :: "(nat \<Rightarrow> string) \<Rightarrow> string \<Rightarrow> bool \<Rightarrow> nat \<Rightarrow> (string \<times> json) list \<Rightarrow> string" where
  "print_json brk gap html d JNull = ''null''"
| "print_json brk gap html d (JNum n) = n"
| "print_json brk gap html d (JStr s) = quoted html s"
| "print_json brk gap html d (JObj kvs) =
     (if kvs = [] then ''{}''
      else ''{'' @ brk (d + 1) @ print_members brk gap html (d + 1) kvs @ brk d @ ''}'')"
| "print_members brk gap html d [] = []"
| "print_members brk gap html d ((k, v) # kvs) =
     quoted html k @ '':'' @ gap @ print_json brk gap html d v @
     (if kvs = [] then [] else '','' @ brk d @ print_members brk gap html d kvs)"

definition pretty :: "bool \<Rightarrow> json \<Rightarrow> string" where
  "pretty html j = print_json nl '' '' html 0 j"

definition compact :: "bool \<Rightarrow> json \<Rightarrow> string" where
  "compact html j = print_json (\<lambda>_. []) [] html 0 j"

text \<open>Members: a field that is always written, one that is left out when it is empty, and a map, whose
  keys are sorted.\<close>

definition member :: "string \<Rightarrow> string \<Rightarrow> (string \<times> json) list" where
  "member k s = [(k, JStr s)]"

definition nonempty_member :: "string \<Rightarrow> string \<Rightarrow> (string \<times> json) list" where
  "nonempty_member k s = (if s = [] then [] else [(k, JStr s)])"

section \<open>Reading strings back\<close>

text \<open>The text in which every byte that is no UTF-8 has been replaced.\<close>

function repair :: "string \<Rightarrow> string" where
  "repair [] = []"
| "repair (c # s) =
     (if byte c < 128 then c # repair s
      else
        let n = utf8_len (c # s) in
        (if n = 1 then replacement else take n (c # s)) @ repair (drop (n - 1) s))"
  by pat_completeness auto
termination
  by (relation "measure length") auto

definition valid_utf8 :: "string \<Rightarrow> bool" where
  "valid_utf8 s = (repair s = s)"

lemma valid_ascii: "\<forall>c \<in> set s. byte c < 128 \<Longrightarrow> valid_utf8 s"
  by (induction s) (auto simp: valid_utf8_def)

definition utf8_encode :: "nat \<Rightarrow> string" where
  "utf8_encode n =
     (if n < 128 then [char_of n]
      else if n < 2048 then [char_of (192 + n div 64), char_of (128 + n mod 64)]
      else [char_of (224 + n div 4096), char_of (128 + n div 64 mod 64), char_of (128 + n mod 64)])"

definition simple_escape :: "char \<Rightarrow> char option" where
  "simple_escape e =
     (if e = quote_char \<or> e = backslash \<or> e = CHR ''/'' then Some e
      else if e = CHR ''b'' then Some CHR 0x08
      else if e = CHR ''f'' then Some CHR 0x0C
      else if e = CHR ''n'' then Some CHR 0x0A
      else if e = CHR ''r'' then Some CHR 0x0D
      else if e = CHR ''t'' then Some CHR 0x09
      else None)"

definition hex4 :: "char \<Rightarrow> char \<Rightarrow> char \<Rightarrow> char \<Rightarrow> nat" where
  "hex4 a b x y = nat (((hex_val a * 16 + hex_val b) * 16 + hex_val x) * 16 + hex_val y)"

definition before :: "string \<Rightarrow> (string \<times> string) option \<Rightarrow> (string \<times> string) option" where
  "before w r = map_option (\<lambda>(v, rest). (w @ v, rest)) r"

text \<open>The text of a string after its opening quote, up to the closing one, and what follows it.\<close>

fun unescape :: "string \<Rightarrow> (string \<times> string) option" where
  "unescape [] = None"
| "unescape (c # s) =
     (if c = quote_char then Some ([], s)
      else if c = backslash then
        (case s of
           [] \<Rightarrow> None
         | e # t \<Rightarrow>
             if e = CHR ''u'' then
               (case t of
                  a # b # x # y # t' \<Rightarrow>
                    if list_all is_hex [a, b, x, y] then before (utf8_encode (hex4 a b x y)) (unescape t') else None
                | _ \<Rightarrow> None)
             else (case simple_escape e of None \<Rightarrow> None | Some ch \<Rightarrow> before [ch] (unescape t)))
      else before [c] (unescape s))"

lemma before_append [simp]: "before v (before w r) = before (v @ w) r"
  by (cases r) (auto simp: before_def)

lemma before_Some [simp]: "before w (Some (v, rest)) = Some (w @ v, rest)"
  by (simp add: before_def)

lemma hex_digit_all: "n < 16 \<Longrightarrow> is_hex (hex_digit n) \<and> hex_val (hex_digit n) = int n"
proof -
  have "\<forall>n \<in> set [0..<16]. is_hex (hex_digit n) \<and> hex_val (hex_digit n) = int n"
    by code_simp
  then show "n < 16 \<Longrightarrow> is_hex (hex_digit n) \<and> hex_val (hex_digit n) = int n" by simp
qed

lemma hex_zero: "is_hex CHR ''0''" "hex_val CHR ''0'' = 0"
  by code_simp+

lemma encode_samples:
  "utf8_encode (hex4 CHR ''f'' CHR ''f'' CHR ''f'' CHR ''d'') = replacement"
  "utf8_encode (hex4 CHR ''2'' CHR ''0'' CHR ''2'' CHR ''8'') = line_sep"
  "utf8_encode (hex4 CHR ''2'' CHR ''0'' CHR ''2'' CHR ''9'') = para_sep"
  "list_all is_hex ''fffd''" "list_all is_hex ''2028''" "list_all is_hex ''2029''"
  by (simp_all add: hex4_def hex_val_def is_hex_def is_digit_code less_eq_char_def digit_val_def utf8_encode_def
      replacement_def line_sep_def para_sep_def char_of_eq_iff)

lemma simple_escapes:
  "simple_escape quote_char = Some quote_char" "simple_escape backslash = Some backslash"
  "simple_escape CHR ''b'' = Some CHR 0x08" "simple_escape CHR ''f'' = Some CHR 0x0C"
  "simple_escape CHR ''n'' = Some CHR 0x0A" "simple_escape CHR ''r'' = Some CHR 0x0D"
  "simple_escape CHR ''t'' = Some CHR 0x09" "quote_char \<noteq> CHR ''u''" "backslash \<noteq> CHR ''u''"
  by (simp_all add: simple_escape_def quote_char_def backslash_def)

lemma unescape_plain:
  "c \<noteq> quote_char \<Longrightarrow> c \<noteq> backslash \<Longrightarrow> unescape (c # s) = before [c] (unescape s)"
  by simp

lemma unescape_u:
  "list_all is_hex [a, b, x, y] \<Longrightarrow>
   unescape (backslash # CHR ''u'' # a # b # x # y # s) = before (utf8_encode (hex4 a b x y)) (unescape s)"
  by (simp add: quote_char_def backslash_def)

lemma unescape_simple:
  "simple_escape e = Some ch \<Longrightarrow> e \<noteq> CHR ''u'' \<Longrightarrow> unescape (backslash # e # s) = before [ch] (unescape s)"
  by (simp add: quote_char_def backslash_def)

lemma unescape_escape_char:
  assumes "byte c < 128"
  shows "unescape (escape_char html c @ s) = before [c] (unescape s)"
proof -
  let ?n = "byte c"
  have d: "?n div 16 < 16" "?n mod 16 < 16" using assms by simp_all
  have c: "char_of ?n = c" by (simp add: byte_def)
  have u: "unescape ([backslash, CHR ''u'', CHR ''0'', CHR ''0'', hex_digit (?n div 16), hex_digit (?n mod 16)] @ s) =
      before [c] (unescape s)"
  proof -
    have "hex4 CHR ''0'' CHR ''0'' (hex_digit (?n div 16)) (hex_digit (?n mod 16)) = ?n"
      unfolding hex4_def hex_zero using d hex_digit_all by (simp add: nat_add_distrib nat_mult_distrib)
    then show ?thesis
      using unescape_u [of "CHR ''0''" "CHR ''0''" "hex_digit (?n div 16)" "hex_digit (?n mod 16)" s] hex_zero
        hex_digit_all d assms c by (simp add: utf8_encode_def)
  qed
  show ?thesis
    unfolding escape_char_def
    by (split if_split, intro conjI impI)+
      (use u in \<open>auto simp: unescape_simple simple_escapes simp del: unescape.simps intro!: unescape_plain\<close>)
qed

lemma unescape_high:
  "\<forall>c \<in> set r. 128 \<le> byte c \<Longrightarrow> unescape (r @ s) = before r (unescape s)"
proof (induction r)
  case (Cons c r)
  then have "c \<noteq> quote_char" "c \<noteq> backslash" by (auto simp: quote_char_def backslash_def byte_def)
  with Cons show ?case by (simp add: unescape_plain del: unescape.simps)
qed (cases "unescape s"; auto simp: before_def)

lemma utf8_len_high:
  assumes "128 \<le> byte c" and "utf8_len (c # s) \<noteq> 1"
  shows "\<forall>x \<in> set (take (utf8_len (c # s)) (c # s)). 128 \<le> byte x"
proof -
  have second: "second_byte a b \<Longrightarrow> 128 \<le> byte b" for a b
    by (auto simp: second_byte_def cont_byte_def split: if_splits)
  show ?thesis
    using assms by (cases "c # s" rule: utf8_len.cases)
      (auto simp: cont_byte_def dest: second split: list.splits if_splits)
qed

text \<open>Reading the text of a string gives the string, in which each byte that is no UTF-8 is replaced.\<close>

lemma unescape_escape:
  "unescape (escape html s @ quote_char # rest) = Some (repair s, rest)"
proof (induction html s rule: escape.induct)
  case (2 html c s)
  show ?case
  proof (cases "byte c < 128")
    case True
    with 2 show ?thesis by (simp add: unescape_escape_char del: unescape.simps)
  next
    case False
    let ?n = "utf8_len (c # s)"
    let ?r = "take ?n (c # s)"
    let ?w = "if ?n = 1 then backslash # ''ufffd'' else if ?r = line_sep then backslash # ''u2028''
      else if ?r = para_sep then backslash # ''u2029'' else ?r"
    have "unescape (?w @ t) = before (if ?n = 1 then replacement else ?r) (unescape t)" for t
    proof -
      have "unescape (backslash # ''ufffd'' @ t) = before replacement (unescape t)"
        "unescape (backslash # ''u2028'' @ t) = before line_sep (unescape t)"
        "unescape (backslash # ''u2029'' @ t) = before para_sep (unescape t)"
        using encode_samples by (simp_all add: unescape_u del: unescape.simps)
      moreover have "unescape (?r @ t) = before ?r (unescape t)" if "?n \<noteq> 1"
        by (rule unescape_high [OF utf8_len_high]) (use False that in simp_all)
      ultimately show ?thesis by (simp del: unescape.simps)
    qed
    moreover have "unescape (escape html (drop (?n - 1) s) @ quote_char # rest) = Some (repair (drop (?n - 1) s), rest)"
      using 2(2) [OF False refl refl] .
    ultimately show ?thesis using False by (simp add: Let_def del: unescape.simps utf8_len.simps)
  qed
qed simp

section \<open>Reading values back\<close>

definition is_ws :: "char \<Rightarrow> bool" where
  "is_ws c = (c = CHR '' '' \<or> c = CHR 0x0A \<or> c = CHR 0x0D \<or> c = CHR 0x09)"

definition skip_ws :: "string \<Rightarrow> string" where
  "skip_ws s = dropWhile is_ws s"

definition is_num :: "char \<Rightarrow> bool" where
  "is_num c = (is_digit c \<or> c = CHR ''-'' \<or> c = CHR ''+'' \<or> c = CHR ''.'' \<or> c = CHR ''e'' \<or> c = CHR ''E'')"

text \<open>The reader takes a bound on the number of values and members on the way down.\<close>

fun read_value :: "nat \<Rightarrow> string \<Rightarrow> (json \<times> string) option"
  and read_members :: "nat \<Rightarrow> string \<Rightarrow> ((string \<times> json) list \<times> string) option" where
  "read_value 0 s = None"
| "read_value (Suc n) s =
     (case skip_ws s of
        [] \<Rightarrow> None
      | c # t \<Rightarrow>
          if c = quote_char then map_option (\<lambda>(v, r). (JStr v, r)) (unescape t)
          else if c = CHR ''{'' then
            (case skip_ws t of
               [] \<Rightarrow> None
             | e # r \<Rightarrow> if e = CHR ''}'' then Some (JObj [], r)
                 else map_option (\<lambda>(kvs, r). (JObj kvs, r)) (read_members n t))
          else if prefix ''null'' (c # t) then Some (JNull, drop 3 t)
          else if is_num c then Some (JNum (takeWhile is_num (c # t)), dropWhile is_num (c # t))
          else None)"
| "read_members 0 s = None"
| "read_members (Suc n) s =
     (case skip_ws s of
        [] \<Rightarrow> None
      | c # t \<Rightarrow>
          if c \<noteq> quote_char then None
          else (case unescape t of
             None \<Rightarrow> None
           | Some (k, t) \<Rightarrow>
               (case skip_ws t of
                  [] \<Rightarrow> None
                | c # t \<Rightarrow>
                    if c \<noteq> CHR '':'' then None
                    else (case read_value n t of
                       None \<Rightarrow> None
                     | Some (v, t) \<Rightarrow>
                         (case skip_ws t of
                            [] \<Rightarrow> None
                          | c # t \<Rightarrow>
                              if c = CHR ''}'' then Some ([(k, v)], t)
                              else if c = CHR '','' then map_option (\<lambda>(kvs, r). ((k, v) # kvs, r)) (read_members n t)
                              else None)))))"

text \<open>The value in which all texts are repaired, its numbers, and the bound it needs.\<close>

fun repair_json :: "json \<Rightarrow> json"
  and repair_members :: "(string \<times> json) list \<Rightarrow> (string \<times> json) list" where
  "repair_json JNull = JNull"
| "repair_json (JNum n) = JNum n"
| "repair_json (JStr s) = JStr (repair s)"
| "repair_json (JObj kvs) = JObj (repair_members kvs)"
| "repair_members [] = []"
| "repair_members ((k, v) # kvs) = (repair k, repair_json v) # repair_members kvs"

fun wf_json :: "json \<Rightarrow> bool"
  and wf_members :: "(string \<times> json) list \<Rightarrow> bool" where
  "wf_json (JNum n) = (n \<noteq> [] \<and> list_all is_num n)"
| "wf_json (JObj kvs) = wf_members kvs"
| "wf_json _ = True"
| "wf_members [] = True"
| "wf_members ((k, v) # kvs) = (wf_json v \<and> wf_members kvs)"

fun cost :: "json \<Rightarrow> nat"
  and cost_members :: "(string \<times> json) list \<Rightarrow> nat" where
  "cost (JObj kvs) = Suc (cost_members kvs)"
| "cost _ = 1"
| "cost_members [] = 0"
| "cost_members ((k, v) # kvs) = Suc (max (cost v) (cost_members kvs))"

definition stops_num :: "json \<Rightarrow> string \<Rightarrow> bool" where
  "stops_num j rest = ((\<exists>n. j = JNum n) \<longrightarrow> rest = [] \<or> \<not> is_num (hd rest))"

lemma skip_ws_simps [simp]:
  "skip_ws (CHR '' '' # s) = skip_ws s"
  "skip_ws (nl d @ s) = skip_ws s"
  "\<not> is_ws c \<Longrightarrow> skip_ws (c # s) = c # s"
proof -
  show "skip_ws (CHR '' '' # s) = skip_ws s" by (simp add: skip_ws_def is_ws_def)
  have "skip_ws (concat (replicate d ''  '') @ s) = skip_ws s"
    by (induction d) (simp_all add: skip_ws_def is_ws_def)
  then show "skip_ws (nl d @ s) = skip_ws s" by (simp add: nl_def skip_ws_def is_ws_def)
  show "\<not> is_ws c \<Longrightarrow> skip_ws (c # s) = c # s" by (simp add: skip_ws_def)
qed

lemma not_ws [simp]:
  "\<not> is_ws quote_char" "\<not> is_ws CHR ''{''" "\<not> is_ws CHR ''}''" "\<not> is_ws CHR '':''" "\<not> is_ws CHR '',''" "\<not> is_ws CHR ''n''"
  "is_num c \<Longrightarrow> \<not> is_ws c"
  by (auto simp: is_ws_def quote_char_def is_num_def is_digit_code)

lemma not_num [simp]:
  "\<not> is_num CHR '',''" "\<not> is_num CHR ''}''" "\<not> is_num CHR 0x0A" "\<not> is_num quote_char" "\<not> is_num CHR ''{''"
  "\<not> is_num CHR ''n''"
  by (auto simp: is_num_def is_digit_code quote_char_def)

lemma quote_not [simp]: "quote_char \<noteq> CHR ''{''" "quote_char \<noteq> CHR ''}''" "CHR ''{'' \<noteq> quote_char" "CHR ''n'' \<noteq> quote_char"
  by (simp_all add: quote_char_def)

lemma unescape_quoted: "\<exists>t. quoted html s @ rest = quote_char # t \<and> unescape t = Some (repair s, rest)"
  using unescape_escape [of html s rest] by (simp add: quoted_def del: unescape.simps)

lemma read_num:
  assumes "n \<noteq> []" and "list_all is_num n" and "rest = [] \<or> \<not> is_num (hd rest)"
  shows "read_value (Suc m) (n @ rest) = Some (JNum n, rest)"
proof -
  obtain c t where n: "n = c # t" using assms(1) by (cases n) auto
  have c: "is_num c" "c \<noteq> quote_char" "c \<noteq> CHR ''{''" "c \<noteq> CHR ''n''"
    using assms(2) n by auto
  have "takeWhile is_num (n @ rest) = n" "dropWhile is_num (n @ rest) = rest"
    using assms(2,3) by (cases rest; auto simp: takeWhile_append list_all_iff dropWhile_append)+
  then show ?thesis using n c by simp
qed

lemma read_value_ws: "skip_ws s = skip_ws t \<Longrightarrow> read_value n s = read_value n t"
  by (cases n) simp_all

lemma read_members_ws: "skip_ws s = skip_ws t \<Longrightarrow> read_members n s = read_members n t"
  by (cases n) simp_all

text \<open>A layout puts white space only where white space may be; whatever it is, the text is read back.\<close>

locale layout =
  fixes brk :: "nat \<Rightarrow> string"
    and gap :: string
  assumes skip_brk: "skip_ws (brk d @ s) = skip_ws s"
    and skip_gap: "skip_ws (gap @ s) = skip_ws s"
begin

lemma members_first: "kvs \<noteq> [] \<Longrightarrow> \<exists>t. print_members brk gap html d kvs @ s = quote_char # t"
  by (cases kvs) (auto simp: quoted_def)

lemma read_printed:
  "wf_json j \<Longrightarrow> cost j \<le> n \<Longrightarrow> stops_num j rest \<Longrightarrow>
   read_value n (print_json brk gap html d j @ rest) = Some (repair_json j, rest)"
  "kvs \<noteq> [] \<Longrightarrow> wf_members kvs \<Longrightarrow> cost_members kvs \<le> n \<Longrightarrow>
   read_members n (print_members brk gap html d kvs @ brk e @ CHR ''}'' # rest) = Some (repair_members kvs, rest)"
proof (induction j and kvs arbitrary: n d rest and n d e rest rule: repair_json_repair_members.induct)
  case 1
  then show ?case by (cases n) simp_all
next
  case (2 num)
  then show ?case using read_num [of num rest] by (cases n) (simp_all add: stops_num_def)
next
  case (3 s)
  then show ?case using unescape_quoted [of html s rest] by (cases n) auto
next
  case (4 kvs)
  then obtain m where n: "n = Suc m" by (cases n) auto
  show ?case
  proof (cases "kvs = []")
    case True
    with n show ?thesis by simp
  next
    case False
    let ?t = "print_members brk gap html (d + 1) kvs @ brk d @ CHR ''}'' # rest"
    have "read_members m ?t = Some (repair_members kvs, rest)" using 4 n False by simp
    then have "read_members m (brk (d + 1) @ ?t) = Some (repair_members kvs, rest)"
      using read_members_ws [OF skip_brk] by metis
    moreover obtain t where "?t = quote_char # t" using members_first [OF False] by blast
    then have "skip_ws (brk (d + 1) @ ?t) = quote_char # t" by (simp add: skip_brk)
    ultimately show ?thesis using n False by simp
  qed
next
  case 5
  then show ?case by simp
next
  case (6 k v kvs)
  then obtain m where n: "n = Suc m" "cost v \<le> m" "cost_members kvs \<le> m" by (cases n) auto
  define tail where "tail = (if kvs = [] then brk e @ CHR ''}'' # rest
      else CHR '','' # brk d @ print_members brk gap html d kvs @ brk e @ CHR ''}'' # rest)"
  have shape: "print_members brk gap html d ((k, v) # kvs) @ brk e @ CHR ''}'' # rest =
      quoted html k @ CHR '':'' # gap @ print_json brk gap html d v @ tail"
    by (simp add: tail_def)
  obtain t where t: "quoted html k @ CHR '':'' # gap @ print_json brk gap html d v @ tail = quote_char # t"
    "unescape t = Some (repair k, CHR '':'' # gap @ print_json brk gap html d v @ tail)"
    using unescape_quoted by metis
  have "stops_num v tail"
    using skip_brk [of e "CHR ''}'' # rest"] by (cases "brk e") (auto simp: stops_num_def tail_def skip_ws_def split: if_splits)
  then have "read_value m (print_json brk gap html d v @ tail) = Some (repair_json v, tail)"
    using 6(1) [of m tail d] 6(4) n by simp
  then have "read_value m (gap @ print_json brk gap html d v @ tail) = Some (repair_json v, tail)"
    using read_value_ws [OF skip_gap] by metis
  moreover have "read_members m (brk d @ print_members brk gap html d kvs @ brk e @ CHR ''}'' # rest) =
      Some (repair_members kvs, rest)" if "kvs \<noteq> []"
    using 6(2) [OF that, of m d e rest] 6(4) n read_members_ws [OF skip_brk] by (metis wf_members.simps(2))
  ultimately show ?case
    unfolding shape t(1) n(1)
    using t(2) by (cases "kvs = []") (simp_all add: tail_def skip_brk del: unescape.simps)
qed

end

interpretation indented: layout nl "'' ''"
  by unfold_locales simp_all

interpretation packed: layout "\<lambda>_. []" "[]"
  by unfold_locales simp_all

lemma cost_length:
  "wf_json j \<Longrightarrow> cost j \<le> length (print_json brk gap html d j)"
  "wf_members kvs \<Longrightarrow> cost_members kvs \<le> length (print_members brk gap html d kvs)"
proof (induction j and kvs arbitrary: d and d rule: repair_json_repair_members.induct)
  case (2 n)
  then show ?case by (cases n) simp_all
next
  case (4 kvs)
  from 4(1) [of "d + 1"] 4(2) show ?case by simp
next
  case (6 k v kvs)
  have "cost v \<le> length (print_json brk gap html d v)" "cost_members kvs \<le> length (print_members brk gap html d kvs)"
    using 6 by simp_all
  then show ?case by (cases "kvs = []") (simp_all add: quoted_def)
qed (simp_all add: quoted_def)

definition read_json :: "string \<Rightarrow> (json \<times> string) option" where
  "read_json s = read_value (length s) s"

text \<open>Whatever was printed is read back, with its texts repaired; what follows is left over.\<close>

lemma read_pretty_nl:
  assumes "wf_json j" and "stops_num j rest" and "w = [] \<or> w = nl 0"
  shows "read_json (w @ pretty html j @ rest) = Some (repair_json j, rest)"
proof -
  have "cost j \<le> length (w @ pretty html j @ rest)"
    using cost_length(1) [OF assms(1), of nl "'' ''" html 0] by (simp add: pretty_def)
  then have "read_value (length (w @ pretty html j @ rest)) (pretty html j @ rest) = Some (repair_json j, rest)"
    unfolding pretty_def by (intro indented.read_printed(1) assms)
  moreover have "skip_ws (w @ pretty html j @ rest) = skip_ws (pretty html j @ rest)"
    using assms(3) by auto
  ultimately show ?thesis
    unfolding read_json_def using read_value_ws by metis
qed

lemma read_pretty:
  "wf_json j \<Longrightarrow> stops_num j rest \<Longrightarrow> read_json (pretty html j @ rest) = Some (repair_json j, rest)"
  using read_pretty_nl [of j rest "[]"] by simp

lemma read_compact:
  assumes "wf_json j" and "stops_num j rest"
  shows "read_json (compact html j @ rest) = Some (repair_json j, rest)"
proof -
  have "cost j \<le> length (compact html j @ rest)"
    using cost_length(1) [OF assms(1), of "\<lambda>_. []" "[]" html 0] by (simp add: compact_def)
  then show ?thesis unfolding read_json_def compact_def by (intro packed.read_printed(1) assms)
qed

text \<open>Looking a member up, as a client would; a text that is not there reads as empty.\<close>

definition field :: "string \<Rightarrow> json \<Rightarrow> json" where
  "field k j = (case j of JObj kvs \<Rightarrow> (case map_of kvs k of None \<Rightarrow> JNull | Some v \<Rightarrow> v) | _ \<Rightarrow> JNull)"

definition text_of :: "json \<Rightarrow> string" where
  "text_of j = (case j of JStr s \<Rightarrow> s | JNum n \<Rightarrow> n | _ \<Rightarrow> [])"

end
