(* ===== verification/RespJson.thy ===== *)
theory RespJson
  imports Json Commands Resource NodeInfo "HOL-Library.List_Lexorder" "HOL-Library.Char_ord"
begin

text \<open>
  types.go and nodeinfo.go: the structs that are shown as JSON, each with the names and the options of
  its field tags, and their texts (main.go \<open>jsonMarshalIndent\<close>, nodeinfo.go \<open>getStoreNodeJSON\<close>).
  Parameter: the text of a float, which has none if it is no number or infinite; the encoder then
  fails and there is no text at all.
\<close>

section \<open>Structs\<close>

text \<open>The fields of a struct with their option \<open>omitempty\<close>, which leaves empty texts and objects out.\<close>

fun is_empty_json :: "json \<Rightarrow> bool" where
  "is_empty_json (JStr s) = (s = [])"
| "is_empty_json (JObj kvs) = (kvs = [])"
| "is_empty_json JNull = True"
| "is_empty_json (JNum n) = (n = ''0'')"

definition struct_json :: "(string \<times> bool \<times> json) list \<Rightarrow> json" where
  "struct_json tab = JObj (map (\<lambda>(k, omit, v). (k, v)) (filter (\<lambda>(k, omit, v). \<not> (omit \<and> is_empty_json v)) tab))"

definition map_json :: "('a \<Rightarrow> json) \<Rightarrow> 'a go_map \<Rightarrow> json" where
  "map_json enc m = JObj (map (\<lambda>(k, v). (k, enc v)) (sort_key fst m))"

definition host_json :: "host_info \<Rightarrow> json" where
  "host_json h = struct_json
     [(''name'', False, JStr (hostName h)), (''ip'', False, JStr (hostIP h)),
      (''az'', True, JStr (hostAZ h)), (''type'', True, JStr (hostType h))]"

definition request_json :: "request_info \<Rightarrow> json" where
  "request_json rq = struct_json
     [(''protocol'', False, JStr (reqProto rq)), (''method'', False, JStr (reqMethod rq)),
      (''path'', False, JStr (reqPath rq)), (''querystring'', True, JStr (reqQuery rq)),
      (''header'', False, map_json JStr (reqHeader rq)),
      (''clientip'', False, JStr (reqClientIP rq)), (''proxy1ip'', True, JStr (reqProxy1IP rq)),
      (''proxy2ip'', True, JStr (reqProxy2IP rq)), (''proxy3ip'', True, JStr (reqProxy3IP rq)),
      (''lasthopip'', True, JStr (reqLastHopIP rq)), (''targetip'', False, JStr (reqTargetIP rq)),
      (''mtlscert'', True, JStr (reqMtlsCert rq))]"

definition command_texts :: "commands \<Rightarrow> (string \<times> string) list" where
  "command_texts c =
     [(''cpu'', cCPU c), (''memory'', cMemory c), (''sleep'', cSleep c), (''size'', cSize c),
      (''code'', cCode c), (''status'', cStatus c), (''addheader'', cAddHeader c), (''delheader'', cDelHeader c),
      (''addtrailer'', cAddTrailer c), (''deltrailer'', cDelTrailer c), (''chunk'', cChunk c),
      (''stdout'', cStdout c), (''stderr'', cStderr c), (''disconnect'', cDisconnect c),
      (''repeat'', cRepeat c), (''dataonly'', cDataOnly c), (''noop'', cNoop c),
      (''ifclientip'', cIfClientIP c), (''ifproxy1ip'', cIfProxy1IP c), (''ifproxy2ip'', cIfProxy2IP c),
      (''ifproxy3ip'', cIfProxy3IP c), (''iflasthopip'', cIfLasthopIP c), (''iftargetip'', cIfTargetIP c),
      (''ifhostip'', cIfHostIP c), (''ifhost'', cIfHost c), (''ifaz'', cIfAZ c), (''iftype'', cIfType c)]"

definition commands_json :: "commands \<Rightarrow> json" where
  "commands_json c = struct_json (map (\<lambda>(k, s). (k, True, JStr s)) (command_texts c))"

definition usage_json :: "(64 word \<Rightarrow> string option) \<Rightarrow> resource_usage \<Rightarrow> json option" where
  "usage_json fmt ru =
     map_option (\<lambda>cur. struct_json [(''target'', False, JNum (itoa (target ru))), (''current'', False, JNum cur)])
       (fmt (current ru))"

definition response_json ::
  "(64 word \<Rightarrow> string option) \<Rightarrow> host_info \<Rightarrow> resource_usage \<Rightarrow> resource_usage \<Rightarrow> request_info \<Rightarrow> commands \<Rightarrow> commands \<Rightarrow> json option" where
  "response_json fmt h cpu mem rq input result =
     (case (usage_json fmt cpu, usage_json fmt mem) of
        (Some c, Some m) \<Rightarrow> Some (struct_json
          [(''host'', False, host_json h),
           (''resource'', False, struct_json [(''cpu'', False, c), (''memory'', False, m)]),
           (''request'', False, request_json rq),
           (''direction'', False, struct_json
             [(''input'', False, commands_json input), (''result'', False, commands_json result)])])
      | _ \<Rightarrow> None)"

text \<open>\<open>jsonMarshalIndent\<close>: the encoder ends its text with a line break, which \<open>json.Indent\<close> keeps.\<close>

definition jsonMarshalIndent :: "json option \<Rightarrow> string" where
  "jsonMarshalIndent t = (case t of None \<Rightarrow> [] | Some j \<Rightarrow> pretty False j @ [CHR 0x0A])"

section \<open>Nodes\<close>

definition node_members :: "(64 word \<Rightarrow> string option) \<Rightarrow> node_info \<Rightarrow> json \<Rightarrow> json option" where
  "node_members fmt ni elbsJSON =
     (case (fmt (nodeCPU ni), fmt (nodeMemory ni)) of
        (Some cpu, Some mem) \<Rightarrow> Some (struct_json
          [(''created_at'', False, JNum (itoa (sint (createdAt ni)))), (''updated_at'', False, JNum (itoa (sint (updatedAt ni)))),
           (''request_count'', False, JNum (itoa (sint (requestCount ni)))), (''sent_bytes'', False, JNum (itoa (sint (sentBytes ni)))),
           (''received_bytes'', False, JNum (itoa (sint (receivedBytes ni)))),
           (''cpu'', False, JNum cpu), (''memory'', False, JNum mem),
           (''active_conns'', False, JNum (itoa (sint (activeConns ni)))), (''total_conns'', False, JNum (itoa (sint (totalConns ni)))),
           (''elbs'', True, elbsJSON)])
      | _ \<Rightarrow> None)"

text \<open>The nodes of the load balancers, by the keys of the map in any order. They are entries of the
  remote node map, whose own maps of load balancers are never filled.\<close>

definition elb_json :: "(64 word \<Rightarrow> string option) \<Rightarrow> remote_nodes \<Rightarrow> node_ref \<Rightarrow> json option" where
  "elb_json fmt remote ref =
     (case ref of
        None \<Rightarrow> Some JNull
      | Some ip \<Rightarrow> (case remote ip of None \<Rightarrow> Some JNull | Some ni \<Rightarrow> node_members fmt ni (JObj [])))"

fun all_some :: "(string \<times> 'a option) list \<Rightarrow> (string \<times> 'a) list option" where
  "all_some [] = Some []"
| "all_some ((k, None) # m) = None"
| "all_some ((k, Some v) # m) = map_option (\<lambda>r. (k, v) # r) (all_some m)"

definition node_json :: "(64 word \<Rightarrow> string option) \<Rightarrow> remote_nodes \<Rightarrow> string list \<Rightarrow> node_info \<Rightarrow> json option" where
  "node_json fmt remote ks ni =
     (case all_some (map (\<lambda>k. (k, elb_json fmt remote (the (elbs ni k)))) ks) of
        None \<Rightarrow> None
      | Some m \<Rightarrow> node_members fmt ni (map_json id m))"

text \<open>\<open>json.MarshalIndent\<close> escapes HTML and ends without a line break.\<close>

definition getStoreNodeJSON :: "(64 word \<Rightarrow> string option) \<Rightarrow> remote_nodes \<Rightarrow> string list \<Rightarrow> node_info \<Rightarrow> string" where
  "getStoreNodeJSON fmt remote ks ni = (case node_json fmt remote ks ni of None \<Rightarrow> [] | Some j \<Rightarrow> pretty True j)"

section \<open>Reading a response\<close>

definition read_host :: "json \<Rightarrow> host_info" where
  "read_host j = \<lparr>hostName = text_of (field ''name'' j), hostIP = text_of (field ''ip'' j),
     hostAZ = text_of (field ''az'' j), hostType = text_of (field ''type'' j)\<rparr>"

definition read_map :: "json \<Rightarrow> string go_map" where
  "read_map j = (case j of JObj kvs \<Rightarrow> map (\<lambda>(k, v). (k, text_of v)) kvs | _ \<Rightarrow> [])"

definition read_request :: "json \<Rightarrow> request_info" where
  "read_request j = \<lparr>reqProto = text_of (field ''protocol'' j), reqMethod = text_of (field ''method'' j),
     reqPath = text_of (field ''path'' j), reqQuery = text_of (field ''querystring'' j),
     reqHeader = read_map (field ''header'' j), reqClientIP = text_of (field ''clientip'' j),
     reqProxy1IP = text_of (field ''proxy1ip'' j), reqProxy2IP = text_of (field ''proxy2ip'' j),
     reqProxy3IP = text_of (field ''proxy3ip'' j), reqLastHopIP = text_of (field ''lasthopip'' j),
     reqTargetIP = text_of (field ''targetip'' j), reqMtlsCert = text_of (field ''mtlscert'' j)\<rparr>"

lemma distinct_filter_keys: "distinct (map fst tab) \<Longrightarrow> k \<notin> fst ` set tab \<Longrightarrow>
   map_of (map (\<lambda>(k, omit, v). (k, v)) (filter P tab)) k = None"
  by (auto simp: map_of_eq_None_iff image_iff split: prod.splits)

lemma struct_lookup:
  "distinct (map fst tab) \<Longrightarrow>
   map_of (map (\<lambda>(k, omit, v). (k, v)) (filter (\<lambda>(k, omit, v). \<not> (omit \<and> is_empty_json v)) tab)) k =
   (case map_of tab k of None \<Rightarrow> None | Some (omit, v) \<Rightarrow> if omit \<and> is_empty_json v then None else Some v)"
proof (induction tab)
  case (Cons x tab)
  obtain k' omit v where x: "x = (k', omit, v)" by (cases x)
  show ?case
  proof (cases "k = k'")
    case True
    then have "k \<notin> fst ` set tab" using Cons.prems x by auto
    with Cons.prems True x show ?thesis
      using distinct_filter_keys [of tab k "\<lambda>(k, omit, v). \<not> (omit \<and> is_empty_json v)"] by simp
  next
    case False
    with Cons x show ?thesis by simp
  qed
qed simp

lemma field_struct:
  assumes "distinct (map fst tab)" and "map_of tab k = Some (omit, v)"
  shows "field k (struct_json tab) = (if omit \<and> is_empty_json v then JNull else v)"
  using struct_lookup [OF assms(1), of k] assms(2) by (simp add: field_def struct_json_def)

lemma text_struct:
  assumes d: "distinct (map fst tab)" and m: "map_option snd (map_of tab k) = Some (JStr s)"
  shows "text_of (field k (struct_json tab)) = s"
proof (cases "map_of tab k")
  case None
  with m show ?thesis by simp
next
  case (Some x)
  have "snd x = JStr s" using m unfolding Some by simp
  then have "map_of tab k = Some (fst x, JStr s)" unfolding Some by (cases x) simp
  from field_struct [OF d this] show ?thesis by (simp add: text_of_def)
qed

lemma field_always:
  assumes "distinct (map fst tab)" and "map_of tab k = Some (False, v)"
  shows "field k (struct_json tab) = v"
  using field_struct [OF assms] by simp

lemma read_host_json: "read_host (host_json h) = h"
  by (cases h) (simp add: read_host_def host_json_def text_struct)

lemma read_map_json: "read_map (map_json JStr m) = sort_key fst m"
  by (simp add: read_map_def map_json_def text_of_def comp_def case_prod_beta)

lemma read_request_json: "read_request (request_json rq) = rq\<lparr>reqHeader := sort_key fst (reqHeader rq)\<rparr>"
proof -
  have "field ''header'' (request_json rq) = map_json JStr (reqHeader rq)"
    unfolding request_json_def by (rule field_always) simp_all
  moreover have
    "text_of (field ''protocol'' (request_json rq)) = reqProto rq"
    "text_of (field ''method'' (request_json rq)) = reqMethod rq"
    "text_of (field ''path'' (request_json rq)) = reqPath rq"
    "text_of (field ''querystring'' (request_json rq)) = reqQuery rq"
    "text_of (field ''clientip'' (request_json rq)) = reqClientIP rq"
    "text_of (field ''proxy1ip'' (request_json rq)) = reqProxy1IP rq"
    "text_of (field ''proxy2ip'' (request_json rq)) = reqProxy2IP rq"
    "text_of (field ''proxy3ip'' (request_json rq)) = reqProxy3IP rq"
    "text_of (field ''lasthopip'' (request_json rq)) = reqLastHopIP rq"
    "text_of (field ''targetip'' (request_json rq)) = reqTargetIP rq"
    "text_of (field ''mtlscert'' (request_json rq)) = reqMtlsCert rq"
    unfolding request_json_def by (rule text_struct; simp)+
  ultimately show ?thesis by (cases rq) (simp add: read_request_def read_map_json)
qed

text \<open>Every command, under its name; the names that are no command have no text.\<close>

lemma command_texts_keys: "distinct (map fst (command_texts c))"
  by (simp add: command_texts_def)

lemma command_texts_field: "map_of (command_texts c) k = (if k \<in> fst ` set (command_texts c) then Some (cmd_field c k) else None)"
proof (cases "k \<in> fst ` set (command_texts c)")
  case True
  have "list_all (\<lambda>(k, s). cmd_field c k = s) (command_texts c)"
    by (simp add: command_texts_def)
  then have "cmd_field c k = s" if "(k, s) \<in> set (command_texts c)" for s
    using that by (auto simp: list_all_iff)
  moreover obtain s where "(k, s) \<in> set (command_texts c)" using True by auto
  ultimately show ?thesis
    using map_of_is_SomeI [OF command_texts_keys] True by metis
qed (simp add: map_of_eq_None_iff)

definition read_command :: "json \<Rightarrow> string \<Rightarrow> string" where
  "read_command j k = text_of (field k j)"

lemma read_commands_json:
  assumes "k \<in> fst ` set (command_texts c)"
  shows "read_command (commands_json c) k = cmd_field c k"
proof -
  have "map_of (map (\<lambda>(k, s). (k, True, JStr s)) (command_texts c)) k = Some (True, JStr (cmd_field c k))"
    using command_texts_field [of c k] assms by (simp add: map_of_map)
  then show ?thesis
    unfolding read_command_def commands_json_def
    by (intro text_struct) (simp_all add: comp_def case_prod_beta command_texts_keys)
qed

section \<open>The whole response\<close>

definition float_texts :: "(64 word \<Rightarrow> string option) \<Rightarrow> bool" where
  "float_texts fmt = (\<forall>x t. fmt x = Some t \<longrightarrow> t \<noteq> [] \<and> list_all is_num t)"

definition valid_json :: "json \<Rightarrow> bool" where
  "valid_json j = (repair_json j = j)"

lemma wf_members_iff: "wf_members kvs \<longleftrightarrow> (\<forall>kv \<in> set kvs. wf_json (snd kv))"
  by (induction kvs) auto

lemma repair_members_map: "repair_members kvs = map (\<lambda>(k, v). (repair k, repair_json v)) kvs"
  by (induction kvs) auto

lemma wf_struct: "(\<forall>x \<in> set tab. wf_json (snd (snd x))) \<Longrightarrow> wf_json (struct_json tab)"
  by (auto simp: struct_json_def wf_members_iff)

lemma wf_map_json: "(\<And>v. wf_json (enc v)) \<Longrightarrow> wf_json (map_json enc m)"
  by (auto simp: map_json_def wf_members_iff)

lemma itoa_num: "itoa n \<noteq> [] \<and> list_all is_num (itoa n)"
proof -
  have "list_all is_num (nat_str k)" for k
    using nat_str_digits [of k] by (auto simp: list_all_iff is_num_def)
  then show ?thesis by (simp add: itoa_def is_num_def)
qed

lemma wf_host: "wf_json (host_json h)" and wf_request: "wf_json (request_json rq)"
  and wf_commands: "wf_json (commands_json c)"
  by (auto simp: host_json_def request_json_def commands_json_def intro!: wf_struct wf_map_json)

lemma wf_usage: "float_texts fmt \<Longrightarrow> usage_json fmt ru = Some j \<Longrightarrow> wf_json j"
  using itoa_num by (auto simp: usage_json_def float_texts_def intro!: wf_struct)

lemma response_shape:
  assumes "response_json fmt h cpu mem rq input result = Some j"
  obtains c m where "usage_json fmt cpu = Some c" "usage_json fmt mem = Some m"
    "j = struct_json [(''host'', False, host_json h),
       (''resource'', False, struct_json [(''cpu'', False, c), (''memory'', False, m)]),
       (''request'', False, request_json rq),
       (''direction'', False, struct_json
         [(''input'', False, commands_json input), (''result'', False, commands_json result)])]"
  using assms by (auto simp: response_json_def split: option.splits)

lemma wf_response:
  assumes "float_texts fmt" and "response_json fmt h cpu mem rq input result = Some j"
  shows "wf_json j"
  using assms(2)
proof (rule response_shape)
  fix c m
  assume u: "usage_json fmt cpu = Some c" "usage_json fmt mem = Some m" and
    j: "j = struct_json [(''host'', False, host_json h),
       (''resource'', False, struct_json [(''cpu'', False, c), (''memory'', False, m)]),
       (''request'', False, request_json rq),
       (''direction'', False, struct_json
         [(''input'', False, commands_json input), (''result'', False, commands_json result)])]"
  then show ?thesis
    using wf_usage [OF assms(1) u(1)] wf_usage [OF assms(1) u(2)]
    by (auto intro!: wf_struct wf_host wf_request wf_commands)
qed

lemma response_object:
  "response_json fmt h cpu mem rq input result = Some j \<Longrightarrow> \<exists>kvs. j = JObj kvs"
  by (erule response_shape) (simp add: struct_json_def)

lemma response_fields:
  assumes "response_json fmt h cpu mem rq input result = Some j"
  shows "field ''host'' j = host_json h" and "field ''request'' j = request_json rq"
    and "field ''input'' (field ''direction'' j) = commands_json input"
    and "field ''result'' (field ''direction'' j) = commands_json result"
    and "usage_json fmt cpu = Some (field ''cpu'' (field ''resource'' j))"
    and "usage_json fmt mem = Some (field ''memory'' (field ''resource'' j))"
  using assms by (auto elim!: response_shape simp: field_always)

lemma usage_target:
  "usage_json fmt ru = Some j \<Longrightarrow> text_of (field ''target'' j) = itoa (target ru)"
  by (auto simp: usage_json_def field_always text_of_def)

text \<open>What the text of a response says, whatever follows it.\<close>

definition tells ::
  "json \<Rightarrow> host_info \<Rightarrow> resource_usage \<Rightarrow> resource_usage \<Rightarrow> request_info \<Rightarrow> commands \<Rightarrow> commands \<Rightarrow> bool" where
  "tells j h cpu mem rq input result =
     (read_host (field ''host'' j) = h \<and>
      read_request (field ''request'' j) = rq\<lparr>reqHeader := sort_key fst (reqHeader rq)\<rparr> \<and>
      text_of (field ''target'' (field ''cpu'' (field ''resource'' j))) = itoa (target cpu) \<and>
      text_of (field ''target'' (field ''memory'' (field ''resource'' j))) = itoa (target mem) \<and>
      (\<forall>k \<in> fst ` set (command_texts input).
         read_command (field ''input'' (field ''direction'' j)) k = cmd_field input k \<and>
         read_command (field ''result'' (field ''direction'' j)) k = cmd_field result k))"

lemma response_tells:
  assumes "response_json fmt h cpu mem rq input result = Some j"
  shows "tells j h cpu mem rq input result"
proof -
  have "fst ` set (command_texts result) = fst ` set (command_texts input)"
    by (simp add: command_texts_def)
  then show ?thesis
    unfolding tells_def response_fields(1-4) [OF assms]
    using usage_target [OF response_fields(5) [OF assms]] usage_target [OF response_fields(6) [OF assms]]
    by (simp add: read_host_json read_request_json read_commands_json)
qed

lemma read_response:
  assumes "float_texts fmt" and "response_json fmt h cpu mem rq input result = Some j"
  shows "read_json (jsonMarshalIndent (Some j) @ rest) = Some (repair_json j, CHR 0x0A # rest)"
proof -
  have "stops_num j t" for t using response_object [OF assms(2)] by (auto simp: stops_num_def)
  then show ?thesis
    using read_pretty [OF wf_response [OF assms], of "CHR 0x0A # rest" False] by (simp add: jsonMarshalIndent_def)
qed

end
