(* ===== verification/HttpHandler.thy ===== *)
theory HttpHandler
  imports HttpAction "HOL-Library.AList" RespJson
begin

text \<open>
  main.go: the default handler from request to counters and its wrapper; logger.go: what the access
  log says of a request; types.go: where the addresses of a request come from; lambda.go: the same
  handler behind a load balancer's Lambda event.

  Parameters beside those of the actions: the parsed query (\<open>hParams\<close>, in the order of
  the range loop) and its unescaped text, as package \<open>net/url\<close> gives them.
\<close>

section \<open>Requests\<close>

record http_request =
  hProto :: string
  hMethod :: string
  hPath :: string
  hQueryText :: string
  hParams :: "string list go_map"
  hHeader :: "string list go_map"
  hHost :: string
  hRemote :: string
  hBody :: string

text \<open>\<open>Header.Get\<close>: the first value of the name, or nothing.\<close>

definition header_Get :: "string \<Rightarrow> string list go_map \<Rightarrow> string" where
  "header_Get k h = (case map_of h (header_key k) of None \<Rightarrow> [] | Some vs \<Rightarrow> (if vs = [] then [] else hd vs))"

definition combineValues :: "string list go_map \<Rightarrow> string go_map" where
  "combineValues input = map (\<lambda>(key, values). (key, join '', '' values)) input"

definition is_mtls_key :: "string \<Rightarrow> bool" where
  "is_mtls_key key = (key = ''X-Amzn-Mtls-Clientcert'' \<or> key = ''X-Amzn-Mtls-Clientcert-Leaf'')"

fun getMtlsCert :: "string go_map \<Rightarrow> string" where
  "getMtlsCert [] = []"
| "getMtlsCert ((key, v) # headers) =
     (if is_mtls_key key \<and> v \<noteq> [] then v else getMtlsCert headers)"

definition getClientIPAddress :: "http_request \<Rightarrow> string" where
  "getClientIPAddress r =
     (let xff = splitXFF (header_Get ''X-Forwarded-For'' (hHeader r)) in
      if length xff = 0 then extractIPAddress (hRemote r) else extractIPAddress (xff ! 0))"

definition setIPAddress ::
  "bool \<Rightarrow> host_info \<Rightarrow> string list \<Rightarrow> http_request \<Rightarrow> request_info \<times> server \<Rightarrow> request_info \<times> server" where
  "setIPAddress isLambda hst ks r st =
     (let (rq, s) = st;
          rq = (case getByRemoteAddr ks (hRemote r) of
                  Some k \<Rightarrow> rq\<lparr>reqTargetIP := extractIPAddress
                    (localAddr (conn_of (net s) (csConn (the (csMaps (net s) k)))))\<rparr>
                | None \<Rightarrow> rq\<lparr>reqTargetIP := extractIPAddress (hostIP hst)\<rparr>);
          xff = splitXFF (header_Get ''X-Forwarded-For'' (hHeader r));
          rq = (if length xff \<ge> 2 then rq\<lparr>reqProxy1IP := extractIPAddress (xff ! 1)\<rparr> else rq);
          rq = (if length xff \<ge> 3 then rq\<lparr>reqProxy2IP := extractIPAddress (xff ! 2)\<rparr> else rq);
          rq = (if length xff \<ge> 4 then rq\<lparr>reqProxy3IP := extractIPAddress (xff ! 3)\<rparr> else rq)
      in if length xff = 0 then (rq\<lparr>reqClientIP := extractIPAddress (hRemote r)\<rparr>, s)
         else
           let rq = rq\<lparr>reqClientIP := extractIPAddress (xff ! 0)\<rparr> in
           if \<not> isLambda then
             let hop = extractIPAddress (hRemote r);
                 ref = (if remoteNodes (net s) hop = None then None else Some hop)
             in (rq\<lparr>reqLastHopIP := hop\<rparr>,
                 s\<lparr>node := (node s)\<lparr>elbs := (elbs (node s))(hop \<mapsto> ref)\<rparr>\<rparr>)
           else (rq, s))"

section \<open>The access log\<close>

record http_logger =
  lProto :: string
  lMethod :: string
  lPath :: string
  lQstr :: string
  lClientip :: string
  lRemoteaddr :: string
  lReqsize :: int
  lSize :: int
  lStatus :: int
  lReuse :: int64

definition new_logger :: http_logger where
  "new_logger = \<lparr>lProto = [], lMethod = [], lPath = [], lQstr = [], lClientip = [], lRemoteaddr = [],
     lReqsize = 0, lSize = 0, lStatus = 0, lReuse = 0\<rparr>"

text \<open>\<open>init\<close> reads the body to its end to count it.\<close>

definition logger_init :: "string \<Rightarrow> http_request \<Rightarrow> int64 \<Rightarrow> http_logger \<Rightarrow> http_logger \<times> http_request" where
  "logger_init proto r n l =
     (l\<lparr>lProto := proto, lMethod := hMethod r, lPath := hPath r, lQstr := hQueryText r,
        lClientip := getClientIPAddress r, lRemoteaddr := hRemote r,
        lReqsize := int (length (hBody r)), lReuse := n\<rparr>,
      r\<lparr>hBody := []\<rparr>)"

text \<open>The fields of a log line that are computed when it is written.\<close>

definition log_source :: "http_logger \<Rightarrow> string \<times> int" where
  "log_source l = (extractIPAddress (lRemoteaddr l), extractPort (lRemoteaddr l))"

section \<open>The default handler\<close>

text \<open>What is fixed for a request beside its own data: the store, the mode, the encoders.\<close>

record handler_env =
  hStore :: data_store
  hLambda :: bool
  hExec :: exec_env
  hFloat :: "64 word \<Rightarrow> string option"
  hCert :: "string \<Rightarrow> string"
  hRand :: rng
  hSource :: source

text \<open>The environment of the actions, which knows whether the request is a HEAD.\<close>

definition act_env :: "handler_env \<Rightarrow> http_request \<Rightarrow> exec_env" where
  "act_env env r = (hExec env)\<lparr>envHead := (hMethod r = ''HEAD'')\<rparr>"

lemma act_env_fields [simp]:
  "envNow (act_env env r) = envNow (hExec env)" "envConns (act_env env r) = envConns (hExec env)"
  "envProto (act_env env r) = envProto (hExec env)" "envWriter (act_env env r) = envWriter (hExec env)"
  "envFlusher (act_env env r) = envFlusher (hExec env)" "envHead (act_env env r) = (hMethod r = ''HEAD'')"
  "envCpuLoad (act_env env r) = envCpuLoad (hExec env)" "envMemLoad (act_env env r) = envMemLoad (hExec env)"
  by (simp_all add: act_env_def)

text \<open>The information on the request before its addresses are set.\<close>

definition request_of :: "handler_env \<Rightarrow> http_request \<Rightarrow> request_info" where
  "request_of env r =
     (let reqHeaders = combineValues (hHeader r);
          cert = getMtlsCert reqHeaders
      in \<lparr>reqProto = envProto (hExec env), reqMethod = hMethod r, reqPath = hPath r,
          reqQuery = hQueryText r, reqHeader = AList.update ''Host'' (hHost r) reqHeaders,
          reqClientIP = [], reqProxy1IP = [], reqProxy2IP = [], reqProxy3IP = [],
          reqLastHopIP = [], reqTargetIP = [],
          reqMtlsCert = (if cert \<noteq> [] then hCert env cert else [])\<rparr>)"

text \<open>The counters after the answer, and the log.\<close>

definition reflect_answer ::
  "handler_env \<Rightarrow> http_request \<Rightarrow> http_logger \<Rightarrow> response \<times> int \<times> int \<times> server \<Rightarrow> (response \<times> http_logger \<times> server) res" where
  "reflect_answer env r l x =
     (let (resp, respSize, statusCode, s) = x;
          reqSize = int (length (hBody r));
          s = s\<lparr>node := reflectRequest (envNow (hExec env)) (word_of_int reqSize) (word_of_int respSize) (node s)\<rparr>
      in res_bind
           (if \<not> hLambda env then
              res_bind (rnm_reflectRequest (envNow (hExec env)) (extractIPAddress (hRemote r))
                  (word_of_int reqSize) (word_of_int respSize) (remoteNodes (net s)))
                (\<lambda>m. Inr (s\<lparr>net := (net s)\<lparr>remoteNodes := m\<rparr>\<rparr>))
            else Inr s)
           (\<lambda>s. Inr (resp, l\<lparr>lSize := respSize, lStatus := statusCode\<rparr>, s)))"

text \<open>\<open>None\<close> if the writer does not return or a read or change of a target waits for ever.\<close>

definition defaultHandler ::
  "handler_env \<Rightarrow> http_request \<Rightarrow> http_logger \<Rightarrow> server \<Rightarrow> (response \<times> http_logger \<times> server) res option" where
  "defaultHandler env r l s =
     (let (rq, s) = setIPAddress (hLambda env) (host (hStore env)) (envConns (hExec env)) r (request_of env r, s)
      in ro_bind (read_load (act_env env r) s) (\<lambda>_.
         let input = validateCommands (hStore env) rq (hParams r)
         in ro_bind (Some (evaluate input (hRand env))) (\<lambda>(result, _).
            let json = jsonMarshalIndent (response_json (hFloat env) (host (hStore env)) (cpuRes s) (memRes s) rq input result)
            in ro_bind (execAction (act_env env r) json (hSource env) input result s) (\<lambda>x.
               Some (reflect_answer env r l x)))))"

text \<open>The wrapper: the reuse count, the log's start, the active count around the handler.\<close>

definition handlerWrapper ::
  "handler_env \<Rightarrow> (handler_env \<Rightarrow> http_request \<Rightarrow> http_logger \<Rightarrow> server \<Rightarrow> (response \<times> http_logger \<times> server) res option) \<Rightarrow>
   http_request \<Rightarrow> server \<Rightarrow> (response \<times> http_logger \<times> server) res option" where
  "handlerWrapper env fn r s =
     (let (n, m) = bump_reuse (envConns (hExec env)) (hRemote r) (csMaps (net s));
          s = s\<lparr>net := (net s)\<lparr>csMaps := m\<rparr>\<rparr>;
          (l, r) = logger_init (envProto (hExec env)) r n new_logger;
          now = envNow (hExec env); ip = extractIPAddress (hRemote r)
      in case active_start now (hRemote r) (net s) of
           Inl p \<Rightarrow> Some (Inl p)
         | Inr w \<Rightarrow>
             map_option (\<lambda>x. res_bind x (\<lambda>(resp, l, s).
               res_bind (active_end now ip (net s)) (\<lambda>w. Inr (resp, l, s\<lparr>net := w\<rparr>))))
             (fn env r l (s\<lparr>net := w\<rparr>)))"

section \<open>Lambda\<close>

text \<open>\<open>handleRequest\<close> for the default route: the body is read, and restored after the log's
  start has read it. The handler writes to the recorder, and the request it gets has no protocol version.\<close>

definition on_recorder :: "handler_env \<Rightarrow> handler_env" where
  "on_recorder env = env\<lparr>hExec := (hExec env)\<lparr>envWriter := Recorder, envHTTP11 := False\<rparr>\<rparr>"

definition lambda_default ::
  "handler_env \<Rightarrow> http_request \<Rightarrow> server \<Rightarrow> (response \<times> http_logger \<times> server) res option" where
  "lambda_default env r s =
     (let bodyBytes = hBody r;
          (l, r) = logger_init ''lambda'' r 0 new_logger;
          r = r\<lparr>hBody := bodyBytes\<rparr>
      in defaultHandler (on_recorder env) r l s)"

text \<open>\<open>runLambda\<close> takes the resource commands out of the validator.\<close>

definition lambda_store :: "data_store \<Rightarrow> data_store" where
  "lambda_store st = st\<lparr>vHttp := (vHttp st)(''cpu'' := None, ''memory'' := None)\<rparr>"

section \<open>What a request leaves on the server\<close>

lemma act_vars_srv [simp]:
  "srv (act_status input result v) = srv v" "srv (act_size input result v) = srv v"
  "srv (act_chunk input v) = srv v"
  by (simp_all add: act_status_def act_size_def act_chunk_def Let_def)

text \<open>What no action but its own touches.\<close>

definition untouched :: "commands \<Rightarrow> server \<Rightarrow> server \<Rightarrow> bool" where
  "untouched input s s' =
     (node s' = node s \<and> (\<not> has_action input ''cpu'' \<longrightarrow> cpuRes s' = cpuRes s) \<and>
      (\<not> has_action input ''memory'' \<longrightarrow> memRes s' = memRes s))"

lemma untouched_acts:
  "untouched input s (act_sleep input result s)"
  "act_load env input result s = Some (Inr s') \<Longrightarrow> untouched input s s'"
  "act_addheader input result s = Inr s' \<Longrightarrow> untouched input s s'"
  "untouched input s (act_delheader input result s)"
  "untouched input s (act_print input result s)"
  by (auto simp: untouched_def act_sleep_def act_load_frame act_addheader_def act_delheader_def
      act_print_def Let_def res_bind_Inr split: if_splits)

lemma untouched_trans: "untouched input s t \<Longrightarrow> untouched input t u \<Longrightarrow> untouched input s u"
  by (auto simp: untouched_def)

lemma run_actions_frame:
  assumes "run_actions env input result v = Some (Inr v')"
  shows "untouched input (srv v) (srv v')" and "net (srv v') = net (srv v)"
proof -
  obtain t s where t: "act_load env input result (act_sleep input result (srv v)) = Some (Inr t)"
    and s: "act_addheader input result t = Inr s"
    and v': "srv v' = act_print input result (act_delheader input result s)"
    using assms by (auto simp: run_actions_def Let_def res_bind_Inr ro_bind_Inr)
  show "untouched input (srv v) (srv v')"
    unfolding v'
    by (rule untouched_trans [OF untouched_trans [OF untouched_trans [OF untouched_trans [OF
          untouched_acts(1) untouched_acts(2) [OF t]] untouched_acts(3) [OF s]] untouched_acts(4)] untouched_acts(5)])
  have "net s = net t" using s by (auto simp: act_addheader_def res_bind_Inr split: if_splits)
  then show "net (srv v') = net (srv v)"
    using act_load_frame(2) [OF t] unfolding v'
    by (simp add: act_print_def act_delheader_def act_sleep_def Let_def)
qed

lemma write_out_srv:
  "write_out env json src v = Some (Inr (resp, sz, code, s')) \<Longrightarrow>
   s' = srv v \<and> code = statusCode v \<and> sz = respSize v"
  by (auto simp: write_out_def res_bind_Inr split: sum.splits)

lemma execAction_run:
  assumes "execAction env json src input result s = Some (Inr (resp, sz, code, s'))"
  obtains v where "v = start_vars json s \<or> run_actions env input result (start_vars json s) = Some (Inr v)"
    and "node s' = node (srv v)" "cpuRes s' = cpuRes (srv v)" "memRes s' = memRes (srv v)"
    and "\<not> has_action input ''disconnect'' \<Longrightarrow>
      write_out env json src v = Some (Inr (resp, sz, code, s')) \<and> s' = srv v"
proof (cases "needsAction input")
  case True
  then obtain v where v: "run_actions env input result (start_vars json s) = Some (Inr v)"
    and r: "(if has_action input ''disconnect'' then
            Some (res_bind
              (disconnect (envNow env) (envConns env) (envRemote env) (envProto env)
                 (getValue result ''disconnect'' = ''rst'') (net (srv v)))
              (\<lambda>w. Inr (no_response, 0, 0, (srv v)\<lparr>net := w\<rparr>)))
          else write_out env json src v) = Some (Inr (resp, sz, code, s'))"
    using assms by (auto simp: execAction_cases ro_bind_Inr)
  show thesis
  proof (cases "has_action input ''disconnect''")
    case True
    with r show thesis by (intro that [of v]) (auto simp: v res_bind_Inr)
  next
    case False
    with r write_out_srv show thesis by (intro that [of v]) (auto simp: v)
  qed
next
  case False
  then have "write_out env json src (start_vars json s) = Some (Inr (resp, sz, code, s'))"
    using assms by (simp add: execAction_cases)
  with write_out_srv [OF this] show thesis by (intro that [of "start_vars json s"]) simp_all
qed

lemma execAction_frame:
  assumes "execAction env json src input result s = Some (Inr (resp, sz, code, s'))"
  shows "node s' = node s"
    and "\<not> has_action input ''cpu'' \<Longrightarrow> cpuRes s' = cpuRes s"
    and "\<not> has_action input ''memory'' \<Longrightarrow> memRes s' = memRes s"
proof -
  obtain v where v: "v = start_vars json s \<or> run_actions env input result (start_vars json s) = Some (Inr v)"
      "node s' = node (srv v)" "cpuRes s' = cpuRes (srv v)" "memRes s' = memRes (srv v)"
    by (rule execAction_run [OF assms])
  have s: "srv (start_vars json s) = s" by (simp add: start_vars_def)
  have "untouched input s s'"
    using v s run_actions_frame(1) by (fastforce simp: untouched_def)
  then show "node s' = node s" "\<not> has_action input ''cpu'' \<Longrightarrow> cpuRes s' = cpuRes s"
    "\<not> has_action input ''memory'' \<Longrightarrow> memRes s' = memRes s"
    by (simp_all add: untouched_def)
qed

lemma setIPAddress_node:
  "setIPAddress lam hst ks r (rq, s) = (rq', s') \<Longrightarrow>
   requestCount (node s') = requestCount (node s) \<and> sentBytes (node s') = sentBytes (node s) \<and>
   receivedBytes (node s') = receivedBytes (node s) \<and> cpuRes s' = cpuRes s \<and> memRes s' = memRes s"
  by (auto simp: setIPAddress_def Let_def split: if_splits)

lemma defaultHandler_run:
  assumes "defaultHandler env r l s = Some (Inr (resp, l', s'))"
  obtains rq0 rq s1 result json sz code s2 where
    "setIPAddress (hLambda env) (host (hStore env)) (envConns (hExec env)) r (rq0, s) = (rq, s1)"
    "reqProto rq0 = envProto (hExec env)"
    "execAction (act_env env r) json (hSource env) (validateCommands (hStore env) rq (hParams r)) result s1 =
      Some (Inr (resp, sz, code, s2))"
    "l' = l\<lparr>lSize := sz, lStatus := code\<rparr>"
    "node s' = reflectRequest (envNow (hExec env)) (word_of_int (int (length (hBody r)))) (word_of_int sz) (node s2)"
    "cpuRes s' = cpuRes s2" "memRes s' = memRes s2"
proof -
  obtain rq s1 where sip: "setIPAddress (hLambda env) (host (hStore env)) (envConns (hExec env)) r (request_of env r, s) = (rq, s1)"
    by (cases "setIPAddress (hLambda env) (host (hStore env)) (envConns (hExec env)) r (request_of env r, s)")
  then obtain result json x where
    ex: "execAction (act_env env r) json (hSource env) (validateCommands (hStore env) rq (hParams r)) result s1 = Some (Inr x)"
    and l: "reflect_answer env r l x = Inr (resp, l', s')"
    using assms by (auto simp: defaultHandler_def Let_def ro_bind_Inr)
  obtain resp' sz code s2 where x: "x = (resp', sz, code, s2)" by (cases x)
  have r: "resp' = resp" and rest: "l' = l\<lparr>lSize := sz, lStatus := code\<rparr>" "cpuRes s' = cpuRes s2" "memRes s' = memRes s2"
    "node s' = reflectRequest (envNow (hExec env)) (word_of_int (int (length (hBody r)))) (word_of_int sz) (node s2)"
    using l by (auto simp: x reflect_answer_def Let_def res_bind_Inr split: if_splits)
  have proto: "reqProto (request_of env r) = envProto (hExec env)" by (simp add: request_of_def Let_def)
  show thesis by (rule that [OF sip proto ex [unfolded x r] rest(1) rest(4) rest(2,3)])
qed

lemma defaultHandler_counts:
  assumes "defaultHandler env r l s = Some (Inr (resp, l', s'))"
  shows "receivedBytes (node s') = receivedBytes (node s) + word_of_int (int (length (hBody r))) \<and>
    sentBytes (node s') = sentBytes (node s) + word_of_int (lSize l') \<and>
    requestCount (node s') = requestCount (node s) + 1 \<and>
    l' = l\<lparr>lSize := lSize l', lStatus := lStatus l'\<rparr>"
proof (rule defaultHandler_run [OF assms])
  fix rq0 rq s1 result json sz code s2
  assume sip: "setIPAddress (hLambda env) (host (hStore env)) (envConns (hExec env)) r (rq0, s) = (rq, s1)"
    and ex: "execAction (act_env env r) json (hSource env) (validateCommands (hStore env) rq (hParams r)) result s1 =
      Some (Inr (resp, sz, code, s2))"
    and l': "l' = l\<lparr>lSize := sz, lStatus := code\<rparr>"
    and node: "node s' = reflectRequest (envNow (hExec env)) (word_of_int (int (length (hBody r)))) (word_of_int sz) (node s2)"
  show ?thesis
    using setIPAddress_node [OF sip] execAction_frame(1) [OF ex]
    by (simp add: node l' reflectRequest_def)
qed

lemma handlerWrapper_default:
  assumes "handlerWrapper env defaultHandler r s = Some (Inr (resp, l, s'))"
  shows "\<exists>w s1. defaultHandler env (r\<lparr>hBody := []\<rparr>)
      (fst (logger_init (envProto (hExec env)) r (fst (bump_reuse (envConns (hExec env)) (hRemote r) (csMaps (net s)))) new_logger))
      (s\<lparr>net := w\<rparr>) = Some (Inr (resp, l, s1)) \<and> node s' = node s1"
proof -
  obtain n m where nm: "bump_reuse (envConns (hExec env)) (hRemote r) (csMaps (net s)) = (n, m)"
    by (cases "bump_reuse (envConns (hExec env)) (hRemote r) (csMaps (net s))")
  define l0 where "l0 = fst (logger_init (envProto (hExec env)) r n new_logger)"
  define r0 where "r0 = r\<lparr>hBody := []\<rparr>"
  have init: "logger_init (envProto (hExec env)) r n new_logger = (l0, r0)"
    by (simp add: logger_init_def l0_def r0_def)
  define s2 where "s2 = s\<lparr>net := (net s)\<lparr>csMaps := m\<rparr>\<rparr>"
  have remote: "hRemote r0 = hRemote r" by (simp add: r0_def)
  obtain w where w: "active_start (envNow (hExec env)) (hRemote r) ((net s)\<lparr>csMaps := m\<rparr>) = Inr w"
    using assms by (auto simp: handlerWrapper_def Let_def nm init remote split: sum.splits)
  then obtain s1 w1 where "defaultHandler env r0 l0 (s2\<lparr>net := w\<rparr>) = Some (Inr (resp, l, s1))" "s' = s1\<lparr>net := w1\<rparr>"
    using assms by (auto simp: handlerWrapper_def Let_def nm init s2_def remote w res_bind_Inr)
  then show ?thesis
    unfolding nm fst_conv l0_def [symmetric] r0_def [symmetric]
    by (intro exI [of _ w] exI [of _ s1]) (simp add: s2_def)
qed

text \<open>C16. The request counters of the server's node behind the access log wrapper: every answered
  request adds one request and the size that is logged as sent; the size that is logged as
  received is that of the body. But the node's received bytes never grow: the log's start has
  read the body to its end when the handler counts it.\<close>

theorem http_received_never_counted:
  assumes "handlerWrapper env defaultHandler r s = Some (Inr (resp, l, s'))"
  shows "lReqsize l = int (length (hBody r)) \<and>
    requestCount (node s') = requestCount (node s) + 1 \<and>
    sentBytes (node s') = sentBytes (node s) + word_of_int (lSize l) \<and>
    receivedBytes (node s') = receivedBytes (node s)"
proof -
  obtain w s1 where d: "defaultHandler env (r\<lparr>hBody := []\<rparr>)
      (fst (logger_init (envProto (hExec env)) r (fst (bump_reuse (envConns (hExec env)) (hRemote r) (csMaps (net s)))) new_logger))
      (s\<lparr>net := w\<rparr>) = Some (Inr (resp, l, s1))" and e: "node s' = node s1"
    using handlerWrapper_default [OF assms] by blast
  note c = defaultHandler_counts [OF d]
  have "lReqsize l = int (length (hBody r))"
    by (subst conjunct2 [OF conjunct2 [OF conjunct2 [OF c]]]) (simp add: logger_init_def)
  with c e show ?thesis by simp
qed

text \<open>Behind Lambda, where the body is restored after the log has read it, the received bytes
  grow by the size of every request's body.\<close>

theorem lambda_received_counted:
  assumes "lambda_default env r s = Some (Inr (resp, l, s'))"
  shows "receivedBytes (node s') = receivedBytes (node s) + word_of_int (int (length (hBody r)))"
proof -
  obtain l0 where "defaultHandler (on_recorder env) r l0 s = Some (Inr (resp, l, s'))"
    using assms by (auto simp: lambda_default_def logger_init_def Let_def)
  from defaultHandler_counts [OF this] show ?thesis by simp
qed

text \<open>C17. Behind Lambda no request changes a resource target: the goroutines that receive from the
  target channels are not started there, and a request that sent to one would wait for ever with
  the usage locked.\<close>

theorem lambda_never_sends:
  assumes "hStore env = lambda_store NewDataStore" and "envProto (hExec env) = ''lambda''"
    and "lambda_default env r s = Some (Inr (resp, l, s'))"
  shows "cpuRes s' = cpuRes s \<and> memRes s' = memRes s"
proof -
  obtain l0 where "defaultHandler (on_recorder env) r l0 s = Some (Inr (resp, l, s'))"
    using assms(3) by (auto simp: lambda_default_def logger_init_def Let_def)
  then show ?thesis
  proof (rule defaultHandler_run)
    fix rq0 rq s1 result json sz code s2
    let ?input = "validateCommands (hStore env) rq (hParams r)" and ?env = "on_recorder env"
    have same [simp]: "hStore ?env = hStore env" "envProto (hExec ?env) = envProto (hExec env)"
      by (simp_all add: on_recorder_def)
    assume sip: "setIPAddress (hLambda ?env) (host (hStore ?env)) (envConns (hExec ?env)) r (rq0, s) = (rq, s1)"
      and proto: "reqProto rq0 = envProto (hExec ?env)"
      and ex: "execAction (act_env ?env r) json (hSource ?env) (validateCommands (hStore ?env) rq (hParams r)) result s1 = Some (Inr (resp, sz, code, s2))"
      and s': "cpuRes s' = cpuRes s2" "memRes s' = memRes s2"
    have "reqProto rq = reqProto rq0"
      using sip by (auto simp: setIPAddress_def Let_def split: if_splits option.splits)
    then have "\<not> prefix ''grpc'' (reqProto rq)" using proto assms(2) by simp
    then have "pick_validator (hStore env) rq ''cpu'' = None" "pick_validator (hStore env) rq ''memory'' = None"
      using assms(1) by (simp_all add: pick_validator_def lambda_store_def)
    then have "\<not> has_action ?input ''cpu''" "\<not> has_action ?input ''memory''"
      by (auto simp: has_action_def validateCommands_def validate_lists well_formed_def split: option.splits)
    then show ?thesis
      using execAction_frame(2,3) [OF ex [unfolded same(1)]] s' setIPAddress_node [OF sip] by simp
  qed
qed

text \<open>A request without parameters, with a body of three bytes, over a known connection.\<close>

definition idle_env :: "data_store \<Rightarrow> bool \<Rightarrow> string \<Rightarrow> handler_env" where
  "idle_env st lam proto = \<lparr>hStore = st, hLambda = lam, hExec = plain_env\<lparr>envProto := proto\<rparr>,
     hFloat = \<lambda>_. Some ''0'', hCert = \<lambda>_. [], hRand = \<lambda>_. 0, hSource = \<lambda>_. 0\<rparr>"

definition post_abc :: http_request where
  "post_abc = \<lparr>hProto = ''HTTP/1.1'', hMethod = ''POST'', hPath = ''/'', hQueryText = [], hParams = [],
     hHeader = [], hHost = ''example.com'', hRemote = ''192.0.2.7:50000'', hBody = ''abc''\<rparr>"

definition known_server :: server where
  "known_server = (new_server 0)\<lparr>net := net_init\<lparr>remoteNodes := [''192.0.2.7'' \<mapsto> NewNodeInfo 0]\<rparr>\<rparr>"

lemma idle_commands:
  "validateCommands st rq [] = no_commands" "evaluate no_commands g = Inr (no_commands, g)"
  "\<not> needsAction no_commands"
  by (simp_all add: validateCommands_def combineValuesWithOr_def evaluate_def needsAction_def)

lemma post_abc_ip [simp]: "extractIPAddress (hRemote post_abc) = ''192.0.2.7''"
  by (simp add: post_abc_def extractIPAddress_def split_single_Cons)

lemma post_abc_addresses:
  "setIPAddress lam hst [] (post_abc\<lparr>hBody := b\<rparr>) (rq, s) =
     (rq\<lparr>reqTargetIP := extractIPAddress (hostIP hst), reqClientIP := ''192.0.2.7''\<rparr>, s)"
  using post_abc_ip
  by (simp add: setIPAddress_def getByRemoteAddr_def header_Get_def splitXFF_def post_abc_def Let_def)

lemma idle_default:
  assumes "envConns (hExec env) = []" and "envCpuLoad (hExec env) = Takes" "envMemLoad (hExec env) = Takes"
    and "hLambda env \<or> ''192.0.2.7'' \<in> dom (remoteNodes (net s))"
  shows "\<exists>resp l' s'. defaultHandler env (post_abc\<lparr>hBody := b\<rparr>) l s = Some (Inr (resp, l', s')) \<and>
    (''192.0.2.7'' \<in> dom (remoteNodes (net s)) \<longrightarrow> ''192.0.2.7'' \<in> dom (remoteNodes (net s')))"
proof -
  let ?r = "post_abc\<lparr>hBody := b\<rparr>"
  have p: "hParams ?r = []" "extractIPAddress (hRemote ?r) = ''192.0.2.7''"
    using post_abc_ip by (simp_all add: post_abc_def)
  define json where "json = jsonMarshalIndent (response_json (hFloat env) (host (hStore env)) (cpuRes s) (memRes s)
    ((request_of env ?r)\<lparr>reqTargetIP := extractIPAddress (hostIP (host (hStore env))), reqClientIP := ''192.0.2.7''\<rparr>)
    no_commands no_commands)"
  obtain resp where x: "execAction (act_env env ?r) json (hSource env) no_commands no_commands s =
      Some (Inr (resp, int (length json), 200, s))"
    using execAction_idle [OF idle_commands(3)] by blast
  have "read_load (act_env env ?r) s = Some (Inr (target (cpuRes s), target (memRes s)))"
    using assms(2,3) by (simp add: read_load_Some)
  then have d: "defaultHandler env ?r l s = Some (reflect_answer env ?r l (resp, int (length json), 200, s))"
    unfolding defaultHandler_def Let_def assms(1) post_abc_addresses prod.case idle_commands p
    by (simp add: x idle_commands json_def [symmetric])
  show ?thesis
    unfolding d using assms(4) by (auto simp: reflect_answer_def Let_def rnm_reflectRequest_def p(2))
qed

text \<open>Behind Lambda, any request without parameters is answered.\<close>

lemma quiet_default:
  assumes "hParams r = []" and "envCpuLoad (hExec env) = Takes" "envMemLoad (hExec env) = Takes" and "hLambda env"
  shows "\<exists>resp l' s'. defaultHandler env r l s = Some (Inr (resp, l', s'))"
proof -
  obtain rq s1 where sip: "setIPAddress (hLambda env) (host (hStore env)) (envConns (hExec env)) r (request_of env r, s) = (rq, s1)"
    by (cases "setIPAddress (hLambda env) (host (hStore env)) (envConns (hExec env)) r (request_of env r, s)")
  define json where "json = jsonMarshalIndent (response_json (hFloat env) (host (hStore env)) (cpuRes s1) (memRes s1)
    rq no_commands no_commands)"
  obtain resp where x: "execAction (act_env env r) json (hSource env) no_commands no_commands s1 =
      Some (Inr (resp, int (length json), 200, s1))"
    using execAction_idle [OF idle_commands(3)] by blast
  have "read_load (act_env env r) s1 = Some (Inr (target (cpuRes s1), target (memRes s1)))"
    using assms(2,3) by (simp add: read_load_Some)
  then have d: "defaultHandler env r l s = Some (reflect_answer env r l (resp, int (length json), 200, s1))"
    unfolding defaultHandler_def Let_def assms(1) sip prod.case idle_commands
    by (simp add: x idle_commands json_def [symmetric])
  show ?thesis unfolding d using assms(4) by (auto simp: reflect_answer_def Let_def)
qed

lemma idle_env_fields:
  "envConns (hExec (idle_env st lam proto)) = []" "envCpuLoad (hExec (idle_env st lam proto)) = Takes"
  "envMemLoad (hExec (idle_env st lam proto)) = Takes" "hLambda (idle_env st lam proto) = lam"
  by (simp_all add: idle_env_def plain_env_def)

theorem http_received_never_counted_witness:
  "\<exists>resp l s'. handlerWrapper (idle_env NewDataStore False ''http'') defaultHandler post_abc known_server =
     Some (Inr (resp, l, s')) \<and> lReqsize l = 3 \<and> receivedBytes (node s') = 0"
proof -
  let ?env = "idle_env NewDataStore False ''http''"
  have b: "bump_reuse (envConns (hExec ?env)) a m = (0, m)" for a m
    by (simp add: idle_env_def plain_env_def bump_reuse_def getByRemoteAddr_def)
  obtain w where w: "active_start (envNow (hExec ?env)) (hRemote post_abc) (net known_server) = Inr w"
    "''192.0.2.7'' \<in> dom (remoteNodes w)"
    by (simp add: active_start_def rnm_addActiveConns_def known_server_def net_init_def Let_def)
  obtain resp l s1 where d: "defaultHandler ?env (post_abc\<lparr>hBody := []\<rparr>)
      (fst (logger_init (envProto (hExec ?env)) post_abc 0 new_logger)) (known_server\<lparr>net := w\<rparr>) =
      Some (Inr (resp, l, s1))" "''192.0.2.7'' \<in> dom (remoteNodes (net s1))"
    using idle_default [of ?env "known_server\<lparr>net := w\<rparr>"] w(2) by (force simp: idle_env_fields)
  obtain w1 where "active_end (envNow (hExec ?env)) ''192.0.2.7'' (net s1) = Inr w1"
    using d(2) by (auto simp: active_end_def rnm_addActiveConns_def Let_def)
  then have "handlerWrapper ?env defaultHandler post_abc known_server = Some (Inr (resp, l, s1\<lparr>net := w1\<rparr>))"
    using w(1) d(1) post_abc_ip
    by (simp add: handlerWrapper_def b logger_init_def Let_def post_abc_def)
  moreover from http_received_never_counted [OF this]
  have "lReqsize l = 3" "receivedBytes (node (s1\<lparr>net := w1\<rparr>)) = 0"
    by (simp_all add: post_abc_def known_server_def new_server_def NewNodeInfo_def)
  ultimately show ?thesis by blast
qed

lemma idle_lambda:
  "\<exists>resp l s'. lambda_default (idle_env (lambda_store NewDataStore) True ''lambda'') post_abc (new_server 0) =
     Some (Inr (resp, l, s'))"
proof -
  let ?env = "on_recorder (idle_env (lambda_store NewDataStore) True ''lambda'')"
  have "envConns (hExec ?env) = []" "envCpuLoad (hExec ?env) = Takes" "envMemLoad (hExec ?env) = Takes" "hLambda ?env"
    using idle_env_fields by (simp_all add: on_recorder_def)
  moreover have "post_abc = post_abc\<lparr>hBody := ''abc''\<rparr>" by (simp add: post_abc_def)
  ultimately show ?thesis
    using idle_default [of ?env "new_server 0" "''abc''" "fst (logger_init ''lambda'' post_abc 0 new_logger)"]
    by (auto simp: lambda_default_def logger_init_def Let_def post_abc_def)
qed

theorem lambda_received_counted_witness:
  "\<exists>resp l s'. lambda_default (idle_env (lambda_store NewDataStore) True ''lambda'') post_abc (new_server 0) =
     Some (Inr (resp, l, s')) \<and> receivedBytes (node s') = 3"
proof -
  obtain resp l s' where r: "lambda_default (idle_env (lambda_store NewDataStore) True ''lambda'') post_abc
      (new_server 0) = Some (Inr (resp, l, s'))"
    using idle_lambda by blast
  from lambda_received_counted [OF r] have "receivedBytes (node s') = 3"
    by (simp add: post_abc_def new_server_def NewNodeInfo_def)
  with r show ?thesis by blast
qed

theorem lambda_never_sends_witness:
  "\<exists>resp l s'. lambda_default (idle_env (lambda_store NewDataStore) True ''lambda'') post_abc (new_server 0) =
     Some (Inr (resp, l, s')) \<and> sent (cpuRes s') = []"
proof -
  let ?env = "idle_env (lambda_store NewDataStore) True ''lambda''"
  obtain resp l s' where r: "lambda_default ?env post_abc (new_server 0) = Some (Inr (resp, l, s'))"
    using idle_lambda by blast
  have "hStore ?env = lambda_store NewDataStore" "envProto (hExec ?env) = ''lambda''"
    by (simp_all add: idle_env_def)
  from lambda_never_sends [OF this r] have "sent (cpuRes s') = []"
    by (simp add: new_server_def NewResourceUsage_def)
  with r show ?thesis by blast
qed

end
