(* ===== verification/ConnInv.thy ===== *)
theory ConnInv
  imports Conns
begin

text \<open>
  What holds of the connection counters in every run: the events of the servers and handlers as a
  step relation, and its invariants.
\<close>

section \<open>Events\<close>

datatype conn_event =
    HttpNew nat net_conn
  | HttpState nat http_state
  | GrpcAccept nat net_conn
  | GrpcClose nat
  | H2cStart string
  | H2cEnd string
  | RequestStart "string list" string
  | RequestEnd string
  | Disconnect "string list" string string bool

fun conn_exec :: "int \<Rightarrow> int64 \<Rightarrow> conn_event \<Rightarrow> net_state \<Rightarrow> net_state res" where
  "conn_exec pi now (HttpNew c conn) w =
     Inr (OnStateChange pi now c StateNew (w\<lparr>heap := (heap w)(c \<mapsto> conn)\<rparr>))"
| "conn_exec pi now (HttpState c st) w = Inr (OnStateChange pi now c st w)"
| "conn_exec pi now (GrpcAccept c conn) w = Inr (Accept now c (w\<lparr>heap := (heap w)(c \<mapsto> conn)\<rparr>))"
| "conn_exec pi now (GrpcClose c) w = Inr (tracked_Close now c w)"
| "conn_exec pi now (H2cStart addr) w = Inr (h2c_start now addr w)"
| "conn_exec pi now (H2cEnd ip) w = Inr (h2c_end now ip w)"
| "conn_exec pi now (RequestStart ks addr) w =
     res_bind (handler_start now ks addr w) (\<lambda>(r, w). Inr w)"
| "conn_exec pi now (RequestEnd ip) w = active_end now ip w"
| "conn_exec pi now (Disconnect ks addr proto force) w = disconnect now ks addr proto force w"

section \<open>Sums over the remote nodes\<close>

definition counters_agree :: "net_state \<Rightarrow> bool" where
  "counters_agree w =
     (finite (dom (remoteNodes w)) \<and>
      total w = nodes_sum totalConns (remoteNodes w) \<and>
      active w = nodes_sum activeConns (remoteNodes w))"

lemma count_total_fields [simp]:
  "heap (count_total now ip d w) = heap w" "csMaps (count_total now ip d w) = csMaps w"
  "total (count_total now ip d w) = total w + d" "active (count_total now ip d w) = active w"
  "h2cConns (count_total now ip d w) = h2cConns w" "handlers (count_total now ip d w) = handlers w"
  "dom (remoteNodes (count_total now ip d w)) = insert ip (dom (remoteNodes w))"
  by (simp_all add: count_total_def)

lemma counters_agree_upd [simp]:
  "counters_agree (w\<lparr>heap := h\<rparr>) = counters_agree w"
  "counters_agree (w\<lparr>csMaps := m\<rparr>) = counters_agree w"
  "counters_agree (w\<lparr>h2cConns := xs\<rparr>) = counters_agree w"
  "counters_agree (w\<lparr>handlers := xs\<rparr>) = counters_agree w"
  by (simp_all add: counters_agree_def)

lemma counters_agree_count_total [simp]:
  "counters_agree w \<Longrightarrow> counters_agree (count_total now ip d w)"
  by (simp add: counters_agree_def count_total_def sum_rnm_addTotalConns)

lemma counters_agree_OnStateChange [simp]:
  "counters_agree w \<Longrightarrow> counters_agree (OnStateChange pi now c st w)"
  by (auto simp: OnStateChange_def Let_def split: option.splits http_state.splits)

lemma counters_agree_once_count [simp]:
  "counters_agree w \<Longrightarrow> counters_agree (once_count now addr c w)"
  by (simp add: once_count_def)

lemma counters_agree_active:
  assumes "counters_agree w"
  shows "active_start now addr w = Inr w' \<Longrightarrow> counters_agree w'"
    and "active_end now ip w = Inr w' \<Longrightarrow> counters_agree w'"
  using assms
  by (auto simp: active_start_def active_end_def Let_def res_bind_Inr counters_agree_def
      dest: sum_rnm_addActiveConns [rotated])

lemma counters_agree_disconnect_close:
  "counters_agree w \<Longrightarrow> disconnect_close now ks addr proto force w = Inr (w', dec) \<Longrightarrow> counters_agree w'"
  by (auto simp: disconnect_close_def Let_def res_bind_Inr split: option.splits if_splits)

lemma counters_agree_disconnect_count [simp]:
  "counters_agree w \<Longrightarrow> counters_agree (disconnect_count now addr dec w)"
  by (auto simp: disconnect_count_def Let_def split: option.splits)

lemma counters_agree_exec:
  assumes "counters_agree w" and "conn_exec pi now ev w = Inr w'"
  shows "counters_agree w'"
  using assms
  by (cases ev)
    (auto simp: Accept_def tracked_Close_def h2c_start_def h2c_end_def handler_start_def
      disconnect_def Let_def res_bind_Inr split: prod.splits
      dest: counters_agree_active(2) counters_agree_active(1) [rotated] counters_agree_disconnect_close)

section \<open>What the total counts\<close>

definition http_live :: "net_state \<Rightarrow> string set" where
  "http_live w = {k. \<exists>cs. csMaps w k = Some cs \<and>
     \<not> tracked (conn_of w (csConn cs)) \<and> curState cs \<noteq> StateHijacked}"

definition grpc_live :: "net_state \<Rightarrow> nat set" where
  "grpc_live w = {c. \<exists>conn. heap w c = Some conn \<and> tracked conn \<and> \<not> onceDone conn}"

definition conn_wf :: "net_state \<Rightarrow> bool" where
  "conn_wf w =
     (finite (dom (csMaps w)) \<and> finite (dom (heap w)) \<and>
      (\<forall>k cs. csMaps w k = Some cs \<longrightarrow>
         (\<exists>conn. heap w (csConn cs) = Some conn \<and> key_of conn = k \<and> curState cs \<noteq> StateClosed)) \<and>
      (\<forall>c conn. heap w c = Some conn \<longrightarrow> plain_addr (remoteAddr conn)))"

definition live_count :: "net_state \<Rightarrow> nat" where
  "live_count w = card (http_live w) + card (grpc_live w) + length (h2cConns w)"

definition conn_exact :: "net_state \<Rightarrow> bool" where
  "conn_exact w = (conn_wf w \<and> total w = of_nat (live_count w))"

text \<open>What the servers and the network guarantee about the next event.\<close>

definition serves :: "net_state \<Rightarrow> string \<Rightarrow> conn_state \<Rightarrow> bool" where
  "serves w proto cs =
     (if is_grpc_proto proto then tracked (conn_of w (csConn cs))
      else \<not> tracked (conn_of w (csConn cs)) \<and> (curState cs = StateHijacked) = (proto = ''h2c''))"

fun allowed :: "conn_event \<Rightarrow> net_state \<Rightarrow> bool" where
  "allowed (HttpNew c conn) w =
     (heap w c = None \<and> \<not> tracked conn \<and> plain_addr (remoteAddr conn) \<and> key_of conn \<notin> http_live w)"
| "allowed (HttpState c st) w =
     (st \<noteq> StateNew \<and> heap w c \<noteq> None \<and> \<not> tracked (conn_of w c) \<and>
      (case csMaps w (key_of (conn_of w c)) of
         None \<Rightarrow> True | Some cs \<Rightarrow> csConn cs = c \<and> curState cs \<noteq> StateHijacked))"
| "allowed (GrpcAccept c conn) w =
     (heap w c = None \<and> plain_addr (remoteAddr conn) \<and> key_of conn \<notin> http_live w)"
| "allowed (GrpcClose c) w = (heap w c \<noteq> None \<and> tracked (conn_of w c))"
| "allowed (H2cStart addr) w = True"
| "allowed (H2cEnd ip) w = (ip \<in> set (h2cConns w))"
| "allowed (RequestStart ks addr) w = (set ks = dom (csMaps w))"
| "allowed (RequestEnd ip) w = (ip \<in> set (handlers w))"
| "allowed (Disconnect ks addr proto force) w =
     (set ks = dom (csMaps w) \<and> plain_addr addr \<and>
      list_all (\<lambda>k. prefix (addr @ arrow) k \<longrightarrow> serves w proto (the (csMaps w k))) ks)"

inductive conn_step :: "int \<Rightarrow> net_state \<Rightarrow> net_state \<Rightarrow> bool" for pi where
  "allowed ev w \<Longrightarrow> conn_exec pi now ev w = Inr w' \<Longrightarrow> conn_step pi w w'"

subsection \<open>The live connections under each change of the state\<close>

definition same_conn :: "net_conn \<Rightarrow> net_conn \<Rightarrow> bool" where
  "same_conn a b = (remoteAddr a = remoteAddr b \<and> localAddr a = localAddr b \<and>
     tracked a = tracked b \<and> onceDone a = onceDone b)"

lemma live_upd [simp]:
  "http_live (count_total now ip d w) = http_live w"
  "http_live (w\<lparr>h2cConns := xs\<rparr>) = http_live w"
  "http_live (w\<lparr>handlers := xs\<rparr>) = http_live w"
  "http_live (w\<lparr>active := a\<rparr>) = http_live w"
  "http_live (w\<lparr>remoteNodes := m\<rparr>) = http_live w"
  "grpc_live (count_total now ip d w) = grpc_live w"
  "grpc_live (w\<lparr>h2cConns := xs\<rparr>) = grpc_live w"
  "grpc_live (w\<lparr>handlers := xs\<rparr>) = grpc_live w"
  "grpc_live (w\<lparr>active := a\<rparr>) = grpc_live w"
  "grpc_live (w\<lparr>remoteNodes := m\<rparr>) = grpc_live w"
  "grpc_live (w\<lparr>csMaps := cm\<rparr>) = grpc_live w"
  by (simp_all add: http_live_def grpc_live_def conn_of_def)

lemma wf_upd [simp]:
  "conn_wf (count_total now ip d w) = conn_wf w"
  "conn_wf (w\<lparr>h2cConns := xs\<rparr>) = conn_wf w"
  "conn_wf (w\<lparr>handlers := xs\<rparr>) = conn_wf w"
  "conn_wf (w\<lparr>active := a\<rparr>) = conn_wf w"
  "conn_wf (w\<lparr>remoteNodes := m\<rparr>) = conn_wf w"
  by (simp_all add: conn_wf_def)

lemma conn_of_upd [simp]:
  "conn_of (count_total now ip d w) = conn_of w"
  "conn_of (w\<lparr>csMaps := cm\<rparr>) = conn_of w"
  "conn_of (w\<lparr>heap := (heap w)(c \<mapsto> conn)\<rparr>) c' = (if c' = c then conn else conn_of w c')"
  by (auto simp: conn_of_def fun_eq_iff)

lemma finite_live:
  assumes "conn_wf w"
  shows "finite (http_live w)" and "finite (grpc_live w)"
proof -
  have "http_live w \<subseteq> dom (csMaps w)" and "grpc_live w \<subseteq> dom (heap w)"
    by (auto simp: http_live_def grpc_live_def)
  with assms show "finite (http_live w)" and "finite (grpc_live w)"
    by (auto simp: conn_wf_def dest: finite_subset)
qed

lemma wf_heap:
  assumes "heap w c = Some conn" and "remoteAddr conn' = remoteAddr conn" and "localAddr conn' = localAddr conn"
  shows "conn_wf (w\<lparr>heap := (heap w)(c \<mapsto> conn')\<rparr>) = conn_wf w"
proof -
  have "key_of conn' = key_of conn" using assms by (simp add: key_of_def)
  then have "(\<exists>x. ((heap w)(c \<mapsto> conn')) d = Some x \<and> key_of x = k \<and> P) \<longleftrightarrow>
      (\<exists>x. heap w d = Some x \<and> key_of x = k \<and> P)" for d k P
    using assms(1) by simp
  moreover have "(\<forall>d x. ((heap w)(c \<mapsto> conn')) d = Some x \<longrightarrow> plain_addr (remoteAddr x)) \<longleftrightarrow>
      (\<forall>d x. heap w d = Some x \<longrightarrow> plain_addr (remoteAddr x))"
    using assms by (metis (full_types) fun_upd_apply option.inject)
  ultimately show ?thesis by (simp add: conn_wf_def)
qed

lemma heap_same_conn:
  assumes "heap w c = Some conn" and "same_conn conn conn'"
  shows "http_live (w\<lparr>heap := (heap w)(c \<mapsto> conn')\<rparr>) = http_live w"
    and "grpc_live (w\<lparr>heap := (heap w)(c \<mapsto> conn')\<rparr>) = grpc_live w"
    and "conn_wf (w\<lparr>heap := (heap w)(c \<mapsto> conn')\<rparr>) = conn_wf w"
proof -
  have conn: "conn_of w c = conn" using assms(1) by (simp add: conn_of_def)
  show "http_live (w\<lparr>heap := (heap w)(c \<mapsto> conn')\<rparr>) = http_live w"
    using assms(2) conn by (auto simp: http_live_def same_conn_def)
  show "grpc_live (w\<lparr>heap := (heap w)(c \<mapsto> conn')\<rparr>) = grpc_live w"
    using assms by (auto simp: grpc_live_def same_conn_def)
  show "conn_wf (w\<lparr>heap := (heap w)(c \<mapsto> conn')\<rparr>) = conn_wf w"
    using assms by (intro wf_heap [OF assms(1)]) (simp_all add: same_conn_def)
qed

lemma of_nat_card_insert:
  "finite A \<Longrightarrow> of_nat (card (insert a A)) = (of_nat (card A) + (if a \<in> A then 0 else 1) :: int64)"
  by (simp add: card_insert_if add.commute)

lemma of_nat_card_remove:
  assumes "finite A"
  shows "of_nat (card (A - {a})) = (of_nat (card A) - (if a \<in> A then 1 else 0) :: int64)"
proof (cases "a \<in> A")
  case True
  then have "card A = Suc (card (A - {a}))" using assms by (rule card.remove [rotated])
  with True show ?thesis by simp
qed simp

text \<open>How far the total is ahead of the live connections; zero between events.\<close>

definition conn_gap :: "net_state \<Rightarrow> int64 \<Rightarrow> bool" where
  "conn_gap w d = (conn_wf w \<and> total w = of_nat (live_count w) + d)"

lemma conn_exact_gap: "conn_exact w \<longleftrightarrow> conn_gap w 0"
  by (simp add: conn_exact_def conn_gap_def)

lemma gap_count: "conn_gap w d \<Longrightarrow> conn_gap (count_total now ip e w) (d + e)"
  by (simp add: conn_gap_def live_count_def)

lemma gap_fields:
  "conn_gap w d \<Longrightarrow> conn_gap (w\<lparr>handlers := xs\<rparr>) d"
  "conn_gap w d \<Longrightarrow> conn_gap (w\<lparr>active := a\<rparr>) d"
  "conn_gap w d \<Longrightarrow> conn_gap (w\<lparr>remoteNodes := m\<rparr>) d"
  by (simp_all add: conn_gap_def live_count_def)

lemma http_live_put:
  "http_live (w\<lparr>csMaps := (csMaps w)(k \<mapsto> cs)\<rparr>) =
    (if \<not> tracked (conn_of w (csConn cs)) \<and> curState cs \<noteq> StateHijacked
     then insert k (http_live w) else http_live w - {k})"
  by (auto simp: http_live_def)

lemma gap_put:
  assumes "conn_gap w d" and "heap w (csConn cs) = Some conn" and "key_of conn = k"
    and "curState cs \<noteq> StateClosed"
  shows "conn_gap (w\<lparr>csMaps := (csMaps w)(k \<mapsto> cs)\<rparr>)
    (d + (if k \<in> http_live w then 1 else 0) -
     (if \<not> tracked conn \<and> curState cs \<noteq> StateHijacked then 1 else 0))"
proof -
  have wf: "conn_wf w" using assms(1) by (simp add: conn_gap_def)
  have "conn_of w (csConn cs) = conn" using assms(2) by (simp add: conn_of_def)
  moreover have "conn_wf (w\<lparr>csMaps := (csMaps w)(k \<mapsto> cs)\<rparr>)"
    using wf assms(2-4) by (simp add: conn_wf_def)
  ultimately show ?thesis
    using assms(1) finite_live [OF wf]
    by (simp add: conn_gap_def live_count_def http_live_put of_nat_card_insert of_nat_card_remove)
qed

lemma gap_del:
  assumes "conn_gap w d"
  shows "conn_gap (w\<lparr>csMaps := csm_del k (csMaps w)\<rparr>) (d + (if k \<in> http_live w then 1 else 0))"
proof -
  have wf: "conn_wf w" using assms(1) by (simp add: conn_gap_def)
  have "http_live (w\<lparr>csMaps := csm_del k (csMaps w)\<rparr>) = http_live w - {k}"
    by (auto simp: http_live_def csm_del_def)
  moreover have "conn_wf (w\<lparr>csMaps := csm_del k (csMaps w)\<rparr>)"
    using wf by (simp add: conn_wf_def csm_del_def)
  ultimately show ?thesis
    using assms(1) finite_live [OF wf]
    by (simp add: conn_gap_def live_count_def of_nat_card_remove)
qed

lemma wf_entry:
  assumes "conn_wf w" and "csMaps w k = Some cs"
  obtains conn where "heap w (csConn cs) = Some conn" and "key_of conn = k" and "curState cs \<noteq> StateClosed"
  using assms by (auto simp: conn_wf_def)

lemma gap_alloc:
  assumes "conn_gap w d" and "heap w c = None" and "plain_addr (remoteAddr conn)"
  shows "conn_gap (w\<lparr>heap := (heap w)(c \<mapsto> conn)\<rparr>) (d - (if tracked conn \<and> \<not> onceDone conn then 1 else 0))"
    and "http_live (w\<lparr>heap := (heap w)(c \<mapsto> conn)\<rparr>) = http_live w"
proof -
  have wf: "conn_wf w" using assms(1) by (simp add: conn_gap_def)
  then have ne: "csMaps w k = Some cs \<Longrightarrow> csConn cs \<noteq> c" for k cs
    using assms(2) by (auto elim: wf_entry)
  then show h: "http_live (w\<lparr>heap := (heap w)(c \<mapsto> conn)\<rparr>) = http_live w"
    by (auto simp: http_live_def)
  have c: "c \<notin> grpc_live w" using assms(2) by (simp add: grpc_live_def)
  have g: "grpc_live (w\<lparr>heap := (heap w)(c \<mapsto> conn)\<rparr>) =
      (if tracked conn \<and> \<not> onceDone conn then insert c (grpc_live w) else grpc_live w)"
    using assms(2) by (auto simp: grpc_live_def)
  have "conn_wf (w\<lparr>heap := (heap w)(c \<mapsto> conn)\<rparr>)"
    using wf ne assms(3) by (simp add: conn_wf_def)
  then show "conn_gap (w\<lparr>heap := (heap w)(c \<mapsto> conn)\<rparr>) (d - (if tracked conn \<and> \<not> onceDone conn then 1 else 0))"
    using assms(1) finite_live [OF wf] c
    by (simp add: conn_gap_def live_count_def h g)
qed

lemma gap_same:
  assumes "conn_gap w d" and "heap w c = Some conn" and "same_conn conn conn'"
  shows "conn_gap (w\<lparr>heap := (heap w)(c \<mapsto> conn')\<rparr>) d"
  using assms heap_same_conn [OF assms(2,3)] by (simp add: conn_gap_def live_count_def)

lemma gap_once:
  assumes "conn_gap w d" and "heap w c = Some conn" and "tracked conn" and "\<not> onceDone conn"
  shows "conn_gap (w\<lparr>heap := (heap w)(c \<mapsto> conn\<lparr>onceDone := True\<rparr>)\<rparr>) (d + 1)"
    and "http_live (w\<lparr>heap := (heap w)(c \<mapsto> conn\<lparr>onceDone := True\<rparr>)\<rparr>) = http_live w"
proof -
  have wf: "conn_wf w" using assms(1) by (simp add: conn_gap_def)
  have conn: "conn_of w c = conn" using assms(2) by (simp add: conn_of_def)
  show h: "http_live (w\<lparr>heap := (heap w)(c \<mapsto> conn\<lparr>onceDone := True\<rparr>)\<rparr>) = http_live w"
    using conn assms(3) by (auto simp: http_live_def)
  have c: "c \<in> grpc_live w" using assms(2-4) by (simp add: grpc_live_def)
  have g: "grpc_live (w\<lparr>heap := (heap w)(c \<mapsto> conn\<lparr>onceDone := True\<rparr>)\<rparr>) = grpc_live w - {c}"
    using assms(2) by (auto simp: grpc_live_def)
  obtain n where n: "card (grpc_live w) = Suc n"
    using c finite_live(2) [OF wf] by (cases "card (grpc_live w)") auto
  have "conn_wf (w\<lparr>heap := (heap w)(c \<mapsto> conn\<lparr>onceDone := True\<rparr>)\<rparr>)"
    using wf wf_heap [OF assms(2)] by simp
  then show "conn_gap (w\<lparr>heap := (heap w)(c \<mapsto> conn\<lparr>onceDone := True\<rparr>)\<rparr>) (d + 1)"
    using assms(1) finite_live [OF wf] c n
    by (simp add: conn_gap_def live_count_def h g)
qed

lemma gap_h2c:
  assumes "conn_gap w d"
  shows "conn_gap (w\<lparr>h2cConns := ip # h2cConns w\<rparr>) (d - 1)"
    and "ip \<in> set (h2cConns w) \<Longrightarrow> conn_gap (w\<lparr>h2cConns := remove1 ip (h2cConns w)\<rparr>) (d + 1)"
proof -
  show "conn_gap (w\<lparr>h2cConns := ip # h2cConns w\<rparr>) (d - 1)"
    using assms by (simp add: conn_gap_def live_count_def)
  assume ip: "ip \<in> set (h2cConns w)"
  then have "length (h2cConns w) = Suc (length (remove1 ip (h2cConns w)))"
    by (simp add: length_remove1) (metis Suc_pred length_pos_if_in_set One_nat_def)
  then show "conn_gap (w\<lparr>h2cConns := remove1 ip (h2cConns w)\<rparr>) (d + 1)"
    using assms by (simp add: conn_gap_def live_count_def)
qed

subsection \<open>Each event\<close>

lemma csm_set_over [simp]:
  "csm_set k c (csm_del k m) = csm_set k c m"
  by (simp add: csm_set_def csm_del_def)

lemma http_live_entry:
  "csMaps w k = Some cs \<Longrightarrow> heap w (csConn cs) = Some conn \<Longrightarrow>
   k \<in> http_live w \<longleftrightarrow> \<not> tracked conn \<and> curState cs \<noteq> StateHijacked"
  by (simp add: http_live_def conn_of_def)

lemma same_conn_fields [simp]:
  "same_conn conn (set_keepalive pi conn)"
  "same_conn conn (conn\<lparr>connOpen := b\<rparr>)"
  "close_kind force conn = Inr conn' \<Longrightarrow> same_conn conn conn'"
  "closeConnection force conn = Inr conn' \<Longrightarrow> same_conn conn conn'"
  by (auto simp: same_conn_def set_keepalive_def closeConnection_def close_kind_def close_raw_def
      split: conn_kind.splits if_splits)

lemma exact_HttpNew:
  assumes "conn_gap w 0" and "allowed (HttpNew c conn) w"
  shows "conn_gap (OnStateChange pi now c StateNew (w\<lparr>heap := (heap w)(c \<mapsto> conn)\<rparr>)) 0"
proof -
  let ?w1 = "w\<lparr>heap := (heap w)(c \<mapsto> conn)\<rparr>" and ?k = "key_of conn"
  let ?cs = "\<lparr>csConn = c, reuse = -1, prevState = StateNew, curState = StateNew\<rparr>"
  have "conn_gap ?w1 0" and "?k \<notin> http_live ?w1"
    using gap_alloc [OF assms(1), of c conn] assms(2) by simp_all
  then have "conn_gap (?w1\<lparr>csMaps := (csMaps ?w1)(?k \<mapsto> ?cs)\<rparr>) (-1)"
    using gap_put [of ?w1 0 ?cs conn ?k] assms(2) by simp
  from gap_same [OF gap_count [OF this, of now "extractIPAddress (remoteAddr conn)" 1], of c conn "set_keepalive pi conn"]
  show ?thesis by (simp add: OnStateChange_def Let_def csm_set_def csm_del_def)
qed

lemma exact_HttpState:
  assumes "conn_gap w 0" and "allowed (HttpState c st) w"
  shows "conn_gap (OnStateChange pi now c st w) 0"
proof (cases "csMaps w (key_of (conn_of w c))")
  case None
  then show ?thesis using assms by (simp add: OnStateChange_def Let_def)
next
  case (Some cs)
  let ?k = "key_of (conn_of w c)"
  obtain conn where conn: "heap w c = Some conn" "conn_of w c = conn"
    using assms(2) by (auto simp: conn_of_def)
  have cs: "csConn cs = c" "curState cs \<noteq> StateHijacked" "\<not> tracked conn" "st \<noteq> StateNew"
    using assms(2) Some conn by simp_all
  then have live: "?k \<in> http_live w"
    using Some conn by (simp add: http_live_entry)
  have put: "conn_gap (w\<lparr>csMaps := (csMaps w)(?k \<mapsto> updateState st cs)\<rparr>)
      (if st = StateHijacked then 1 else 0)" if "st \<noteq> StateClosed"
    using gap_put [OF assms(1), of "updateState st cs" conn ?k] that cs conn live
    by (cases "st = StateHijacked") (simp_all add: updateState_def)
  show ?thesis
  proof (cases "st = StateClosed")
    case True
    let ?w1 = "count_total now (extractIPAddress (remoteAddr conn)) (-1) w"
    have "conn_gap (?w1\<lparr>csMaps := csm_del ?k (csMaps ?w1)\<rparr>) 0"
      using gap_del [OF gap_count [OF assms(1), of now "extractIPAddress (remoteAddr conn)" "-1"], of ?k] live
      by simp
    then show ?thesis
      using True Some conn
      by (simp add: OnStateChange_def Let_def count_total_def csm_del_def)
  next
    case False
    with put cs(4) Some conn gap_count [OF put [OF False], of now _ "-1"] show ?thesis
      by (cases st) (simp_all add: OnStateChange_def Let_def)
  qed
qed

lemma exact_Accept:
  assumes "conn_gap w 0" and "allowed (GrpcAccept c conn) w"
  shows "conn_gap (Accept now c (w\<lparr>heap := (heap w)(c \<mapsto> conn)\<rparr>)) 0"
proof -
  let ?conn = "conn\<lparr>tracked := True, onceDone := False\<rparr>" and ?k = "key_of conn"
  let ?w1 = "w\<lparr>heap := (heap w)(c \<mapsto> ?conn)\<rparr>"
  let ?cs = "\<lparr>csConn = c, reuse = -1, prevState = StateNew, curState = StateNew\<rparr>"
  have "conn_gap ?w1 (-1)" and "?k \<notin> http_live ?w1"
    using gap_alloc [OF assms(1), of c ?conn] assms(2) by simp_all
  then have "conn_gap (?w1\<lparr>csMaps := (csMaps ?w1)(?k \<mapsto> ?cs)\<rparr>) (-1)"
    using gap_put [of ?w1 "-1" ?cs ?conn ?k] by (simp add: key_of_def)
  from gap_count [OF this, of now "extractIPAddress (remoteAddr conn)" 1]
  show ?thesis by (simp add: Accept_def Let_def csm_set_def csm_del_def)
qed

lemma gap_once_count:
  assumes "conn_gap w 0" and "heap w c = Some conn" and "tracked conn"
  shows "conn_gap (once_count now addr c w) 0"
    and "http_live (once_count now addr c w) = http_live w"
    and "\<exists>conn'. heap (once_count now addr c w) c = Some conn' \<and> tracked conn'"
  using assms gap_once [OF assms] gap_count [OF gap_once(1) [OF assms], of now _ "-1"]
  by (auto simp: once_count_def conn_of_def)

lemma exact_GrpcClose:
  assumes "conn_gap w 0" and "allowed (GrpcClose c) w"
  shows "conn_gap (tracked_Close now c w) 0"
proof -
  obtain conn where "heap w c = Some conn" "tracked conn"
    using assms(2) by (auto simp: conn_of_def)
  note once = gap_once_count [OF assms(1) this, of now "remoteAddr (conn_of w c)"]
  then obtain conn' where conn': "heap (once_count now (remoteAddr (conn_of w c)) c w) c = Some conn'"
    by auto
  then show ?thesis
    using gap_same [OF once(1) conn', of "conn'\<lparr>connOpen := False\<rparr>"]
    by (simp add: tracked_Close_def Let_def conn_of_def)
qed

lemma getByRemoteAddr_Some:
  "getByRemoteAddr ks addr = Some k \<Longrightarrow> k \<in> set ks \<and> prefix (addr @ arrow) k"
  by (auto simp: getByRemoteAddr_def find_Some_iff)

lemma gap_bump_reuse:
  assumes "conn_gap w 0" and "set ks = dom (csMaps w)"
  shows "conn_gap (w\<lparr>csMaps := snd (bump_reuse ks addr (csMaps w))\<rparr>) 0"
proof (cases "getByRemoteAddr ks addr")
  case None
  with assms(1) show ?thesis by (simp add: bump_reuse_def)
next
  case (Some k)
  then obtain cs where cs: "csMaps w k = Some cs"
    using getByRemoteAddr_Some [OF Some] assms(2) by auto
  then obtain conn where "heap w (csConn cs) = Some conn" "key_of conn = k" "curState cs \<noteq> StateClosed"
    using assms(1) by (auto simp: conn_gap_def elim: wf_entry)
  then show ?thesis
    using gap_put [OF assms(1), of "cs\<lparr>reuse := reuse cs + 1\<rparr>" conn k] cs Some
    by (simp add: bump_reuse_def Let_def http_live_entry)
qed

lemma gap_active:
  "conn_gap w d \<Longrightarrow> active_start now addr w = Inr w' \<Longrightarrow> conn_gap w' d"
  "conn_gap w d \<Longrightarrow> active_end now ip w = Inr w' \<Longrightarrow> conn_gap w' d"
  by (auto simp: active_start_def active_end_def Let_def res_bind_Inr intro!: gap_fields)

lemma exact_Disconnect:
  assumes "conn_gap w 0" and "allowed (Disconnect ks addr proto force) w"
    and "disconnect now ks addr proto force w = Inr w'"
  shows "conn_gap w' 0"
proof (cases "getByRemoteAddr ks addr")
  case None
  with assms show ?thesis by (simp add: disconnect_def disconnect_close_def disconnect_count_def)
next
  case (Some k)
  note k = getByRemoteAddr_Some [OF Some]
  then obtain cs where cs: "csMaps w k = Some cs" and serves: "serves w proto cs"
    using assms(2) by (force simp: list_all_iff)
  obtain conn where conn: "heap w (csConn cs) = Some conn" "key_of conn = k" "curState cs \<noteq> StateClosed"
    using assms(1) cs by (auto simp: conn_gap_def elim: wf_entry)
  then have "plain_addr (remoteAddr conn)"
    using assms(1) by (auto simp: conn_gap_def conn_wf_def)
  then have "addr = remoteAddr conn"
    using k conn(2) assms(2) by (auto simp: key_of_def connKey_prefix)
  with conn have key: "connKey addr (localAddr (conn_of w (csConn cs))) = k" and co: "conn_of w (csConn cs) = conn"
    by (simp_all add: key_of_def conn_of_def)
  show ?thesis
  proof (cases "is_grpc_proto proto")
    case True
    then have tr: "tracked conn" using serves co by (simp add: serves_def)
    define w1 where "w1 = once_count now addr (csConn cs) w"
    obtain conn1 where conn1: "heap w1 (csConn cs) = Some conn1" "tracked conn1"
      and gap1: "conn_gap w1 0" and live1: "http_live w1 = http_live w"
      using gap_once_count [OF assms(1) conn(1) tr, of now addr] by (auto simp: w1_def)
    obtain conn2 where conn2: "close_kind force conn1 = Inr conn2"
      and w': "w' = disconnect_count now addr (Some (k, False)) (w1\<lparr>heap := (heap w1)(csConn cs \<mapsto> conn2)\<rparr>)"
      using assms(3) True Some cs co key tr conn1
      by (auto simp: disconnect_def disconnect_close_def Let_def res_bind_Inr w1_def [symmetric] conn_of_def)
    have sc: "same_conn conn1 conn2" using conn2 by simp
    have "k \<notin> http_live (w1\<lparr>heap := (heap w1)(csConn cs \<mapsto> conn2)\<rparr>)"
      using live1 heap_same_conn(1) [OF conn1(1) sc] cs conn(1) tr by (simp add: http_live_entry)
    then show ?thesis
      using gap_del [OF gap_same [OF gap1 conn1(1) sc], of k] by (simp add: w' disconnect_count_def)
  next
    case False
    then have s: "\<not> tracked conn" "(curState cs = StateHijacked) = (proto = ''h2c'')"
      using serves co by (simp_all add: serves_def)
    then have live: "k \<in> http_live w \<longleftrightarrow> proto \<noteq> ''h2c''"
      using cs conn(1) by (simp add: http_live_entry)
    obtain conn2 where conn2: "closeConnection force conn = Inr conn2"
      and w': "w' = disconnect_count now addr (Some (k, proto \<noteq> ''h2c''))
        (w\<lparr>heap := (heap w)(csConn cs \<mapsto> conn2)\<rparr>)"
      using assms(3) False Some cs co key conn(3)
      by (auto simp: disconnect_def disconnect_close_def Let_def res_bind_Inr)
    have sc: "same_conn conn conn2" using conn2 by simp
    let ?w1 = "w\<lparr>heap := (heap w)(csConn cs \<mapsto> conn2)\<rparr>"
    have gap1: "conn_gap ?w1 0" and live1: "k \<in> http_live ?w1 \<longleftrightarrow> proto \<noteq> ''h2c''"
      using gap_same [OF assms(1) conn(1) sc] heap_same_conn(1) [OF conn(1) sc] live by simp_all
    then show ?thesis
      using gap_del [OF gap1, of k] gap_del [OF gap_count [OF gap1, of now "extractIPAddress addr" "-1"], of k]
      by (cases "proto = ''h2c''") (simp_all add: w' disconnect_count_def)
  qed
qed

lemma exact_exec:
  assumes "conn_exact w" and "allowed ev w" and "conn_exec pi now ev w = Inr w'"
  shows "conn_exact w'"
  unfolding conn_exact_gap
proof (cases ev)
  case (RequestStart ks addr)
  then show "conn_gap w' 0"
    using assms gap_bump_reuse [of w ks addr]
    by (auto simp: conn_exact_gap handler_start_def res_bind_Inr split: prod.splits intro: gap_active)
next
  case (H2cStart addr)
  then show "conn_gap w' 0"
    using assms gap_h2c(1) [OF gap_count, of w 0 "extractIPAddress addr" now "extractIPAddress addr" 1]
    by (auto simp: conn_exact_gap h2c_start_def Let_def)
next
  case (H2cEnd ip)
  then show "conn_gap w' 0"
    using assms gap_h2c(2) [OF gap_count, of w 0 ip now ip "-1"]
    by (auto simp: conn_exact_gap h2c_end_def Let_def)
qed (use assms in \<open>auto simp: conn_exact_gap simp del: allowed.simps
      intro: exact_HttpNew exact_HttpState exact_Accept exact_GrpcClose exact_Disconnect gap_active\<close>)

section \<open>Runs\<close>

text \<open>A run from the start, whatever the events: no guarantee on their order is asked for.\<close>

fun conn_run :: "int \<Rightarrow> (int64 \<times> conn_event) list \<Rightarrow> net_state \<Rightarrow> net_state res" where
  "conn_run pi [] w = Inr w"
| "conn_run pi ((now, ev) # evs) w = res_bind (conn_exec pi now ev w) (conn_run pi evs)"

lemma counters_agree_run:
  "counters_agree w \<Longrightarrow> conn_run pi evs w = Inr w' \<Longrightarrow> counters_agree w'"
proof (induction evs arbitrary: w)
  case (Cons ev evs)
  then show ?case
    using counters_agree_exec [of w pi "fst ev" "snd ev"] by (cases ev) (auto simp: res_bind_Inr)
qed simp

lemma counters_agree_init: "counters_agree net_init"
  by (simp add: counters_agree_def net_init_def nodes_sum_def)

lemma conn_exact_init: "conn_exact net_init"
  by (simp add: conn_exact_def net_init_def conn_wf_def live_count_def http_live_def grpc_live_def)

interpretation live: invariant_system "conn_step pi" conn_exact for pi
  by unfold_locales (auto elim!: conn_step.cases intro: exact_exec)

text \<open>The handlers that run, and the nodes they count at.\<close>

definition handlers_known :: "net_state \<Rightarrow> bool" where
  "handlers_known w =
     ((\<forall>c conn. heap w c = Some conn \<longrightarrow> extractIPAddress (remoteAddr conn) \<in> dom (remoteNodes w)) \<and>
      set (handlers w) \<subseteq> dom (remoteNodes w) \<and> active w = of_nat (length (handlers w)))"

lemma handlers_known_init: "handlers_known net_init"
  by (simp add: handlers_known_def net_init_def)

lemma handlers_known_upd [simp]:
  "handlers_known (w\<lparr>csMaps := m\<rparr>) = handlers_known w"
  "handlers_known (w\<lparr>h2cConns := xs\<rparr>) = handlers_known w"
  "handlers_known w \<Longrightarrow> handlers_known (count_total now ip d w)"
  by (auto simp: handlers_known_def)

lemma handlers_known_heap:
  "handlers_known w \<Longrightarrow> extractIPAddress (remoteAddr conn) \<in> dom (remoteNodes w) \<Longrightarrow> h = heap w \<Longrightarrow>
   handlers_known (w\<lparr>heap := h(c \<mapsto> conn)\<rparr>)"
  by (auto simp: handlers_known_def)

lemma handlers_known_OnStateChange:
  assumes "handlers_known w" and "extractIPAddress (remoteAddr (conn_of w c)) \<in> dom (remoteNodes w)"
  shows "handlers_known (OnStateChange pi now c st w)"
  using assms
  by (auto simp: OnStateChange_def Let_def set_keepalive_def handlers_known_heap
      split: option.splits http_state.splits)

lemma handlers_known_once_count:
  assumes "handlers_known w" and "heap w c = Some conn"
  shows "handlers_known (once_count now addr c w)"
proof -
  have "extractIPAddress (remoteAddr conn) \<in> dom (remoteNodes w)" "conn_of w c = conn"
    using assms by (auto simp: handlers_known_def conn_of_def)
  then show ?thesis
    using assms(1) by (simp add: once_count_def handlers_known_heap)
qed

lemma handlers_knownD:
  "handlers_known w \<Longrightarrow> heap w c = Some conn \<Longrightarrow> extractIPAddress (remoteAddr conn) \<in> dom (remoteNodes w)"
  by (auto simp: handlers_known_def)

lemma handlers_known_close:
  assumes "handlers_known w" and "heap w c = Some conn" and "same_conn conn conn'"
  shows "handlers_known (w\<lparr>heap := (heap w)(c \<mapsto> conn')\<rparr>)"
proof (rule handlers_known_heap)
  show "extractIPAddress (remoteAddr conn') \<in> dom (remoteNodes w)"
    using handlers_knownD [OF assms(1,2)] assms(3) by (simp only: same_conn_def)
qed (use assms in simp_all)

lemma active_fields:
  assumes "active_start now addr w = Inr w'"
  shows "heap w' = heap w" "csMaps w' = csMaps w" "dom (remoteNodes w') = dom (remoteNodes w)"
    "active w' = active w + 1" "handlers w' = extractIPAddress addr # handlers w"
    "extractIPAddress addr \<in> dom (remoteNodes w)"
  using assms
  by (auto simp: active_start_def rnm_addActiveConns_def Let_def split: option.splits if_splits)

lemma active_end_fields:
  assumes "active_end now ip w = Inr w'"
  shows "heap w' = heap w" "dom (remoteNodes w') = dom (remoteNodes w)"
    "active w' = active w - 1" "handlers w' = remove1 ip (handlers w)"
  using assms
  by (auto simp: active_end_def rnm_addActiveConns_def Let_def split: option.splits if_splits)

lemma length_remove1_in: "x \<in> set xs \<Longrightarrow> length xs = Suc (length (remove1 x xs))"
  by (simp add: length_remove1) (metis Suc_pred length_pos_if_in_set One_nat_def)

lemma handlers_known_active:
  assumes "handlers_known w"
  shows "active_start now addr w = Inr w' \<Longrightarrow> handlers_known w'"
    and "ip \<in> set (handlers w) \<Longrightarrow> active_end now ip w = Inr w' \<Longrightarrow> handlers_known w'"
proof -
  assume "active_start now addr w = Inr w'"
  from active_fields [OF this] assms show "handlers_known w'"
    by (simp add: handlers_known_def)
next
  assume ip: "ip \<in> set (handlers w)" and "active_end now ip w = Inr w'"
  from active_end_fields [OF this(2)] length_remove1_in [OF ip] assms show "handlers_known w'"
    using set_remove1_subset [of ip "handlers w"] by (auto simp: handlers_known_def)
qed

lemma heap_once_count: "heap w c = Some conn \<Longrightarrow> \<exists>conn1. heap (once_count now addr c w) c = Some conn1"
  by (simp add: once_count_def)

lemma handlers_known_disconnect:
  assumes "handlers_known w" and "conn_wf w" and "set ks = dom (csMaps w)"
    and "disconnect now ks addr proto force w = Inr w'"
  shows "handlers_known w'"
proof (cases "getByRemoteAddr ks addr")
  case None
  with assms show ?thesis by (simp add: disconnect_def disconnect_close_def disconnect_count_def)
next
  case (Some k)
  then obtain cs where cs: "csMaps w k = Some cs"
    using getByRemoteAddr_Some [OF Some] assms(3) by auto
  then obtain conn where conn: "heap w (csConn cs) = Some conn"
    using assms(2) by (auto elim: wf_entry)
  let ?w1 = "once_count now addr (csConn cs) w"
  have w1: "handlers_known ?w1"
    using handlers_known_once_count [OF assms(1) conn] .
  obtain conn1 where conn1: "heap ?w1 (csConn cs) = Some conn1"
    using heap_once_count conn by blast
  have count: "handlers_known (disconnect_count now addr d v)" if "handlers_known v" for v d
    using that by (auto simp: disconnect_count_def split: option.splits)
  show ?thesis
    using assms(1,4) Some cs conn w1 conn1
      handlers_known_close [OF assms(1) conn] handlers_known_close [OF w1 conn1]
    by (auto simp: disconnect_def disconnect_close_def Let_def res_bind_Inr conn_of_def split: if_splits
        intro!: count)
qed

lemma handlers_known_exec:
  assumes "handlers_known w" and "conn_wf w" and "allowed ev w" and "conn_exec pi now ev w = Inr w'"
  shows "handlers_known w'"
proof (cases ev)
  case (HttpNew c conn)
  let ?ip = "extractIPAddress (remoteAddr conn)"
  have "csm_set (key_of conn) c
      (if csMaps w (key_of conn) \<noteq> None then csm_del (key_of conn) (csMaps w) else csMaps w) =
      csm_set (key_of conn) c (csMaps w)"
    by simp
  then have "w' = (count_total now ?ip 1 w)\<lparr>csMaps := csm_set (key_of conn) c (csMaps w),
      heap := (heap w)(c \<mapsto> set_keepalive pi conn)\<rparr>"
    using assms(4) HttpNew by (auto simp: OnStateChange_def Let_def count_total_def)
  moreover have "remoteAddr (set_keepalive pi conn) = remoteAddr conn" by (simp add: set_keepalive_def)
  ultimately show ?thesis using assms(1) by (simp add: handlers_known_heap)
next
  case (GrpcAccept c conn)
  let ?ip = "extractIPAddress (remoteAddr conn)"
  have "w' = (count_total now ?ip 1 w)\<lparr>csMaps := csm_set (key_of conn) c (csMaps w),
      heap := (heap w)(c \<mapsto> conn\<lparr>tracked := True, onceDone := False\<rparr>)\<rparr>"
    using assms(4) GrpcAccept by (auto simp: Accept_def Let_def count_total_def)
  then show ?thesis using assms(1) by (simp add: handlers_known_heap)
next
  case (GrpcClose c)
  then obtain conn where conn: "heap w c = Some conn" using assms(3) by auto
  let ?w1 = "once_count now (remoteAddr (conn_of w c)) c w"
  obtain conn1 where "heap ?w1 c = Some conn1" using heap_once_count conn by blast
  then show ?thesis
    using GrpcClose assms(4) handlers_known_close [OF handlers_known_once_count [OF assms(1) conn]]
    by (auto simp: tracked_Close_def Let_def conn_of_def)
next
  case (HttpState c st)
  then have "extractIPAddress (remoteAddr (conn_of w c)) \<in> dom (remoteNodes w)"
    using assms(1,3) by (auto simp: handlers_known_def conn_of_def)
  then show ?thesis
    using HttpState assms(1,4) by (auto intro: handlers_known_OnStateChange)
next
  case (Disconnect ks addr proto force)
  then show ?thesis using assms handlers_known_disconnect by auto
next
  case (RequestStart ks addr)
  then show ?thesis
    using assms(1,4) handlers_known_active(1) [of "w\<lparr>csMaps := snd (bump_reuse ks addr (csMaps w))\<rparr>"]
    by (auto simp: handler_start_def res_bind_Inr split: prod.splits)
qed (use assms in \<open>auto simp: h2c_start_def h2c_end_def Let_def intro: handlers_known_active\<close>)

definition conn_ok :: "net_state \<Rightarrow> bool" where
  "conn_ok w = (conn_exact w \<and> handlers_known w)"

interpretation known: invariant_system "conn_step pi" conn_ok for pi
proof unfold_locales
  fix w w' assume w: "conn_ok w" and "conn_step pi w w'"
  then obtain ev now where "allowed ev w" "conn_exec pi now ev w = Inr w'"
    by (auto elim: conn_step.cases)
  moreover have "conn_wf w" using w by (simp add: conn_ok_def conn_exact_def)
  ultimately show "conn_ok w'"
    using w exact_exec handlers_known_exec by (auto simp: conn_ok_def)
qed

lemma conn_ok_init: "conn_ok net_init"
  by (simp add: conn_ok_def conn_exact_init handlers_known_init)

lemma run_ok: "(conn_step pi)\<^sup>*\<^sup>* net_init w \<Longrightarrow> conn_ok w"
  using known.run_inv conn_ok_init by blast

end
