(* ===== verification/ConnProps.thy ===== *)
theory ConnProps
  imports ConnInv
begin

text \<open>
  The properties of the connection table and counters: what the counters count, the lookup by
  remote address, the numbering of a connection's requests, and what a disconnect does in the cases
  where it does not do what its caller expects.
\<close>

section \<open>A sample connection\<close>

definition tcp_conn :: "string \<Rightarrow> string \<Rightarrow> net_conn" where
  "tcp_conn remote local = \<lparr>remoteAddr = remote, localAddr = local, connKind = TCPConn,
     tracked = False, onceDone = False, keepAlive = KeepDefault, linger = None, connOpen = True\<rparr>"

definition client :: string where "client = ''192.0.2.7:50000''"
definition server80 :: string where "server80 = ''192.0.2.1:80''"
definition server_grpc :: string where "server_grpc = ''192.0.2.1:50051''"

lemma client_plain [simp]: "plain_addr client" "extractIPAddress client = ''192.0.2.7''"
  by (simp_all add: plain_addr_def client_def extractIPAddress_def split_single_Cons)

lemma tcp_conn_fields [simp]:
  "remoteAddr (tcp_conn r l) = r" "localAddr (tcp_conn r l) = l" "connKind (tcp_conn r l) = TCPConn"
  "\<not> tracked (tcp_conn r l)" "\<not> onceDone (tcp_conn r l)" "key_of (tcp_conn r l) = connKey r l"
  by (simp_all add: tcp_conn_def key_of_def)

text \<open>C9. Whatever happens, in whatever order: the server's two connection counters are the sums
  of the counters of its remote nodes, also where the 64-bit additions wrap around.\<close>

theorem counters_sum:
  assumes "conn_run pi evs net_init = Inr w"
  shows "total w = nodes_sum totalConns (remoteNodes w) \<and>
    active w = nodes_sum activeConns (remoteNodes w)"
  using counters_agree_run [OF counters_agree_init assms] by (simp add: counters_agree_def)

theorem counters_sum_witness:
  "\<exists>w. conn_run 15 [(0, HttpNew 1 (tcp_conn client server80)),
      (1, GrpcAccept 2 (tcp_conn client server_grpc)), (2, HttpState 1 StateHijacked)] net_init = Inr w \<and>
    total w = nodes_sum totalConns (remoteNodes w)"
proof -
  obtain w where w: "conn_run 15 [(0, HttpNew 1 (tcp_conn client server80)),
      (1, GrpcAccept 2 (tcp_conn client server_grpc)), (2, HttpState 1 StateHijacked)] net_init = Inr w"
    by simp
  with counters_sum [OF w] show ?thesis by blast
qed



text \<open>C10. No request handler panics on the remote node map: once a connection from an address was
  opened, a request from that address starts, and every running request ends.\<close>

theorem request_counting_total:
  assumes "(conn_step pi)\<^sup>*\<^sup>* net_init w"
  shows "(heap w c = Some conn \<longrightarrow> \<not> panics (handler_start now ks (remoteAddr conn) w)) \<and>
    (ip \<in> set (handlers w) \<longrightarrow> \<not> panics (active_end now ip w)) \<and>
    active w = of_nat (length (handlers w))"
proof -
  have hk: "handlers_known w" using run_ok [OF assms] by (simp add: conn_ok_def)
  have "\<not> panics (handler_start now ks (remoteAddr conn) w)" if "heap w c = Some conn"
    using handlers_knownD [OF hk that]
    by (auto simp: handler_start_def active_start_def rnm_addActiveConns_def Let_def split: prod.splits)
  moreover have "\<not> panics (active_end now ip w)" if "ip \<in> set (handlers w)"
    using hk that by (auto simp: active_end_def rnm_addActiveConns_def Let_def handlers_known_def split: option.splits)
  ultimately show ?thesis using hk by (simp add: handlers_known_def)
qed

theorem request_counting_total_witness:
  "\<not> panics (handler_start 0 [connKey client server80] client
     (OnStateChange 15 0 1 StateNew (net_init\<lparr>heap := (heap net_init)(1 \<mapsto> tcp_conn client server80)\<rparr>)))"
proof -
  let ?w = "OnStateChange 15 0 1 StateNew (net_init\<lparr>heap := (heap net_init)(1 \<mapsto> tcp_conn client server80)\<rparr>)"
  have "conn_step 15 net_init ?w"
    by (rule conn_step.intros [of "HttpNew 1 (tcp_conn client server80)" _ _ 0])
      (simp_all add: net_init_def http_live_def)
  moreover have "heap ?w 1 = Some (tcp_conn client server80)"
    by (simp add: OnStateChange_def Let_def conn_of_def set_keepalive_def)
  ultimately show ?thesis
    using request_counting_total [of 15 ?w 1 "tcp_conn client server80" 0 "[connKey client server80]"] by auto
qed

text \<open>C11. Looking a connection up by its remote address alone finds an entry exactly if the table
  has a connection with that address, and what it finds is one.\<close>

theorem getByRemoteAddr_correct:
  assumes "conn_wf w" and "set ks = dom (csMaps w)" and "plain_addr addr"
  shows "case getByRemoteAddr ks addr of
      None \<Rightarrow> \<forall>cs \<in> ran (csMaps w). remoteAddr (conn_of w (csConn cs)) \<noteq> addr
    | Some k \<Rightarrow> \<exists>cs. csMaps w k = Some cs \<and> remoteAddr (conn_of w (csConn cs)) = addr"
proof -
  have entry: "prefix (addr @ arrow) k \<longleftrightarrow> addr = remoteAddr (conn_of w (csConn cs))"
    if "csMaps w k = Some cs" for k cs
  proof -
    obtain conn where conn: "heap w (csConn cs) = Some conn" "key_of conn = k"
      using assms(1) \<open>csMaps w k = Some cs\<close> by (auto elim: wf_entry)
    moreover have "plain_addr (remoteAddr conn)"
      using assms(1) conn(1) by (auto simp: conn_wf_def)
    ultimately show ?thesis
      using connKey_prefix [OF assms(3)] by (auto simp: key_of_def conn_of_def)
  qed
  show ?thesis
  proof (cases "getByRemoteAddr ks addr")
    case None
    then have "\<forall>k \<in> dom (csMaps w). \<not> prefix (addr @ arrow) k"
      using assms(2) by (auto simp: getByRemoteAddr_def find_None_iff)
    with None entry show ?thesis by (force simp: ran_def)
  next
    case (Some k)
    with getByRemoteAddr_Some [OF Some] assms(2) entry show ?thesis by auto
  qed
qed

theorem getByRemoteAddr_correct_witness:
  "let w = net_init\<lparr>heap := [1 \<mapsto> tcp_conn client server80],
      csMaps := csm_set (connKey client server80) 1 Map.empty\<rparr>
   in getByRemoteAddr [connKey client server80] client \<noteq> None"
proof -
  let ?w = "net_init\<lparr>heap := [1 \<mapsto> tcp_conn client server80],
      csMaps := csm_set (connKey client server80) 1 Map.empty\<rparr>"
  have wf: "conn_wf ?w" by (simp add: conn_wf_def csm_set_def net_init_def)
  have "getByRemoteAddr [connKey client server80] client \<noteq> None"
  proof
    assume "getByRemoteAddr [connKey client server80] client = None"
    then have "\<forall>cs \<in> ran (csMaps ?w). remoteAddr (conn_of ?w (csConn cs)) \<noteq> client"
      using getByRemoteAddr_correct [OF wf, of "[connKey client server80]" client]
      by (simp add: csm_set_def net_init_def)
    moreover have "\<lparr>csConn = 1, reuse = -1, prevState = StateNew, curState = StateNew\<rparr> \<in> ran (csMaps ?w)"
      by (auto simp: csm_set_def ran_def)
    ultimately show False by (force simp: conn_of_def)
  qed
  then show ?thesis by simp
qed

text \<open>The reuse counts that a sequence of requests from one address is given.\<close>

fun bumps :: "string list \<Rightarrow> string \<Rightarrow> nat \<Rightarrow> conn_state_map \<Rightarrow> int64 list" where
  "bumps ks addr 0 m = []"
| "bumps ks addr (Suc n) m = (let (r, m) = bump_reuse ks addr m in r # bumps ks addr n m)"

lemma bumps_from:
  "getByRemoteAddr ks addr = Some k \<Longrightarrow> m k = Some cs \<Longrightarrow>
   bumps ks addr n m = map (\<lambda>i. reuse cs + of_nat i) [1..<Suc n]"
proof (induction n arbitrary: m cs)
  case (Suc n)
  let ?cs = "cs\<lparr>reuse := reuse cs + 1\<rparr>"
  have "bumps ks addr n (m(k \<mapsto> ?cs)) = map (\<lambda>i. reuse ?cs + of_nat i) [1..<Suc n]"
    by (rule Suc.IH [OF Suc.prems(1)]) simp
  moreover have "[1..<Suc (Suc n)] = 1 # map Suc [1..<Suc n]"
    by (simp add: map_Suc_upt upt_conv_Cons del: upt_Suc)
  ultimately show ?case
    using Suc.prems by (simp add: bump_reuse_def Let_def add.assoc del: upt_Suc)
qed simp

text \<open>The requests of a connection are numbered 0, 1, 2 and so on: the reuse count that the
  access log shows starts at 0 on a connection that was just registered, whatever the table held
  under its key before.\<close>

theorem reuse_numbers:
  assumes "getByRemoteAddr ks addr = Some (connKey addr local)"
    and "heap w c = Some conn" and "remoteAddr conn = addr" and "localAddr conn = local"
  shows "bumps ks addr n (csMaps (OnStateChange pi now c StateNew w)) = map of_nat [0..<n]"
proof -
  let ?cs = "\<lparr>csConn = c, reuse = -1, prevState = StateNew, curState = StateNew\<rparr>"
  have "csMaps (OnStateChange pi now c StateNew w) (connKey addr local) = Some ?cs"
    using assms by (simp add: OnStateChange_def Let_def csm_set_def conn_of_def key_of_def)
  with bumps_from [where n = n and m = "csMaps (OnStateChange pi now c StateNew w)" and cs = ?cs, OF assms(1)]
  show ?thesis
    by (simp add: map_Suc_upt [symmetric] del: upt_Suc)
qed

theorem reuse_numbers_witness:
  "bumps [connKey client server80] client 3
     (csMaps (OnStateChange 15 0 1 StateNew (net_init\<lparr>heap := [1 \<mapsto> tcp_conn client server80]\<rparr>))) = [0, 1, 2]"
  using reuse_numbers [of "[connKey client server80]" client server80
      "net_init\<lparr>heap := [1 \<mapsto> tcp_conn client server80]\<rparr>" 1 "tcp_conn client server80" 3 15 0]
  by (simp add: getByRemoteAddr_def connKey_def upt_rec)

text \<open>What \<open>disconnect\<close> does once it found an entry that is not a gRPC connection's.\<close>

lemma disconnect_close_http:
  assumes "getByRemoteAddr ks addr = Some k" and "csMaps w k = Some cs" and "\<not> is_grpc_proto proto"
    and "closeConnection force (conn_of w (csConn cs)) = Inr conn'"
  shows "disconnect_close now ks addr proto force w =
    Inr (w\<lparr>heap := (heap w)(csConn cs \<mapsto> conn')\<rparr>,
      Some (connKey addr (localAddr (conn_of w (csConn cs))), proto \<noteq> ''h2c'' \<and> curState cs \<noteq> StateClosed))"
  using assms by (simp add: disconnect_close_def Let_def)

text \<open>C12. The disconnect of an HTTP/2 connection races with the server closing it. Where the
  closed state is reported between the test of the connection's state and the count, the one
  connection is counted down twice; in either order without interleaving, once.\<close>

theorem disconnect_race:
  assumes "heap w c = Some conn" and "\<not> tracked conn" and "connKind conn = TLSConn True"
    and "key_of conn = connKey addr (localAddr conn)" and "remoteAddr conn = addr"
    and "getByRemoteAddr ks addr = Some (key_of conn)"
    and "csMaps w (key_of conn) = Some cs" and "csConn cs = c" and "curState cs \<noteq> StateClosed"
  shows "\<exists>w1 d. disconnect_close now ks addr ''h2'' force w = Inr (w1, d) \<and>
    total (disconnect_count now addr d (OnStateChange pi now c StateClosed w1)) = total w - 2 \<and>
    total (OnStateChange pi now c StateClosed (disconnect_count now addr d w1)) = total w - 1"
proof -
  have co: "conn_of w c = conn" using assms(1) by (simp add: conn_of_def)
  let ?w1 = "w\<lparr>heap := (heap w)(c \<mapsto> close_raw force conn)\<rparr>"
  have "closeConnection force conn = Inr (close_raw force conn)"
    using assms(2,3) by (simp add: closeConnection_def close_kind_def)
  then have d: "disconnect_close now ks addr ''h2'' force w = Inr (?w1, Some (key_of conn, True))"
    using disconnect_close_http [OF assms(6,7), of "''h2''"] assms(4,8,9) co
    by (simp add: is_grpc_proto_def)
  have k: "key_of (close_raw force conn) = key_of conn"
    by (simp add: key_of_def close_raw_def)
  have "total (disconnect_count now addr (Some (key_of conn, True)) (OnStateChange pi now c StateClosed ?w1)) = total w - 2"
    using assms(7) by (simp add: disconnect_count_def OnStateChange_def Let_def k)
  moreover have "total (OnStateChange pi now c StateClosed (disconnect_count now addr (Some (key_of conn, True)) ?w1)) = total w - 1"
    by (simp add: disconnect_count_def OnStateChange_def Let_def csm_del_def k)
  ultimately show ?thesis using d by blast
qed

text \<open>C13. A client that reuses its source port for an HTTP and a gRPC connection: where the table
  lookup happens to visit the gRPC entry first, the disconnect of the HTTP request closes no
  connection, yet counts one down and forgets the gRPC entry.\<close>

theorem disconnect_shared_port:
  assumes "getByRemoteAddr ks addr = Some k" and "csMaps w k = Some cs" and "heap w (csConn cs) = Some conn"
    and "tracked conn" and "remoteAddr conn = addr" and "key_of conn = k" and "curState cs = StateNew"
    and "proto \<in> {''http'', ''https'', ''h2''}"
  shows "\<exists>w'. disconnect now ks addr proto force w = Inr w' \<and> heap w' = heap w \<and>
    total w' = total w - 1 \<and> csMaps w' k = None"
proof -
  have co: "conn_of w (csConn cs) = conn" using assms(3) by (simp add: conn_of_def)
  have "\<not> is_grpc_proto proto" "proto \<noteq> ''h2c''" using assms(8) by (auto simp: is_grpc_proto_def)
  then show ?thesis
    using disconnect_close_http [OF assms(1,2), of proto force conn now] assms(3-7) co
    by (simp add: closeConnection_def disconnect_def disconnect_count_def csm_del_def key_of_def map_upd_triv)
qed

text \<open>C14. Behind the PROXY protocol wrapper a disconnect does not disconnect: over plain TCP it
  leaves the connection open while it is counted down and removed from the table, over TLS it
  panics.\<close>

theorem disconnect_proxied:
  assumes "getByRemoteAddr ks addr = Some (key_of conn)" and "csMaps w (key_of conn) = Some cs"
    and "heap w (csConn cs) = Some conn" and "\<not> tracked conn" and "remoteAddr conn = addr"
    and "curState cs = StateActive" and "proto \<in> {''http'', ''https'', ''h2''}"
  shows "(connKind conn = TLSConn False \<longrightarrow> disconnect now ks addr proto force w = Inl TypeAssertion) \<and>
    (connKind conn = OtherConn \<longrightarrow>
      (\<exists>w'. disconnect now ks addr proto force w = Inr w' \<and> heap w' = heap w \<and>
         total w' = total w - 1 \<and> csMaps w' (key_of conn) = None))"
proof -
  have co: "conn_of w (csConn cs) = conn" using assms(3) by (simp add: conn_of_def)
  have p: "\<not> is_grpc_proto proto" "proto \<noteq> ''h2c''" using assms(7) by (auto simp: is_grpc_proto_def)
  have "disconnect now ks addr proto force w = Inl TypeAssertion" if "connKind conn = TLSConn False"
    using that assms(1,2,4) p co
    by (simp add: disconnect_def disconnect_close_def Let_def closeConnection_def close_kind_def)
  moreover have "\<exists>w'. disconnect now ks addr proto force w = Inr w' \<and> heap w' = heap w \<and>
      total w' = total w - 1 \<and> csMaps w' (key_of conn) = None" if "connKind conn = OtherConn"
    using disconnect_close_http [OF assms(1,2) p(1), of force conn now] that assms(3-6) co p(2)
    by (simp add: closeConnection_def close_kind_def disconnect_def disconnect_count_def csm_del_def
        key_of_def map_upd_triv)
  ultimately show ?thesis by blast
qed

text \<open>A table with the one entry of the given connection, in the given state.\<close>

definition one_conn :: "net_conn \<Rightarrow> http_state \<Rightarrow> net_state" where
  "one_conn conn st = net_init\<lparr>heap := [1 \<mapsto> conn], total := 1,
     csMaps := [key_of conn \<mapsto> \<lparr>csConn = 1, reuse = 0, prevState = StateNew, curState = st\<rparr>]\<rparr>"

lemma lookup_client [simp]:
  "getByRemoteAddr [connKey client l] client = Some (connKey client l)"
  by (simp add: getByRemoteAddr_def connKey_def)

theorem disconnect_race_witness:
  "let conn = (tcp_conn client server80)\<lparr>connKind := TLSConn True\<rparr>; w = one_conn conn StateActive in
   \<exists>w1 d. disconnect_close 0 [key_of conn] client ''h2'' True w = Inr (w1, d) \<and>
     total (disconnect_count 0 client d (OnStateChange 15 0 1 StateClosed w1)) = -1"
  using disconnect_race [of "one_conn ((tcp_conn client server80)\<lparr>connKind := TLSConn True\<rparr>) StateActive" 1
      "(tcp_conn client server80)\<lparr>connKind := TLSConn True\<rparr>" client
      "[connKey client server80]" "\<lparr>csConn = 1, reuse = 0, prevState = StateNew, curState = StateActive\<rparr>" 0 True 15]
  by (auto simp: one_conn_def key_of_def)

theorem disconnect_shared_port_witness:
  "let conn = (tcp_conn client server_grpc)\<lparr>tracked := True\<rparr> in
   \<exists>w'. disconnect 0 [key_of conn] client ''http'' False (one_conn conn StateNew) = Inr w' \<and> total w' = 0"
  using disconnect_shared_port [of "[connKey client server_grpc]" client "connKey client server_grpc"
      "one_conn ((tcp_conn client server_grpc)\<lparr>tracked := True\<rparr>) StateNew"
      "\<lparr>csConn = 1, reuse = 0, prevState = StateNew, curState = StateNew\<rparr>"
      "(tcp_conn client server_grpc)\<lparr>tracked := True\<rparr>" "''http''" 0 False]
  by (auto simp: one_conn_def key_of_def)

theorem disconnect_proxied_witness:
  "let conn = (tcp_conn client server80)\<lparr>connKind := TLSConn False\<rparr> in
   disconnect 0 [key_of conn] client ''https'' False (one_conn conn StateActive) = Inl TypeAssertion"
  using disconnect_proxied [of "[connKey client server80]" client "(tcp_conn client server80)\<lparr>connKind := TLSConn False\<rparr>"
      "one_conn ((tcp_conn client server80)\<lparr>connKind := TLSConn False\<rparr>) StateActive"
      "\<lparr>csConn = 1, reuse = 0, prevState = StateNew, curState = StateActive\<rparr>" "''https''" 0 False]
  by (auto simp: one_conn_def key_of_def)

end
