(* ===== verification/Grpc.thy ===== *)
theory Grpc
  imports HttpHandler ConnProps
begin

text \<open>
  grpc.go: requests, responses and the handler of the gRPC server. A handler runs in a goroutine of
  its own and talks to the others by channels and a wait group; here it is the sequence of those
  operations. How they interleave is the matter of the stream theory.

  A message of the generated protocol code is the record of its fields. A map that is only built
  to be ranged over is the association list of its literal, in the literal's order.
\<close>

section \<open>Requests and commands as maps\<close>

record gelbo_request =
  getCpu :: string
  getMemory :: string
  getSleep :: string
  getSize :: string
  getCode :: string
  getAddheader :: string
  getDelheader :: string
  getAddtrailer :: string
  getDeltrailer :: string
  getStdout :: string
  getStderr :: string
  getRepeat :: string
  getDataonly :: string
  getNoop :: string
  getDisconnect :: string
  getIfclientip :: string
  getIfproxy1ip :: string
  getIfproxy2ip :: string
  getIfproxy3ip :: string
  getIflasthopip :: string
  getIftargetip :: string
  getIfhostip :: string
  getIfhost :: string
  getIfaz :: string
  getIftype :: string

definition request_pairs :: "gelbo_request \<Rightarrow> string go_map" where
  "request_pairs req =
    [(''cpu'', getCpu req), (''memory'', getMemory req), (''sleep'', getSleep req),
     (''size'', getSize req), (''code'', getCode req), (''addheader'', getAddheader req),
     (''delheader'', getDelheader req), (''addtrailer'', getAddtrailer req),
     (''deltrailer'', getDeltrailer req), (''stdout'', getStdout req),
     (''stderr'', getStderr req), (''repeat'', getRepeat req),
     (''dataonly'', getDataonly req), (''noop'', getNoop req),
     (''disconnect'', getDisconnect req), (''ifclientip'', getIfclientip req),
     (''ifproxy1ip'', getIfproxy1ip req), (''ifproxy2ip'', getIfproxy2ip req),
     (''ifproxy3ip'', getIfproxy3ip req), (''iflasthopip'', getIflasthopip req),
     (''iftargetip'', getIftargetip req), (''ifhostip'', getIfhostip req),
     (''ifhost'', getIfhost req), (''ifaz'', getIfaz req), (''iftype'', getIftype req)]"

definition convRequestToMap :: "gelbo_request \<Rightarrow> string list go_map" where
  "convRequestToMap req =
     map (\<lambda>(key, value). (key, [value])) (filter (\<lambda>(key, value). value \<noteq> []) (request_pairs req))"

definition command_pairs :: "commands \<Rightarrow> string go_map" where
  "command_pairs cmds =
    [(''cpu'', cCPU cmds), (''memory'', cMemory cmds), (''sleep'', cSleep cmds),
     (''size'', cSize cmds), (''code'', cCode cmds), (''addheader'', cAddHeader cmds),
     (''delheader'', cDelHeader cmds), (''addtrailer'', cAddTrailer cmds),
     (''deltrailer'', cDelTrailer cmds), (''stdout'', cStdout cmds),
     (''stderr'', cStderr cmds), (''repeat'', cRepeat cmds), (''dataonly'', cDataOnly cmds),
     (''noop'', cNoop cmds), (''disconnect'', cDisconnect cmds),
     (''ifclientip'', cIfClientIP cmds), (''ifproxy1ip'', cIfProxy1IP cmds),
     (''ifproxy2ip'', cIfProxy2IP cmds), (''ifproxy3ip'', cIfProxy3IP cmds),
     (''iflasthopip'', cIfLasthopIP cmds), (''iftargetip'', cIfTargetIP cmds),
     (''ifhostip'', cIfHostIP cmds), (''ifhost'', cIfHost cmds), (''ifaz'', cIfAZ cmds),
     (''iftype'', cIfType cmds)]"

definition convCommandsToMap :: "commands \<Rightarrow> string go_map" where
  "convCommandsToMap cmds = filter (\<lambda>(key, value). value \<noteq> []) (command_pairs cmds)"

definition convMapToStrList :: "string go_map \<Rightarrow> string list" where
  "convMapToStrList kvMap = sort (map (\<lambda>(key, value). key @ '': '' @ value) kvMap)"

definition empty_request :: gelbo_request where
  "empty_request = \<lparr>getCpu = [], getMemory = [], getSleep = [], getSize = [], getCode = [], getAddheader = [], getDelheader = [], getAddtrailer = [], getDeltrailer = [], getStdout = [], getStderr = [], getRepeat = [], getDataonly = [], getNoop = [], getDisconnect = [], getIfclientip = [], getIfproxy1ip = [], getIfproxy2ip = [], getIfproxy3ip = [], getIflasthopip = [], getIftargetip = [], getIfhostip = [], getIfhost = [], getIfaz = [], getIftype = []\<rparr>"

section \<open>Status codes\<close>

datatype code =
    OK | Canceled | Unknown | InvalidArgument | DeadlineExceeded | NotFound | AlreadyExists
  | PermissionDenied | ResourceExhausted | FailedPrecondition | Aborted | OutOfRange
  | Unimplemented | Internal | Unavailable | DataLoss | Unauthenticated

text \<open>The numbers of package \<open>codes\<close>.\<close>

fun code_num :: "code \<Rightarrow> int" where
  "code_num OK = 0"
| "code_num Canceled = 1"
| "code_num Unknown = 2"
| "code_num InvalidArgument = 3"
| "code_num DeadlineExceeded = 4"
| "code_num NotFound = 5"
| "code_num AlreadyExists = 6"
| "code_num PermissionDenied = 7"
| "code_num ResourceExhausted = 8"
| "code_num FailedPrecondition = 9"
| "code_num Aborted = 10"
| "code_num OutOfRange = 11"
| "code_num Unimplemented = 12"
| "code_num Internal = 13"
| "code_num Unavailable = 14"
| "code_num DataLoss = 15"
| "code_num Unauthenticated = 16"

definition getCodeClass :: "int \<Rightarrow> code" where
  "getCodeClass n =
    (if n = code_num OK then OK
     else if n = code_num Canceled then Canceled
     else if n = code_num Unknown then Unknown
     else if n = code_num InvalidArgument then InvalidArgument
     else if n = code_num DeadlineExceeded then DeadlineExceeded
     else if n = code_num NotFound then NotFound
     else if n = code_num AlreadyExists then AlreadyExists
     else if n = code_num PermissionDenied then PermissionDenied
     else if n = code_num ResourceExhausted then ResourceExhausted
     else if n = code_num FailedPrecondition then FailedPrecondition
     else if n = code_num Aborted then Aborted
     else if n = code_num OutOfRange then OutOfRange
     else if n = code_num Unimplemented then Unimplemented
     else if n = code_num Internal then Internal
     else if n = code_num Unavailable then Unavailable
     else if n = code_num DataLoss then DataLoss
     else if n = code_num Unauthenticated then Unauthenticated
     else Unknown)"

text \<open>\<open>status.Error(code, ...)\<close>: no error if the code is OK.\<close>

definition status_error :: "code \<Rightarrow> code option" where
  "status_error c = (if c = OK then None else Some c)"

text \<open>The conversion of an int to an \<open>int32\<close>.\<close>

definition int32 :: "int \<Rightarrow> int" where
  "int32 x = (x + 2147483648) mod 4294967296 - 2147483648"

section \<open>Metadata of a call\<close>

record md_set =
  srcIP :: string
  srcPort :: int
  mdTargetIP :: string
  targetPort :: int
  mdClientIP :: string
  mdLastHopIP :: string
  mdProxy1IP :: string
  mdProxy2IP :: string
  mdProxy3IP :: string
  mdHeaders :: "string go_map"

text \<open>A call's context: the incoming metadata and the addresses of the connection, each if there
  is one.\<close>

record call_ctx =
  ctxMD :: "string list go_map option"
  ctxPeer :: "(string \<times> string) option"
  ctxMethod :: string

text \<open>The first forwarded-for header; an entry without values would be an index out of range.\<close>

definition forwarded_for :: "string list go_map option \<Rightarrow> string res" where
  "forwarded_for md =
     (case md of
        None \<Rightarrow> Inr []
      | Some m \<Rightarrow>
          (case map_of m ''x-forwarded-for'' of
             None \<Rightarrow> Inr [] | Some vs \<Rightarrow> go_index vs 0))"

definition getMDSetFromContext :: "call_ctx \<Rightarrow> md_set res" where
  "getMDSetFromContext ctx =
     res_bind (forwarded_for (ctxMD ctx)) (\<lambda>xffStr.
       let mds = \<lparr>srcIP = [], srcPort = 0, mdTargetIP = [], targetPort = 0, mdClientIP = [],
                  mdLastHopIP = [], mdProxy1IP = [], mdProxy2IP = [], mdProxy3IP = [],
                  mdHeaders = (case ctxMD ctx of None \<Rightarrow> [] | Some m \<Rightarrow> combineValues m)\<rparr>;
           xff = splitXFF xffStr;
           mds = (if length xff \<ge> 2 then mds\<lparr>mdProxy1IP := extractIPAddress (xff ! 1)\<rparr> else mds);
           mds = (if length xff \<ge> 3 then mds\<lparr>mdProxy2IP := extractIPAddress (xff ! 2)\<rparr> else mds);
           mds = (if length xff \<ge> 4 then mds\<lparr>mdProxy3IP := extractIPAddress (xff ! 3)\<rparr> else mds)
       in Inr (case ctxPeer ctx of
            None \<Rightarrow> mds
          | Some (remote, local) \<Rightarrow>
              let mds = (if length xff = 0 then mds\<lparr>mdClientIP := extractIPAddress remote\<rparr>
                         else mds\<lparr>mdClientIP := extractIPAddress (xff ! 0),
                                  mdLastHopIP := extractIPAddress remote\<rparr>)
              in mds\<lparr>mdTargetIP := extractIPAddress local, targetPort := extractPort local,
                     srcIP := extractIPAddress remote, srcPort := extractPort remote\<rparr>))"

definition newRequestInfoFromContext :: "int \<Rightarrow> call_ctx \<Rightarrow> request_info res" where
  "newRequestInfoFromContext grpcsPort ctx =
     res_bind (getMDSetFromContext ctx) (\<lambda>mds. Inr
       \<lparr>reqProto = (if targetPort mds = grpcsPort then ''grpcs'' else ''grpc''),
        reqMethod = ctxMethod ctx, reqPath = [], reqQuery = [],
        reqHeader = mdHeaders mds, reqClientIP = mdClientIP mds,
        reqProxy1IP = mdProxy1IP mds, reqProxy2IP = mdProxy2IP mds, reqProxy3IP = mdProxy3IP mds,
        reqLastHopIP = mdLastHopIP mds, reqTargetIP = mdTargetIP mds, reqMtlsCert = []\<rparr>)"

section \<open>Validation\<close>

datatype grpc_mode = Unary | ClientStream | ServerStream | BidiStream

definition repeat_invalid :: "grpc_mode \<Rightarrow> string \<Rightarrow> bool" where
  "repeat_invalid mode value =
     (if mode = Unary \<or> mode = ClientStream then True
      else
        let values = split ''-'' value in
        if length values = 1 then False
        else
          let minValue = fst (atoi (values ! 0)); maxValue = fst (atoi (values ! 1));
              minValue = (if minValue > maxValue then maxValue else minValue)
          in minValue = 0)"

definition validateCommandsForGrpc ::
  "data_store \<Rightarrow> grpc_mode \<Rightarrow> request_info \<Rightarrow> gelbo_request \<Rightarrow> commands" where
  "validateCommandsForGrpc store mode reqInfo req =
     (let inputCmds = validateCommands store reqInfo (convRequestToMap req) in
      if has_action inputCmds ''repeat'' \<and> repeat_invalid mode (getValue inputCmds ''repeat'')
      then inputCmds\<lparr>invalids := invalids inputCmds @ [''repeat''],
                     actions := filter (\<lambda>act. act \<noteq> ''repeat'') (actions inputCmds)\<rparr>
      else inputCmds)"

section \<open>Actions\<close>

record grpc_state =
  gsrv :: server
  headerMD :: header_map
  trailerMD :: header_map

definition md_add :: "commands \<Rightarrow> commands \<Rightarrow> string \<Rightarrow> header_map \<Rightarrow> header_map res" where
  "md_add input result key m =
     (if has_action input key then add_to_map (getValue result key) m else Inr m)"

definition md_del :: "commands \<Rightarrow> commands \<Rightarrow> string \<Rightarrow> header_map \<Rightarrow> header_map" where
  "md_del input result key m = (if has_action input key then hm_del (getValue result key) m else m)"

text \<open>What \<open>execGrpcAction\<close> returns: the code of its error, if any; \<open>None\<close> if a target's call waits for
  ever. The address is that of the peer, if the context has one.\<close>

definition execGrpcAction ::
  "exec_env \<Rightarrow> call_ctx \<Rightarrow> request_info \<Rightarrow> commands \<Rightarrow> commands \<Rightarrow> grpc_state \<Rightarrow> (code option \<times> grpc_state) res option" where
  "execGrpcAction env ctx rq input result st =
     (if needsAction input then
        (let s = act_sleep input result (gsrv st)
         in ro_bind (act_load env input result s) (\<lambda>s.
            Some (res_bind (md_add input result ''addheader'' (headerMD st)) (\<lambda>h.
            let h = md_del input result ''delheader'' h in
            res_bind (md_add input result ''addtrailer'' (trailerMD st)) (\<lambda>t.
            let t = md_del input result ''deltrailer'' t;
                st = \<lparr>gsrv = act_print input result s, headerMD = h, trailerMD = t\<rparr>
            in if has_action input ''code'' then
                 Inr (status_error (getCodeClass (int32 (fst (atoi (getValue result ''code''))))), st)
               else if has_action input ''disconnect'' then
                 (case ctxPeer ctx of
                    None \<Rightarrow> Inr (None, st)
                  | Some (remote, _) \<Rightarrow>
                      res_bind (disconnect (envNow env) (envConns env) remote (reqProto rq)
                          (getValue result ''disconnect'' = ''rst'') (net (gsrv st)))
                        (\<lambda>w. Inr (None, st\<lparr>gsrv := (gsrv st)\<lparr>net := w\<rparr>\<rparr>)))
               else Inr (None, st))))))
      else Some (Inr (None, st)))"

section \<open>Responses\<close>

datatype grpc_response =
    DataOnly string
  | Full host_info int int request_info "string list" "string list" "string list" string

text \<open>\<open>make([]byte, n)\<close>: a length beyond the address space of the 64-bit targets panics.\<close>

definition max_alloc :: int where
  "max_alloc = 281474976710656"

definition make_bytes :: "int \<Rightarrow> nat res" where
  "make_bytes n = (if n < 0 \<or> max_alloc < n then Inl MakeSliceLen else Inr (nat n))"

text \<open>The data of a response of the given size: \<open>None\<close> if the letters do not come to an end.\<close>

definition response_data :: "source \<Rightarrow> commands \<Rightarrow> commands \<Rightarrow> string res option" where
  "response_data src input result =
     (if needsAction input \<and> has_action input ''size'' then
        (case make_bytes (fst (atoi (getValue result ''size''))) of
           Inl p \<Rightarrow> Some (Inl p)
         | Inr n \<Rightarrow> map_option (\<lambda>(s, _). Inr s) (randBytes src n))
      else Some (Inr []))"

text \<open>A response that has more than data reads the targets.\<close>

definition createResponse ::
  "exec_env \<Rightarrow> data_store \<Rightarrow> source \<Rightarrow> request_info \<Rightarrow> commands \<Rightarrow> commands \<Rightarrow> server \<Rightarrow> grpc_response res option" where
  "createResponse env store src rq input result s =
     ro_bind (response_data src input result) (\<lambda>data.
     if needsAction input \<and> has_action input ''dataonly'' then Some (Inr (DataOnly data))
     else
       ro_bind (read_load env s) (\<lambda>(cpu, memory). Some (Inr
         (Full (host store) cpu memory rq
            (convMapToStrList (reqHeader rq))
            (convMapToStrList (convCommandsToMap input))
            (convMapToStrList (convCommandsToMap result)) data))))"

section \<open>The handler\<close>

text \<open>What a handler does to the goroutines around it, in its order: wait group up and down, a
  response or an error (\<open>nil\<close> is \<open>None\<close>) into its channel.\<close>

datatype hev = WgAdd | WgDone | SendResp grpc_response | SendErr "code option"

text \<open>The store, the facts of the call and what it meets at the targets as long as it runs, the port that
  tells TLS, a random source per response.\<close>

record grpc_env =
  gStore :: data_store
  gExec :: exec_env
  gPort :: int
  gSource :: "nat \<Rightarrow> source"

text \<open>The loop of a repeated response: its operations, and unless an error ended the handler the
  values for the last response.\<close>

fun repeat_loop ::
  "grpc_env \<Rightarrow> call_ctx \<Rightarrow> request_info \<Rightarrow> commands \<Rightarrow> int \<Rightarrow> nat \<Rightarrow> commands \<Rightarrow> rng \<Rightarrow> grpc_state \<Rightarrow>
   (hev list \<times> commands option \<times> grpc_state) res option" where
  "repeat_loop env ctx rq input rep 0 result g st = Some (Inr ([], Some result, st))"
| "repeat_loop env ctx rq input rep (Suc k) result g st =
     (let result = result\<lparr>cRepeat := itoa rep\<rparr> in
      ro_bind (execGrpcAction (gExec env) ctx rq input result st) (\<lambda>(err, st).
      case err of
        Some c \<Rightarrow> Some (Inr ([SendErr (Some c), WgDone], None, st))
      | None \<Rightarrow>
          ro_bind (createResponse (gExec env) (gStore env) (gSource env k) rq input result (gsrv st)) (\<lambda>resp.
          ro_bind (Some (evaluate input g)) (\<lambda>(result, g).
          ro_bind (repeat_loop env ctx rq input rep k result g st) (\<lambda>(evs, r).
          Some (Inr (WgAdd # SendResp resp # evs, r)))))))"

text \<open>The end of the handler: the headers and trailers are set from the maps and the response is
  sent.\<close>

definition send_last ::
  "grpc_env \<Rightarrow> request_info \<Rightarrow> commands \<Rightarrow> commands \<Rightarrow> grpc_state \<Rightarrow> (hev list \<times> grpc_state) res option" where
  "send_last env rq input result st =
     ro_bind (createResponse (gExec env) (gStore env) (gSource env 0) rq input result (gsrv st))
       (\<lambda>resp. Some (Inr ([SendResp resp], st)))"

text \<open>After the noop test: the repeated responses, then the last one.\<close>

definition handler_acts ::
  "grpc_env \<Rightarrow> call_ctx \<Rightarrow> request_info \<Rightarrow> commands \<Rightarrow> commands \<Rightarrow> rng \<Rightarrow> grpc_state \<Rightarrow>
   (hev list \<times> grpc_state) res option" where
  "handler_acts env ctx rq input result g st =
     (let rep = fst (atoi (getValue result ''repeat'')) in
      ro_bind (if cRepeat input \<noteq> [] then repeat_loop env ctx rq input rep (nat (rep - 1)) result g st
               else Some (Inr ([], Some result, st))) (\<lambda>(evs, r, st).
      case r of
        None \<Rightarrow> Some (Inr (evs, st))
      | Some result \<Rightarrow>
          ro_bind (execGrpcAction (gExec env) ctx rq input result st) (\<lambda>(err, st).
          case err of
            Some c \<Rightarrow> Some (Inr (evs @ [WgDone, SendErr (Some c)], st))
          | None \<Rightarrow>
              ro_bind (send_last env rq input result st) (\<lambda>(last, st).
              Some (Inr (evs @ last, st))))))"

definition handler ::
  "grpc_env \<Rightarrow> grpc_mode \<Rightarrow> call_ctx \<Rightarrow> gelbo_request \<Rightarrow> rng \<Rightarrow> grpc_state \<Rightarrow> (hev list \<times> grpc_state) res option" where
  "handler env mode ctx req g st =
     ro_bind (Some (newRequestInfoFromContext (gPort env) ctx)) (\<lambda>rq.
     let input = validateCommandsForGrpc (gStore env) mode rq req in
     ro_bind (Some (evaluate input g)) (\<lambda>(result, g).
     if needsAction input then
       (if has_action input ''noop'' then
          Some (Inr ((if mode = Unary \<or> mode = ClientStream then [SendErr None] else []) @ [WgDone], st))
        else handler_acts env ctx rq input result g st)
     else send_last env rq input result st))"

section \<open>Echo of the request\<close>

lemma request_keys: "map fst (request_pairs req) = map fst (command_pairs c)"
  by (simp add: request_pairs_def command_pairs_def)

lemma command_pairs_field: "command_pairs c = map (\<lambda>(k, _). (k, cmd_field c k)) (request_pairs req)"
  by (simp add: request_pairs_def command_pairs_def)

lemma request_keys_distinct: "distinct (map fst (request_pairs req))"
  by (simp add: request_pairs_def)

lemma request_keys_known: "(k, v) \<in> set (request_pairs req) \<Longrightarrow> validatorForGrpc k \<noteq> None"
proof -
  have "list_all (\<lambda>k. validatorForGrpc k \<noteq> None) (map fst (request_pairs req))"
    by (simp add: request_pairs_def validatorForGrpc_def validatorForHttp_def)
  then show "(k, v) \<in> set (request_pairs req) \<Longrightarrow> validatorForGrpc k \<noteq> None"
    by (force simp: list_all_iff)
qed

lemma wf_convRequest: "wf_map (convRequestToMap req)"
proof -
  have "map fst (convRequestToMap req) = map fst (filter (\<lambda>(key, value). value \<noteq> []) (request_pairs req))"
    by (simp add: convRequestToMap_def case_prod_beta)
  then show ?thesis
    using request_keys_distinct by (simp add: wf_map_def distinct_map_filter)
qed

lemma combine_convRequest:
  "combineValuesWithOr (convRequestToMap req) = filter (\<lambda>(key, value). value \<noteq> []) (request_pairs req)"
  unfolding combineValuesWithOr_def convRequestToMap_def map_map by (rule map_idI) auto

lemma map_of_filter_nonempty:
  "distinct (map fst ps) \<Longrightarrow> (k, v) \<in> set ps \<Longrightarrow>
   map_of (filter (\<lambda>(key, value). value \<noteq> []) ps) k = (if v = [] then None else Some v)"
  by (induction ps) (auto simp: map_of_eq_None_iff image_iff split: if_splits)

text \<open>A store whose gRPC validator is the one built at the start, whatever the host is known as.\<close>

definition grpc_store :: "data_store \<Rightarrow> bool" where
  "grpc_store st = (store_ok st \<and> vGrpc st = validatorForGrpc)"

lemma grpc_store_NewDataStore [simp]: "grpc_store NewDataStore" "grpc_store (NewDataStore\<lparr>host := h\<rparr>)"
  using store_ok_NewDataStore by (simp_all add: grpc_store_def NewDataStore_def store_ok_def)

lemma validate_grpc_store_field:
  assumes "grpc_store st" and "prefix ''grpc'' (reqProto rq)" and "(k, v) \<in> set (request_pairs req)"
  shows "cmd_field (validateCommandsForGrpc st mode rq req) k = v"
proof -
  have st: "store_ok st" and "recognised st rq (k, v)"
    using request_keys_known [OF assms(3)] assms(1,2)
    by (simp_all add: recognised_def pick_validator_def grpc_store_def)
  then have "cmd_field (validateCommands st rq (convRequestToMap req)) k = v"
    using map_of_filter_nonempty [OF request_keys_distinct assms(3)]
    by (simp add: validateCommands_field [OF _ wf_convRequest] combine_convRequest)
  then show ?thesis by (simp add: validateCommandsForGrpc_def Let_def)
qed

lemmas validate_grpc_field = validate_grpc_store_field [OF grpc_store_NewDataStore(1)]

lemma grpc_command_pairs:
  assumes "grpc_store st" and "prefix ''grpc'' (reqProto rq)"
  shows "command_pairs (validateCommandsForGrpc st mode rq req) = request_pairs req"
  unfolding command_pairs_field [of _ req]
  by (rule map_idI) (use validate_grpc_store_field [OF assms] in auto)

text \<open>The fields of a request message by the names that the service's definition gives them, in
  alphabetical order.\<close>

definition message_fields :: "(string \<times> (gelbo_request \<Rightarrow> string)) list" where
  "message_fields =
    [(''addheader'', getAddheader), (''addtrailer'', getAddtrailer), (''code'', getCode), (''cpu'', getCpu),
     (''dataonly'', getDataonly), (''delheader'', getDelheader), (''deltrailer'', getDeltrailer),
     (''disconnect'', getDisconnect), (''ifaz'', getIfaz), (''ifclientip'', getIfclientip), (''ifhost'', getIfhost),
     (''ifhostip'', getIfhostip), (''iflasthopip'', getIflasthopip), (''ifproxy1ip'', getIfproxy1ip),
     (''ifproxy2ip'', getIfproxy2ip), (''ifproxy3ip'', getIfproxy3ip), (''iftargetip'', getIftargetip),
     (''iftype'', getIftype), (''memory'', getMemory), (''noop'', getNoop), (''repeat'', getRepeat),
     (''size'', getSize), (''sleep'', getSleep), (''stderr'', getStderr), (''stdout'', getStdout)]"

text \<open>What a client that sent the message expects to see of it.\<close>

definition message_lines :: "gelbo_request \<Rightarrow> string list" where
  "message_lines req = [key @ '': '' @ get req. (key, get) \<leftarrow> message_fields, get req \<noteq> []]"

lemma message_pairs: "mset (map (\<lambda>(key, get). (key, get req)) message_fields) = mset (request_pairs req)"
  by (simp add: message_fields_def request_pairs_def)

lemma message_lines_pairs:
  "message_lines req = map (\<lambda>(key, value). key @ '': '' @ value)
     (filter (\<lambda>(key, value). value \<noteq> []) (map (\<lambda>(key, get). (key, get req)) message_fields))"
proof -
  have "concat (map (\<lambda>(key, get). if get req \<noteq> [] then [key @ '': '' @ get req] else []) fs) =
      map (\<lambda>(key, value). key @ '': '' @ value)
        (filter (\<lambda>(key, value). value \<noteq> []) (map (\<lambda>(key, get). (key, get req)) fs))"
    for fs :: "(string \<times> (gelbo_request \<Rightarrow> string)) list"
    by (induction fs) auto
  then show ?thesis by (simp add: message_lines_def case_prod_beta')
qed

lemma echo_lines:
  assumes "grpc_store st" and "prefix ''grpc'' (reqProto rq)"
  shows "convMapToStrList (convCommandsToMap (validateCommandsForGrpc st mode rq req)) = sort (message_lines req)"
proof -
  have "mset (message_lines req) = mset (map (\<lambda>(key, value). key @ '': '' @ value)
      (filter (\<lambda>(key, value). value \<noteq> []) (request_pairs req)))"
    unfolding message_lines_pairs by (simp only: mset_map mset_filter message_pairs [unfolded mset_map])
  then show ?thesis
    unfolding convMapToStrList_def convCommandsToMap_def grpc_command_pairs [OF assms]
    by (intro properties_for_sort [symmetric]) simp_all
qed

section \<open>Codes\<close>

lemma getCodeClass_num: "getCodeClass (code_num c) = c"
  by (cases c) (simp_all add: getCodeClass_def)

lemma code_num_inverse: "0 \<le> n \<Longrightarrow> n \<le> 16 \<Longrightarrow> code_num (getCodeClass n) = n"
  unfolding getCodeClass_def by simp presburger

text \<open>The status code that a code action asks for is the one that is returned: the numbers that
  validation lets through are those of the codes, each is turned into the code with that number,
  and any other number would be Unknown. Only zero is no error.\<close>

theorem code_action:
  "(rx_match regexpCode s \<longrightarrow>
      (let n = fst (atoi s) in code_num (getCodeClass (int32 n)) = n \<and>
         (status_error (getCodeClass (int32 n)) = None \<longleftrightarrow> n = 0))) \<and>
   (n < 0 \<or> 16 < n \<longrightarrow> getCodeClass n = Unknown) \<and> getCodeClass (code_num c) = c"
proof -
  have "code_num (getCodeClass (int32 (fst (atoi s)))) = fst (atoi s) \<and>
      (status_error (getCodeClass (int32 (fst (atoi s)))) = None \<longleftrightarrow> fst (atoi s) = 0)" if m: "rx_match regexpCode s"
  proof -
    have "0 \<le> fst (atoi s) \<and> fst (atoi s) \<le> 16"
    proof -
      consider c where "s = [c]" "is_digit c" | c where "s = [CHR ''1'', c]" "CHR ''0'' \<le> c" "c \<le> CHR ''6''"
        using m by (auto simp: match_code)
      then show ?thesis
      proof cases
        case 1
        then have "fst (atoi s) = min (digit_val c) max_int64"
          by (simp add: fst_atoi_digits dec_val_def)
        with digit_val_range [OF 1(2)] show ?thesis by (simp add: max_int64_def)
      next
        case 2
        then have "48 \<le> (of_char c :: nat)" "(of_char c :: nat) \<le> 54"
          by (simp_all add: less_eq_char_def)
        then have "is_digit c" "0 \<le> digit_val c" "digit_val c \<le> 6"
          by (simp_all add: is_digit_code digit_val_def)
        moreover have "is_digit CHR ''1''" "digit_val CHR ''1'' = 1"
          by (simp_all add: is_digit_code digit_val_def)
        ultimately have "fst (atoi s) = min (10 + digit_val c) max_int64"
          using 2(1) by (simp add: fst_atoi_digits dec_val_def)
        with \<open>0 \<le> digit_val c\<close> \<open>digit_val c \<le> 6\<close> show ?thesis by (simp add: max_int64_def)
      qed
    qed
    moreover have "int32 x = x" if "0 \<le> x" "x \<le> 16" for x
      using that by (simp add: int32_def)
    moreover have "getCodeClass x = OK \<longleftrightarrow> x = 0" if "0 \<le> x" "x \<le> 16" for x
      using code_num_inverse [OF that] getCodeClass_num [of OK] by auto
    ultimately show ?thesis using code_num_inverse by (simp add: status_error_def)
  qed
  moreover have "getCodeClass n = Unknown" if "n < 0 \<or> 16 < n"
    using that by (auto simp: getCodeClass_def)
  ultimately show ?thesis using getCodeClass_num by (simp add: Let_def)
qed

theorem code_action_witness:
  "code_num (getCodeClass (int32 (fst (atoi ''16'')))) = fst (atoi ''16'') \<and> getCodeClass 17 = Unknown"
proof -
  have "rx_match regexpCode ''16''" by (simp add: match_code is_digit_code del: rx_match.simps)
  then show ?thesis using code_action [of "''16''" 17 OK] by (simp add: Let_def)
qed

section \<open>The operations of a handler\<close>

definition is_add :: "hev \<Rightarrow> bool" where "is_add e = (e = WgAdd)"
definition is_done :: "hev \<Rightarrow> bool" where "is_done e = (e = WgDone)"
definition is_send :: "hev \<Rightarrow> bool" where "is_send e = (case e of SendResp _ \<Rightarrow> True | _ \<Rightarrow> False)"
definition is_err :: "hev \<Rightarrow> bool" where "is_err e = (case e of SendErr _ \<Rightarrow> True | _ \<Rightarrow> False)"

lemmas hev_tests = is_add_def is_done_def is_send_def is_err_def

definition count_ev :: "(hev \<Rightarrow> bool) \<Rightarrow> hev list \<Rightarrow> nat" where
  "count_ev p evs = length (filter p evs)"

lemma count_ev_simps [simp]:
  "count_ev p [] = 0" "count_ev p (e # evs) = (if p e then 1 else 0) + count_ev p evs"
  "count_ev p (xs @ ys) = count_ev p xs + count_ev p ys"
  by (simp_all add: count_ev_def)

text \<open>The first part of a handler: pairs of a wait group increment and a response, and after an
  error the error and the decrement.\<close>

lemma repeat_loop_shape:
  "repeat_loop env ctx rq input rep k result g st = Some (Inr (evs, r, st')) \<Longrightarrow>
   \<exists>resps. (case r of
       Some _ \<Rightarrow> evs = concat (map (\<lambda>x. [WgAdd, SendResp x]) resps) \<and> length resps = k
     | None \<Rightarrow> \<exists>c. evs = concat (map (\<lambda>x. [WgAdd, SendResp x]) resps) @ [SendErr (Some c), WgDone] \<and>
         length resps < k)"
proof (induction k arbitrary: result g st evs)
  case 0
  then show ?case by (auto intro: exI [of _ "[]"])
next
  case (Suc k)
  obtain err st1 where e: "execGrpcAction (gExec env) ctx rq input (result\<lparr>cRepeat := itoa rep\<rparr>) st = Some (Inr (err, st1))"
    using Suc.prems by (auto simp: Let_def ro_bind_Inr)
  show ?case
  proof (cases err)
    case (Some c)
    with Suc.prems e have "evs = [SendErr (Some c), WgDone]" "r = None" by (auto simp: Let_def)
    then show ?thesis by (auto intro: exI [of _ "[]"])
  next
    case None
    with Suc.prems e obtain resp result2 g2 evs2 where
      rec: "repeat_loop env ctx rq input rep k result2 g2 st1 = Some (Inr (evs2, r, st'))"
      and evs: "evs = WgAdd # SendResp resp # evs2"
      by (auto simp: Let_def ro_bind_Inr)
    from Suc.IH [OF rec] obtain resps where
      "case r of
         Some _ \<Rightarrow> evs2 = concat (map (\<lambda>x. [WgAdd, SendResp x]) resps) \<and> length resps = k
       | None \<Rightarrow> \<exists>c. evs2 = concat (map (\<lambda>x. [WgAdd, SendResp x]) resps) @ [SendErr (Some c), WgDone] \<and>
           length resps < k"
      by blast
    then show ?thesis
      using evs by (intro exI [of _ "resp # resps"]) (auto split: option.splits)
  qed
qed

lemma send_last_shape:
  "send_last env rq input result st = Some (Inr (evs, st')) \<Longrightarrow> \<exists>resp. evs = [SendResp resp]"
  by (auto simp: send_last_def ro_bind_Inr)

text \<open>The ways in which a handler ends.\<close>

definition handler_end :: "grpc_mode \<Rightarrow> hev list \<Rightarrow> bool" where
  "handler_end mode evs =
     ((\<exists>x. evs = [SendResp x]) \<or> (\<exists>c. evs = [WgDone, SendErr (Some c)]) \<or>
      (\<exists>c. evs = [SendErr (Some c), WgDone]) \<or>
      evs = (if mode = Unary \<or> mode = ClientStream then [SendErr None] else []) @ [WgDone])"

lemma handler_acts_shape:
  assumes "handler_acts env ctx rq input result g st = Some (Inr (evs, st'))"
  shows "\<exists>resps tail. evs = concat (map (\<lambda>x. [WgAdd, SendResp x]) resps) @ tail \<and> handler_end mode tail"
proof -
  define rep where "rep = fst (atoi (getValue result ''repeat''))"
  define loop where "loop = (if cRepeat input \<noteq> [] then repeat_loop env ctx rq input rep (nat (rep - 1)) result g st
    else Some (Inr ([], Some result, st)))"
  obtain evs1 r st1 where l: "loop = Some (Inr (evs1, r, st1))"
    and rest: "(case r of
        None \<Rightarrow> Some (Inr (evs1, st1))
      | Some result \<Rightarrow>
          ro_bind (execGrpcAction (gExec env) ctx rq input result st1) (\<lambda>(err, st).
          case err of
            Some c \<Rightarrow> Some (Inr (evs1 @ [WgDone, SendErr (Some c)], st))
          | None \<Rightarrow>
              ro_bind (send_last env rq input result st) (\<lambda>(last, st).
              Some (Inr (evs1 @ last, st))))) = Some (Inr (evs, st'))"
    using assms unfolding handler_acts_def Let_def rep_def [symmetric] loop_def [symmetric]
    by (auto simp: ro_bind_Inr)
  show ?thesis
  proof (cases r)
    case None
    have "\<exists>resps c. evs1 = concat (map (\<lambda>x. [WgAdd, SendResp x]) resps) @ [SendErr (Some c), WgDone]"
      using l repeat_loop_shape [of env ctx rq input rep "nat (rep - 1)" result g st evs1 r st1] None
      by (auto simp: loop_def split: if_splits)
    with rest None show ?thesis by (auto simp: handler_end_def)
  next
    case (Some result1)
    have "\<exists>resps. evs1 = concat (map (\<lambda>x. [WgAdd, SendResp x]) resps)"
      using l repeat_loop_shape [of env ctx rq input rep "nat (rep - 1)" result g st evs1 r st1] Some
      by (auto simp: loop_def split: if_splits intro: exI [of _ "[]"])
    moreover obtain tail where "evs = evs1 @ tail" "handler_end mode tail"
    proof -
      obtain err st2 where e: "execGrpcAction (gExec env) ctx rq input result1 st1 = Some (Inr (err, st2))"
        using rest Some by (auto simp: ro_bind_Inr)
      show thesis
      proof (cases err)
        case None
        with rest Some e obtain evs2 where "send_last env rq input result1 st2 = Some (Inr (evs2, st'))" "evs = evs1 @ evs2"
          by (auto simp: ro_bind_Inr)
        with send_last_shape that show thesis by (fastforce simp: handler_end_def)
      next
        case (Some c)
        with rest \<open>r = Some result1\<close> e have "evs = evs1 @ [WgDone, SendErr (Some c)]" by simp
        with that show thesis by (auto simp: handler_end_def)
      qed
    qed
    ultimately show ?thesis by auto
  qed
qed

lemma handler_shape:
  assumes "handler env mode ctx req g st = Some (Inr (evs, st'))"
  shows "\<exists>resps tail. evs = concat (map (\<lambda>x. [WgAdd, SendResp x]) resps) @ tail \<and> handler_end mode tail"
proof -
  obtain rq where rq: "newRequestInfoFromContext (gPort env) ctx = Inr rq"
    using assms by (auto simp: handler_def ro_bind_Inr)
  let ?input = "validateCommandsForGrpc (gStore env) mode rq req"
  obtain result g' where ev: "evaluate ?input g = Inr (result, g')"
    using assms rq by (auto simp: handler_def ro_bind_Inr Let_def)
  have plain: ?thesis if "handler_end mode evs"
    using that by (intro exI [of _ "[]"] exI [of _ evs]) simp
  consider (quiet) "\<not> needsAction ?input" | (noop) "needsAction ?input" "has_action ?input ''noop''"
    | (acts) "needsAction ?input" "\<not> has_action ?input ''noop''" by blast
  then show ?thesis
  proof cases
    case quiet
    then have "send_last env rq ?input result st = Some (Inr (evs, st'))"
      using assms rq ev by (simp add: handler_def Let_def)
    from send_last_shape [OF this] show ?thesis by (intro plain) (auto simp: handler_end_def)
  next
    case noop
    then have "evs = (if mode = Unary \<or> mode = ClientStream then [SendErr None] else []) @ [WgDone]"
      using assms rq ev by (simp add: handler_def Let_def)
    then show ?thesis by (intro plain) (simp only: handler_end_def simp_thms)
  next
    case acts
    then have "handler_acts env ctx rq ?input result g' st = Some (Inr (evs, st'))"
      using assms rq ev by (simp add: handler_def Let_def)
    then show ?thesis by (rule handler_acts_shape)
  qed
qed

text \<open>In every mode and on every path, the wait group operations of a handler balance: its
  increments, with the one that its caller made for it, are as many as its own decrements and the
  responses it sends, for each of which the sender decrements. It sends at most one error, and
  none together with a last response.\<close>

theorem handler_balanced:
  assumes "handler env mode ctx req g st = Some (Inr (evs, st'))"
  shows "count_ev is_add evs + 1 = count_ev is_send evs + count_ev is_done evs \<and>
    count_ev is_err evs \<le> 1 \<and> (count_ev is_err evs = 1 \<longrightarrow> (\<forall>x. last evs \<noteq> SendResp x))"
proof -
  obtain resps tail where e: "evs = concat (map (\<lambda>x. [WgAdd, SendResp x]) resps) @ tail"
    and t: "handler_end mode tail"
    using handler_shape [OF assms] by blast
  have c: "count_ev is_add (concat (map (\<lambda>x. [WgAdd, SendResp x]) resps)) = length resps"
    "count_ev is_send (concat (map (\<lambda>x. [WgAdd, SendResp x]) resps)) = length resps"
    "count_ev is_done (concat (map (\<lambda>x. [WgAdd, SendResp x]) resps)) = 0"
    "count_ev is_err (concat (map (\<lambda>x. [WgAdd, SendResp x]) resps)) = 0"
    by (induction resps) (simp_all add: hev_tests)
  show ?thesis
    using t by (auto simp: e c handler_end_def hev_tests split: if_splits)
qed

section \<open>When a handler ends\<close>

text \<open>When both goroutines of the load take what is sent to them, and the letters do not run dry, no
  operation of a handler's own computation waits for ever: it panics or comes to its end.\<close>

definition load_takes :: "exec_env \<Rightarrow> bool" where
  "load_takes env = (envCpuLoad env = Takes \<and> envMemLoad env = Takes)"

lemma execGrpcAction_total:
  assumes "load_takes env"
  shows "ends (execGrpcAction env ctx rq input result st)"
proof -
  have "load_free env input" using assms by (simp add: load_takes_def load_free_def)
  from act_load_free [OF this] have "ends (act_load env input result s)" for s by (metis ends_simps(1))
  then show ?thesis by (simp add: execGrpcAction_def Let_def ends_ro_bind)
qed

lemma createResponse_total:
  assumes "load_takes env" and "fair src"
  shows "ends (createResponse env store src rq input result s)"
proof -
  have "ends (randBytes src n)" for n by (rule randBytes_returns [OF assms(2), of n]) simp
  then have "ends (response_data src input result)"
    by (auto simp: response_data_def ends_def split: sum.split)
  moreover have "read_load env s = Some (Inr (target (cpuRes s), target (memRes s)))"
    using assms(1) by (simp add: read_load_Some load_takes_def)
  ultimately show ?thesis by (simp add: createResponse_def ends_ro_bind)
qed

lemma repeat_loop_total:
  assumes "load_takes (gExec env)" and "\<forall>k. fair (gSource env k)"
  shows "ends (repeat_loop env ctx rq input rep k result g st)"
proof (induction k arbitrary: result g st)
  case (Suc k)
  have c: "fair (gSource env k)" using assms(2) by blast
  show ?case
    by (auto simp: Let_def Suc intro!: ends_ro_bind execGrpcAction_total [OF assms(1)]
        createResponse_total [OF assms(1) c] split: option.split)
qed simp

lemma send_last_total:
  assumes "load_takes (gExec env)" and "\<forall>k. fair (gSource env k)"
  shows "ends (send_last env rq input result st)"
  using createResponse_total [OF assms(1)] assms(2) by (simp add: send_last_def ends_ro_bind)

lemma handler_total:
  assumes "load_takes (gExec env)" and "\<forall>k. fair (gSource env k)"
  shows "ends (handler env mode ctx req g st)"
proof -
  note t = execGrpcAction_total [OF assms(1)] repeat_loop_total [OF assms] send_last_total [OF assms]
  have "ends (handler_acts env ctx rq input result g st)" for rq input result g st
    by (auto simp: handler_acts_def Let_def t intro!: ends_ro_bind split: option.split)
  then show ?thesis by (auto simp: handler_def Let_def t intro!: ends_ro_bind)
qed

text \<open>And when the lock is held for ever, no call that reads a target gets to its response.\<close>

lemma handler_waits:
  assumes "newRequestInfoFromContext (gPort env) ctx = Inr rq" and "envCpuLoad (gExec env) = LockHeld"
    and "\<not> needsAction (validateCommandsForGrpc (gStore env) mode rq req)"
    and "\<not> panics (evaluate (validateCommandsForGrpc (gStore env) mode rq req) g)"
  shows "handler env mode ctx req g st = None"
proof -
  let ?c = "validateCommandsForGrpc (gStore env) mode rq req"
  obtain result g' where e: "evaluate ?c g = Inr (result, g')" using assms(4) by (cases "evaluate ?c g") auto
  have "read_load (gExec env) s = None" for s using assms(2) by (simp add: read_load_None)
  then show ?thesis
    using assms(1,3) by (simp add: handler_def Let_def e send_last_def createResponse_def response_data_def)
qed

section \<open>What the client sees of its message\<close>

text \<open>A response is of the commands that were made of a message.\<close>

definition shows_input :: "commands \<Rightarrow> grpc_response \<Rightarrow> bool" where
  "shows_input input x =
     (case x of
        DataOnly _ \<Rightarrow> has_action input ''dataonly''
      | Full _ _ _ _ _ ins _ _ \<Rightarrow> ins = convMapToStrList (convCommandsToMap input))"

lemma createResponse_shows:
  "createResponse env st src rq input result s = Some (Inr x) \<Longrightarrow> shows_input input x"
  by (auto simp: createResponse_def ro_bind_Inr shows_input_def split: if_splits)

lemma repeat_loop_shows:
  "repeat_loop env ctx rq input rep k result g st = Some (Inr (evs, r, st')) \<Longrightarrow> SendResp x \<in> set evs \<Longrightarrow>
   shows_input input x"
proof (induction k arbitrary: result g st evs)
  case (Suc k)
  then show ?case by (auto simp: Let_def ro_bind_Inr dest: createResponse_shows split: option.splits)
qed simp

lemma send_last_shows:
  "send_last env rq input result st = Some (Inr (evs, st')) \<Longrightarrow> SendResp x \<in> set evs \<Longrightarrow> shows_input input x"
  by (auto simp: send_last_def ro_bind_Inr dest: createResponse_shows)

lemma handler_acts_shows:
  assumes "handler_acts env ctx rq input result g st = Some (Inr (evs, st'))" and "SendResp x \<in> set evs"
  shows "shows_input input x"
proof -
  define rep where "rep = fst (atoi (getValue result ''repeat''))"
  define loop where "loop = (if cRepeat input \<noteq> [] then repeat_loop env ctx rq input rep (nat (rep - 1)) result g st
    else Some (Inr ([], Some result, st)))"
  have l: "shows_input input x" if "loop = Some (Inr (evs1, r, st1))" "SendResp x \<in> set evs1" for evs1 r st1
    using that repeat_loop_shows by (auto simp: loop_def split: if_splits)
  show ?thesis
    using assms l send_last_shows
    unfolding handler_acts_def Let_def rep_def [symmetric] loop_def [symmetric]
    by (fastforce simp: ro_bind_Inr split: option.splits)
qed

lemma handler_shows:
  assumes "handler env mode ctx req g st = Some (Inr (evs, st'))" and "SendResp x \<in> set evs"
  shows "\<exists>rq. prefix ''grpc'' (reqProto rq) \<and> shows_input (validateCommandsForGrpc (gStore env) mode rq req) x"
proof -
  obtain rq where rq: "newRequestInfoFromContext (gPort env) ctx = Inr rq"
    using assms by (auto simp: handler_def ro_bind_Inr)
  then have "prefix ''grpc'' (reqProto rq)"
    by (cases "getMDSetFromContext ctx") (auto simp: newRequestInfoFromContext_def)
  moreover have "shows_input (validateCommandsForGrpc (gStore env) mode rq req) x"
    using assms handler_acts_shows send_last_shows
    by (fastforce simp: handler_def rq Let_def ro_bind_Inr split: if_splits)
  ultimately show ?thesis by blast
qed

lemma grpc_action_field:
  assumes "has_action (validateCommandsForGrpc st mode rq req) k"
  shows "\<exists>v. (k, v) \<in> set (request_pairs req) \<and> v \<noteq> []"
proof -
  have "k \<in> set (actions (validateCommands st rq (convRequestToMap req)))"
    using assms by (auto simp: validateCommandsForGrpc_def has_action_def Let_def split: if_splits)
  then show ?thesis by (force simp: validateCommands_def validate_lists combine_convRequest)
qed

text \<open>C23. Every response that a call sends shows the client its own message: the lines of its input
  are those of exactly the fields that the message has set, each under the field's name, with the value
  the client sent, sorted; whether the values are well formed or not, in every mode, for the last response
  and for each repeated one. Only a response to a message with the dataonly field may have none.\<close>

theorem grpc_echo:
  assumes "handler env mode ctx req g st = Some (Inr (evs, st'))" and "grpc_store (gStore env)"
    and "SendResp x \<in> set evs"
  shows "case x of
      DataOnly _ \<Rightarrow> getDataonly req \<noteq> []
    | Full _ _ _ _ _ ins _ _ \<Rightarrow> ins = sort (message_lines req)"
proof -
  obtain rq where rq: "prefix ''grpc'' (reqProto rq)"
    and x: "shows_input (validateCommandsForGrpc (gStore env) mode rq req) x"
    using handler_shows [OF assms(1,3)] by blast
  show ?thesis
  proof (cases x)
    case (DataOnly d)
    then have "has_action (validateCommandsForGrpc (gStore env) mode rq req) ''dataonly''"
      using x by (simp add: shows_input_def)
    from grpc_action_field [OF this] show ?thesis by (auto simp: DataOnly request_pairs_def)
  next
    case Full
    with x show ?thesis by (simp add: shows_input_def echo_lines [OF assms(2) rq])
  qed
qed

definition plain_ctx :: call_ctx where
  "plain_ctx = \<lparr>ctxMD = None, ctxPeer = None, ctxMethod = ''/elbgrpc.GelboService/Unary''\<rparr>"

definition plain_grpc_env :: grpc_env where
  "plain_grpc_env = \<lparr>gStore = NewDataStore, gExec = plain_env, gPort = 50052, gSource = \<lambda>_ _. 0\<rparr>"

definition new_grpc :: grpc_state where
  "new_grpc = \<lparr>gsrv = new_server 0, headerMD = NewHeaderMap, trailerMD = NewHeaderMap\<rparr>"

lemma idle_request: "validateCommandsForGrpc st mode rq empty_request = no_commands"
  by (simp add: validateCommandsForGrpc_def convRequestToMap_def request_pairs_def empty_request_def
      idle_commands has_action_def)

lemma plain_info: "\<exists>rq. newRequestInfoFromContext port plain_ctx = Inr rq"
  by (simp add: newRequestInfoFromContext_def getMDSetFromContext_def forwarded_for_def plain_ctx_def Let_def)

lemma read_load_free:
  "envCpuLoad env \<noteq> LockHeld \<Longrightarrow> envMemLoad env \<noteq> LockHeld \<Longrightarrow>
   read_load env s = Some (Inr (target (cpuRes s), target (memRes s)))"
  by (simp add: read_load_Some)

lemma idle_handler:
  "\<exists>x. handler plain_grpc_env mode plain_ctx empty_request g st = Some (Inr ([SendResp x], st))"
  using plain_info [of "gPort plain_grpc_env"]
  by (auto simp: handler_def idle_request idle_commands send_last_def createResponse_def response_data_def Let_def
      read_load_free plain_grpc_env_def plain_env_def)

text \<open>A message with a field that is well formed and one that is not.\<close>

definition odd_message :: gelbo_request where
  "odd_message = empty_request\<lparr>getSleep := ''10'', getCode := ''17''\<rparr>"

lemma odd_commands:
  assumes "prefix ''grpc'' (reqProto rq)"
  shows "actions (validateCommandsForGrpc NewDataStore mode rq odd_message) = [''sleep'']"
    and "invalids (validateCommandsForGrpc NewDataStore mode rq odd_message) = [''code'']"
    and "\<not> needsAction (validateCommandsForGrpc NewDataStore mode rq odd_message)"
proof -
  have v: "pick_validator NewDataStore rq ''sleep'' = Some regexpNumRange"
    "pick_validator NewDataStore rq ''code'' = Some regexpCode"
    using assms by (simp_all add: pick_validator_def NewDataStore_def validatorForGrpc_def validatorForHttp_def)
  have m: "convRequestToMap odd_message = [(''sleep'', [''10'']), (''code'', [''17''])]"
    by (simp add: convRequestToMap_def request_pairs_def odd_message_def empty_request_def)
  have r: "rx_match regexpNumRange ''10''" "\<not> rx_match regexpCode ''17''" "\<not> is_if ''sleep''" "\<not> is_if ''code''"
    by (simp_all add: match_num_range_digits digits_def is_digit_code match_code is_if_def less_eq_char_def
        del: rx_match.simps)
  have "actions (validateCommands NewDataStore rq (convRequestToMap odd_message)) = [''sleep'']"
    "invalids (validateCommands NewDataStore rq (convRequestToMap odd_message)) = [''code'']"
    using v r unfolding m
    by (simp_all add: validateCommands_def combineValuesWithOr_def validate_step_def Let_def del: rx_match.simps)
  then show a: "actions (validateCommandsForGrpc NewDataStore mode rq odd_message) = [''sleep'']"
    and i: "invalids (validateCommandsForGrpc NewDataStore mode rq odd_message) = [''code'']"
    by (simp_all add: validateCommandsForGrpc_def has_action_def Let_def)
  show "\<not> needsAction (validateCommandsForGrpc NewDataStore mode rq odd_message)"
    by (simp add: needsAction_def i)
qed

theorem grpc_echo_witness:
  "\<exists>st h c m rq hs ress d. handler plain_grpc_env Unary plain_ctx odd_message (\<lambda>_. 0) new_grpc =
     Some (Inr ([SendResp (Full h c m rq hs [''code: 17'', ''sleep: 10''] ress d)], st))"
proof -
  obtain rq where rq: "newRequestInfoFromContext (gPort plain_grpc_env) plain_ctx = Inr rq"
    using plain_info by blast
  then have p: "prefix ''grpc'' (reqProto rq)"
    by (auto simp: newRequestInfoFromContext_def getMDSetFromContext_def forwarded_for_def plain_ctx_def Let_def)
  let ?c = "validateCommandsForGrpc NewDataStore Unary rq odd_message"
  have "(''sleep'', ''10'') \<in> set (request_pairs odd_message)"
    by (simp add: request_pairs_def odd_message_def)
  from validate_grpc_field [OF p this, of Unary] have "digits (getValue ?c ''sleep'')"
    by (simp add: digits_def is_digit_code)
  then have "\<not> panics (getActionValue ?c ''sleep'' (\<lambda>_. 0))"
    using getActionValue_single [of "''sleep''" ?c] by (simp add: ranged_key_def)
  then obtain result g where e: "evaluate ?c (\<lambda>_. 0) = Inr (result, g)"
    using evaluate_single [OF odd_commands(1) [OF p]] by blast
  obtain h c m hs ins ress d where run: "handler plain_grpc_env Unary plain_ctx odd_message (\<lambda>_. 0) new_grpc =
      Some (Inr ([SendResp (Full h c m rq hs ins ress d)], new_grpc))"
    using rq e odd_commands(3) [OF p, of Unary]
    by (auto simp: handler_def Let_def send_last_def createResponse_def response_data_def read_load_free
        plain_grpc_env_def plain_env_def)
  have "ins = sort (message_lines odd_message)"
    using grpc_echo [OF run] by (simp add: plain_grpc_env_def)
  also have "\<dots> = [''code: 17'', ''sleep: 10'']" by code_simp
  finally show ?thesis using run by blast
qed

theorem handler_balanced_witness:
  "\<exists>evs st. handler plain_grpc_env ServerStream plain_ctx empty_request (\<lambda>_. 0) new_grpc = Some (Inr (evs, st)) \<and>
     count_ev is_add evs + 1 = count_ev is_send evs + count_ev is_done evs"
proof -
  obtain x where x: "handler plain_grpc_env ServerStream plain_ctx empty_request (\<lambda>_. 0) new_grpc =
      Some (Inr ([SendResp x], new_grpc))"
    using idle_handler by blast
  from handler_balanced [OF this] x show ?thesis by blast
qed

section \<open>Addresses\<close>

text \<open>C22. The addresses of a gRPC call are derived as those of an HTTP request: with the same
  forwarded-for header, or none, over a connection between the same two addresses, the client,
  proxy, last hop and target addresses that conditions are tested against are the same.\<close>

theorem addresses_agree:
  assumes "getByRemoteAddr ks remote = Some k" and "csMaps (net s) k = Some cs"
    and "localAddr (conn_of (net s) (csConn cs)) = local"
    and "hRemote r = remote" and "map_of (hHeader r) ''X-Forwarded-For'' = map_option (\<lambda>v. [v]) xff"
    and "ctxMD ctx = Some md" and "map_of md ''x-forwarded-for'' = map_option (\<lambda>v. [v]) xff"
    and "ctxPeer ctx = Some (remote, local)"
    and "rq0 = plain_get\<lparr>reqClientIP := [], reqTargetIP := [], reqLastHopIP := []\<rparr>"
  shows "\<exists>rq. newRequestInfoFromContext port ctx = Inr rq \<and>
    (let h = fst (setIPAddress False hst ks r (rq0, s)) in
      reqClientIP rq = reqClientIP h \<and> reqProxy1IP rq = reqProxy1IP h \<and> reqProxy2IP rq = reqProxy2IP h \<and>
      reqProxy3IP rq = reqProxy3IP h \<and> reqLastHopIP rq = reqLastHopIP h \<and> reqTargetIP rq = reqTargetIP h)"
proof -
  define v where "v = (case xff of None \<Rightarrow> [] | Some v \<Rightarrow> v)"
  have key: "header_key ''X-Forwarded-For'' = ''X-Forwarded-For''" by code_simp
  have h: "header_Get ''X-Forwarded-For'' (hHeader r) = v"
    using assms(5) by (cases xff) (simp_all add: header_Get_def key v_def)
  have f: "forwarded_for (ctxMD ctx) = Inr v"
    using assms(6,7) by (cases xff) (simp_all add: forwarded_for_def v_def go_index_def)
  consider "length (splitXFF v) = 0" | "length (splitXFF v) = 1" | "length (splitXFF v) = 2"
    | "length (splitXFF v) = 3" | "4 \<le> length (splitXFF v)"
    by linarith
  then show ?thesis
    unfolding newRequestInfoFromContext_def getMDSetFromContext_def f setIPAddress_def Let_def h assms(1,4,8)
      assms(9) plain_get_def
    by cases (simp_all add: assms(2,3), auto)
qed

theorem addresses_agree_witness:
  "let w = one_conn (tcp_conn client server80) StateActive;
       r = post_abc\<lparr>hRemote := client, hHeader := [(''X-Forwarded-For'', [''203.0.113.9, 192.0.2.77''])]\<rparr>;
       ctx = plain_ctx\<lparr>ctxMD := Some [(''x-forwarded-for'', [''203.0.113.9, 192.0.2.77''])],
                       ctxPeer := Some (client, server80)\<rparr>
   in \<exists>rq hst. newRequestInfoFromContext 50052 ctx = Inr rq \<and>
        reqClientIP rq = reqClientIP (fst (setIPAddress False hst [connKey client server80] r
          (plain_get\<lparr>reqClientIP := [], reqTargetIP := [], reqLastHopIP := []\<rparr>, (new_server 0)\<lparr>net := w\<rparr>)))"
proof -
  let ?w = "one_conn (tcp_conn client server80) StateActive"
  let ?r = "post_abc\<lparr>hRemote := client, hHeader := [(''X-Forwarded-For'', [''203.0.113.9, 192.0.2.77''])]\<rparr>"
  let ?ctx = "plain_ctx\<lparr>ctxMD := Some [(''x-forwarded-for'', [''203.0.113.9, 192.0.2.77''])],
    ctxPeer := Some (client, server80)\<rparr>"
  let ?cs = "\<lparr>csConn = 1, reuse = 0, prevState = StateNew, curState = StateActive\<rparr>"
  have "\<exists>rq. newRequestInfoFromContext 50052 ?ctx = Inr rq \<and>
    (let h = fst (setIPAddress False (host NewDataStore) [connKey client server80] ?r
        (plain_get\<lparr>reqClientIP := [], reqTargetIP := [], reqLastHopIP := []\<rparr>, (new_server 0)\<lparr>net := ?w\<rparr>)) in
      reqClientIP rq = reqClientIP h \<and> reqProxy1IP rq = reqProxy1IP h \<and> reqProxy2IP rq = reqProxy2IP h \<and>
      reqProxy3IP rq = reqProxy3IP h \<and> reqLastHopIP rq = reqLastHopIP h \<and> reqTargetIP rq = reqTargetIP h)"
    by (rule addresses_agree [where k = "connKey client server80" and cs = ?cs and local = server80
          and remote = client and md = "[(''x-forwarded-for'', [''203.0.113.9, 192.0.2.77''])]"
          and xff = "Some ''203.0.113.9, 192.0.2.77''"])
      (simp_all add: one_conn_def conn_of_def)
  then show ?thesis unfolding Let_def by blast
qed

section \<open>Repeated responses\<close>

text \<open>Where the repeat action is accepted: only in the modes that stream responses. A range must
  not start at 0, but a single number may be 0 and then stands for one response. What is refused
  leaves the actions and joins the invalid parameters, so that the request as a whole is not acted
  on.\<close>

theorem repeat_accepted:
  assumes "rx_match regexpNumRange value"
  shows "\<not> repeat_invalid mode value \<longleftrightarrow>
    (mode = ServerStream \<or> mode = BidiStream) \<and>
    (digits value \<or> (\<exists>a b. value = a @ ''-'' @ b \<and> digits a \<and> digits b \<and> range_lo a b \<noteq> 0))"
proof (cases "digits value")
  case True
  then have "split ''-'' value = [value]" using digits_no_dash split_no_sep by blast
  with True show ?thesis by (cases mode) (auto simp: repeat_invalid_def Let_def)
next
  case False
  with assms obtain a b where ab: "value = a @ ''-'' @ b" "digits a" "digits b"
    by (auto simp: match_num_range_digits)
  have sp: "split ''-'' value = [a, b]"
    using ab(2,3) [THEN digits_no_dash] by (simp add: ab(1) split_append_sep split_no_sep)
  have lo: "(if sat_val a > sat_val b then sat_val b else sat_val a) = range_lo a b"
    by (simp add: range_lo_def)
  have eq: "a' = a \<and> b' = b" if "value = a' @ ''-'' @ b'" "digits a'" "digits b'" for a' b'
    using that sp split_append_sep [of "CHR ''-''"] split_no_sep [of "CHR ''-''"] digits_no_dash
    by (metis append_Cons append_Nil list.inject)
  have "repeat_invalid mode value \<longleftrightarrow> mode = Unary \<or> mode = ClientStream \<or> range_lo a b = 0"
    unfolding repeat_invalid_def sp using ab(2,3) by (simp add: Let_def atoi_sat lo)
  moreover have "(\<exists>a b. value = a @ ''-'' @ b \<and> digits a \<and> digits b \<and> range_lo a b \<noteq> 0) \<longleftrightarrow> range_lo a b \<noteq> 0"
    using ab eq by blast
  ultimately show ?thesis using False by (cases mode) simp_all
qed

theorem repeat_accepted_witness:
  "\<not> repeat_invalid ServerStream ''0'' \<and> repeat_invalid ServerStream ''0-5''"
proof -
  have d: "digits ''0''" "digits ''5''" "\<not> digits ''0-5''"
    by (simp_all add: digits_def is_digit_code)
  have v: "sat_val ''0'' = 0" "sat_val ''5'' = 5"
    by (simp_all add: sat_val_def dec_val_def digit_val_def max_int64_def)
  have s: "''0-5'' = ''0'' @ ''-'' @ ''5''" by simp
  have m: "rx_match regexpNumRange ''0''" "rx_match regexpNumRange ''0-5''"
    using d s unfolding match_num_range_digits by blast+
  have "a = ''0'' \<and> b = ''5''" if "''0-5'' = a @ ''-'' @ b" "digits a" "digits b" for a b
    using that by (auto simp: Cons_eq_append_conv digits_def)
  then have "\<not> (\<exists>a b. ''0-5'' = a @ ''-'' @ b \<and> digits a \<and> digits b \<and> range_lo a b \<noteq> 0)"
    by (metis range_lo_def v min.commute min_def zero_le_numeral)
  then show ?thesis
    using repeat_accepted [OF m(1), of ServerStream] repeat_accepted [OF m(2), of ServerStream] d by blast
qed

end
