(* ===== verification/GrpcStream.thy ===== *)
theory GrpcStream
  imports Grpc
begin

text \<open>
  grpc.go: how the goroutines of a \<open>ServerStream\<close> call interleave. The method itself, one
  handler, the sender and a waiter run together over two channels and a wait group. A state holds
  where each of them is; a step is one operation of one of them, so that a run is any
  interleaving. The response channel is unbuffered: a send and its receipt are one step. The error
  channel has room for one error. The handler is the sequence of its operations, in particular
  those that \<open>handler\<close> computes.
\<close>

section \<open>The wait group\<close>

record wait_group =
  wgInner :: int
  wgCnt :: int

definition newWaitGroup :: wait_group where
  "newWaitGroup = \<lparr>wgInner = 0, wgCnt = 0\<rparr>"

definition wg_add :: "int \<Rightarrow> wait_group \<Rightarrow> wait_group" where
  "wg_add num wg = wg\<lparr>wgInner := wgInner wg + num, wgCnt := wgCnt wg + num\<rparr>"

definition wg_done :: "wait_group \<Rightarrow> wait_group" where
  "wg_done wg =
     (if wgCnt wg > 0 then wg\<lparr>wgInner := wgInner wg - 1, wgCnt := wgCnt wg - 1\<rparr> else wg)"

definition wg_finish :: "wait_group \<Rightarrow> wait_group" where
  "wg_finish wg = wg\<lparr>wgInner := wgInner wg - max 0 (wgCnt wg), wgCnt := 0\<rparr>"

text \<open>\<open>wait\<close> returns when the inner counter is zero.\<close>

definition wg_ready :: "wait_group \<Rightarrow> bool" where
  "wg_ready wg = (wgInner wg = 0)"

definition wg_is :: "nat \<Rightarrow> wait_group \<Rightarrow> bool" where
  "wg_is n wg = (wgInner wg = int n \<and> wgCnt wg = int n)"

lemma wg_is_ops:
  "wg_is 0 newWaitGroup"
  "wg_is n wg \<Longrightarrow> wg_is (Suc n) (wg_add 1 wg)"
  "wg_is (Suc n) wg \<Longrightarrow> wg_is n (wg_done wg)"
  "wg_is n wg \<Longrightarrow> wg_ready wg \<longleftrightarrow> n = 0"
  by (auto simp: wg_is_def newWaitGroup_def wg_add_def wg_done_def wg_ready_def)

section \<open>States and steps\<close>

datatype stream_err = NoErr | CodeErr code | SendFailed

fun err_of :: "code option \<Rightarrow> stream_err" where
  "err_of None = NoErr"
| "err_of (Some c) = CodeErr c"

text \<open>Where the sender is: receiving, with a message, after sending it, with an error to report,
  after reporting it; and once the channel is closed, with \<open>nil\<close> to report, and after it.\<close>

datatype sender_pc = Receiving | Got grpc_response | Sent | Failing | Failed | Closing | Ended

datatype method_pc = Selecting | Draining | Returned stream_err

record stream_state =
  ops :: "hev list"
  spc :: sender_pc
  mpc :: method_pc
  wg :: wait_group
  errChan :: "stream_err option"
  closed :: bool
  waitDone :: bool
  delivered :: "grpc_response list"
  panicked :: bool

definition stream_init :: "hev list \<Rightarrow> stream_state" where
  "stream_init evs = \<lparr>ops = evs, spc = Receiving, mpc = Selecting, wg = wg_add 1 newWaitGroup,
     errChan = None, closed = False, waitDone = False, delivered = [], panicked = False\<rparr>"

inductive stream_step :: "stream_state \<Rightarrow> stream_state \<Rightarrow> bool" where
  h_add: "ops s = WgAdd # r \<Longrightarrow> stream_step s (s\<lparr>ops := r, wg := wg_add 1 (wg s)\<rparr>)"
| h_done: "ops s = WgDone # r \<Longrightarrow> stream_step s (s\<lparr>ops := r, wg := wg_done (wg s)\<rparr>)"
| h_send: "ops s = SendResp x # r \<Longrightarrow> \<not> closed s \<Longrightarrow> spc s = Receiving \<Longrightarrow>
    stream_step s (s\<lparr>ops := r, spc := Got x\<rparr>)"
| h_panic: "ops s = SendResp x # r \<Longrightarrow> closed s \<Longrightarrow> stream_step s (s\<lparr>ops := [], panicked := True\<rparr>)"
| h_err: "ops s = SendErr e # r \<Longrightarrow> errChan s = None \<Longrightarrow>
    stream_step s (s\<lparr>ops := r, errChan := Some (err_of e)\<rparr>)"
| s_ok: "spc s = Got x \<Longrightarrow> stream_step s (s\<lparr>spc := Sent, delivered := delivered s @ [x]\<rparr>)"
| s_fail: "spc s = Got x \<Longrightarrow> stream_step s (s\<lparr>spc := Failing\<rparr>)"
| s_done: "spc s = Sent \<Longrightarrow> stream_step s (s\<lparr>spc := Receiving, wg := wg_done (wg s)\<rparr>)"
| s_report: "spc s = Failing \<Longrightarrow> errChan s = None \<Longrightarrow>
    stream_step s (s\<lparr>spc := Failed, errChan := Some SendFailed\<rparr>)"
| s_closed: "spc s = Receiving \<Longrightarrow> closed s \<Longrightarrow> stream_step s (s\<lparr>spc := Closing\<rparr>)"
| s_nil: "spc s = Closing \<Longrightarrow> errChan s = None \<Longrightarrow>
    stream_step s (s\<lparr>spc := Ended, errChan := Some NoErr\<rparr>)"
| w_done: "wg_ready (wg s) \<Longrightarrow> \<not> waitDone s \<Longrightarrow> stream_step s (s\<lparr>waitDone := True\<rparr>)"
| m_err: "mpc s = Selecting \<or> mpc s = Draining \<Longrightarrow> errChan s = Some e \<Longrightarrow>
    stream_step s (s\<lparr>mpc := Returned e, errChan := None\<rparr>)"
| m_close: "mpc s = Selecting \<Longrightarrow> waitDone s \<Longrightarrow>
    stream_step s (s\<lparr>mpc := Draining, closed := True\<rparr>)"

section \<open>Invariant\<close>

text \<open>The credit that the handler holds in the wait group is what its remaining operations use
  up, and they increment or send only while there is some.\<close>

fun good :: "nat \<Rightarrow> hev list \<Rightarrow> bool" where
  "good n [] = (n = 0)"
| "good n (WgAdd # r) = (n \<ge> 1 \<and> good (Suc n) r)"
| "good n (SendResp x # r) = (n \<ge> 1 \<and> good (n - 1) r)"
| "good n (WgDone # r) = (n \<ge> 1 \<and> good (n - 1) r)"
| "good n (SendErr e # r) = good n r"

definition in_flight :: "sender_pc \<Rightarrow> nat" where
  "in_flight p = (case p of Got _ \<Rightarrow> 1 | Sent \<Rightarrow> 1 | Failing \<Rightarrow> 1 | Failed \<Rightarrow> 1 | _ \<Rightarrow> 0)"

fun sends :: "hev list \<Rightarrow> grpc_response list" where
  "sends [] = []"
| "sends (SendResp x # r) = x # sends r"
| "sends (_ # r) = sends r"

definition holding :: "sender_pc \<Rightarrow> grpc_response list" where
  "holding p = (case p of Got x \<Rightarrow> [x] | _ \<Rightarrow> [])"

definition stream_inv :: "hev list \<Rightarrow> stream_state \<Rightarrow> bool" where
  "stream_inv evs s =
     ((\<exists>n. good n (ops s) \<and> wg_is (n + in_flight (spc s)) (wg s) \<and> (waitDone s \<longrightarrow> n + in_flight (spc s) = 0)) \<and>
      (closed s \<longrightarrow> waitDone s) \<and> (mpc s = Draining \<longrightarrow> closed s) \<and> \<not> panicked s \<and>
      (spc s \<in> {Closing, Ended} \<longrightarrow> closed s) \<and>
      (spc s \<in> {Failed, Ended} \<longrightarrow> errChan s \<noteq> None \<or> (\<exists>e. mpc s = Returned e)) \<and>
      (spc s \<notin> {Failing, Failed} \<longrightarrow> delivered s @ holding (spc s) @ sends (ops s) = sends evs))"

lemma sender_simps [simp]:
  "in_flight Receiving = 0" "in_flight (Got x) = 1" "in_flight Sent = 1" "in_flight Failing = 1"
  "in_flight Failed = 1" "in_flight Closing = 0" "in_flight Ended = 0"
  "holding Receiving = []" "holding (Got x) = [x]" "holding Sent = []" "holding Failing = []"
  "holding Failed = []" "holding Closing = []" "holding Ended = []"
  by (simp_all add: in_flight_def holding_def)

lemma good_no_sends: "good 0 r \<Longrightarrow> sends r = []"
  by (induction "0::nat" r rule: good.induct) auto

lemma good_app_err: "good n (SendErr e # r) = good n r"
  by simp

text \<open>No operation reports success through the error channel; only the sender does.\<close>

definition no_ok :: "hev list \<Rightarrow> bool" where
  "no_ok evs = (SendErr None \<notin> set evs)"

lemma no_ok_Cons: "no_ok (e # r) \<longleftrightarrow> e \<noteq> SendErr None \<and> no_ok r"
  by (auto simp: no_ok_def)

text \<open>A status OK is given, or on its way, only after the response channel has been closed.\<close>

definition ok_after_close :: "stream_state \<Rightarrow> bool" where
  "ok_after_close s = (no_ok (ops s) \<and> (errChan s = Some NoErr \<or> mpc s = Returned NoErr \<longrightarrow> closed s) \<and>
     (spc s \<in> {Closing, Ended} \<longrightarrow> closed s))"

lemma err_of_NoErr: "err_of e = NoErr \<longleftrightarrow> e = None"
  by (cases e) simp_all

lemma ok_after_close_step:
  "stream_step s t \<Longrightarrow> ok_after_close s \<Longrightarrow> ok_after_close t"
  by (induction rule: stream_step.induct)
    (auto simp: ok_after_close_def no_ok_Cons err_of_NoErr, auto simp: no_ok_def)

lemma stream_inv_step:
  assumes "stream_inv evs s" and "stream_step s t"
  shows "stream_inv evs t"
  using assms(2,1)
proof (induction rule: stream_step.induct)
  case (h_add s r)
  then obtain n where n: "good (Suc n) r" "n \<ge> 1" "wg_is (n + in_flight (spc s)) (wg s)"
      "waitDone s \<longrightarrow> n + in_flight (spc s) = 0"
    by (auto simp: stream_inv_def)
  then have "wg_is (Suc n + in_flight (spc s)) (wg_add 1 (wg s))"
    by (simp add: wg_is_ops)
  with n h_add show ?case by (auto simp: stream_inv_def intro!: exI [of _ "Suc n"])
next
  case (h_done s r)
  then obtain n where n: "good n r" "wg_is (Suc n + in_flight (spc s)) (wg s)"
      "waitDone s \<longrightarrow> Suc n + in_flight (spc s) = 0"
    by (auto simp: stream_inv_def Suc_le_eq gr0_conv_Suc)
  then have "wg_is (n + in_flight (spc s)) (wg_done (wg s))"
    by (simp add: wg_is_ops)
  with n h_done show ?case by (auto simp: stream_inv_def)
next
  case (h_send s x r)
  then obtain n where n: "good n r" "wg_is (Suc n) (wg s)" "waitDone s \<longrightarrow> False"
    by (auto simp: stream_inv_def Suc_le_eq gr0_conv_Suc)
  with h_send show ?case by (auto simp: stream_inv_def)
next
  case (h_panic s x r)
  then show ?case by (auto simp: stream_inv_def)
next
  case (s_done s)
  then obtain n where n: "good n (ops s)" "wg_is (Suc n) (wg s)" "\<not> waitDone s"
    by (auto simp: stream_inv_def)
  then have "wg_is n (wg_done (wg s))"
    by (simp add: wg_is_ops)
  with n s_done show ?case by (auto simp: stream_inv_def)
next
  case (w_done s)
  then obtain n where n: "good n (ops s)" "wg_is (n + in_flight (spc s)) (wg s)"
    by (auto simp: stream_inv_def)
  with w_done have "n + in_flight (spc s) = 0"
    using wg_is_ops(4) by blast
  with n w_done show ?case by (auto simp: stream_inv_def)
qed (auto simp: stream_inv_def)

interpretation stream: invariant_system stream_step "\<lambda>s. stream_inv evs s \<and> ok_after_close s" for evs
  by unfold_locales (use stream_inv_step ok_after_close_step in blast)

lemma stream_inv_init:
  assumes "good 1 evs" and "no_ok evs"
  shows "stream_inv evs (stream_init evs) \<and> ok_after_close (stream_init evs)"
proof -
  have "wg_is 1 (wg_add 1 newWaitGroup)"
    using wg_is_ops(2) [OF wg_is_ops(1)] by simp
  with assms show ?thesis
    by (auto simp: stream_inv_def stream_init_def ok_after_close_def intro!: exI [of _ "1::nat"])
qed

text \<open>What a handler does is good with the credit that \<open>ServerStream\<close> gives it.\<close>

lemma handler_good:
  assumes "handler env mode ctx req g st = Some (Inr (evs, st'))"
  shows "good 1 evs" and "mode = ServerStream \<Longrightarrow> no_ok evs"
proof -
  obtain resps tail where e: "evs = concat (map (\<lambda>x. [WgAdd, SendResp x]) resps) @ tail"
    and t: "handler_end mode tail"
    using handler_shape [OF assms] by blast
  have "good 1 tail" using t by (auto simp: handler_end_def)
  then show "good 1 evs"
    unfolding e by (induction resps) simp_all
  show "no_ok evs" if "mode = ServerStream"
    using t that by (auto simp: e handler_end_def no_ok_def)
qed

lemma stream_reach:
  assumes "handler env ServerStream ctx req g st = Some (Inr (evs, st'))"
    and "stream_step\<^sup>*\<^sup>* (stream_init evs) s"
  shows "stream_inv evs s" and "ok_after_close s"
  using stream.run_inv [OF assms(2), of evs] stream_inv_init handler_good [OF assms(1)] by blast+

section \<open>Safety\<close>

lemma closed_delivered:
  assumes "stream_inv evs s" and "closed s"
  shows "delivered s = sends evs"
proof -
  obtain n where "good n (ops s)" "n + in_flight (spc s) = 0"
    using assms by (auto simp: stream_inv_def)
  then have "good 0 (ops s)" "in_flight (spc s) = 0" by auto
  moreover from this have "spc s \<notin> {Failing, Failed}" "holding (spc s) = []"
    by (cases "spc s"; simp)+
  ultimately show ?thesis
    using assms(1) good_no_sends by (auto simp: stream_inv_def)
qed

text \<open>C19. However the goroutines of a \<open>ServerStream\<close> call interleave, no response is ever
  sent on the closed channel, the wait group never goes below zero and its two counters agree, and
  the call ends with status OK only when every response of its handler has been handed to the
  stream, in order.\<close>

theorem stream_safe:
  assumes "handler env ServerStream ctx req g st = Some (Inr (evs, st'))"
    and "stream_step\<^sup>*\<^sup>* (stream_init evs) s"
  shows "\<not> panicked s \<and> 0 \<le> wgInner (wg s) \<and> wgCnt (wg s) = wgInner (wg s) \<and>
    (mpc s = Returned NoErr \<longrightarrow> delivered s = sends evs)"
proof -
  note inv = stream_reach [OF assms]
  have "mpc s = Returned NoErr \<longrightarrow> closed s"
    using inv(2) by (auto simp: ok_after_close_def)
  moreover have "\<not> panicked s" using inv(1) by (simp add: stream_inv_def)
  moreover obtain n where "wg_is n (wg s)" using inv(1) by (auto simp: stream_inv_def)
  then have "0 \<le> wgInner (wg s) \<and> wgCnt (wg s) = wgInner (wg s)" by (simp add: wg_is_def)
  ultimately show ?thesis using closed_delivered [OF inv(1)] by blast
qed

section \<open>Progress\<close>

fun sender_rank :: "sender_pc \<Rightarrow> nat" where
  "sender_rank (Got _) = 4"
| "sender_rank Sent = 3"
| "sender_rank Failing = 3"
| "sender_rank Failed = 2"
| "sender_rank Receiving = 2"
| "sender_rank Closing = 1"
| "sender_rank Ended = 0"

fun method_rank :: "method_pc \<Rightarrow> nat" where
  "method_rank Selecting = 2"
| "method_rank Draining = 1"
| "method_rank (Returned e) = 0"

definition stream_rank :: "stream_state \<Rightarrow> nat" where
  "stream_rank s = 5 * length (ops s) + sender_rank (spc s) + method_rank (mpc s) + (if waitDone s then 0 else 1)"

lemma stream_rank_step: "stream_step s t \<Longrightarrow> stream_rank t < stream_rank s"
  by (induction rule: stream_step.induct) (auto simp: stream_rank_def)

interpretation stream_ranked: ranked_system stream_step stream_rank
  by unfold_locales (rule stream_rank_step)

lemma stream_can_step:
  assumes "\<nexists>t. stream_step s t"
  shows "mpc s = Selecting \<or> mpc s = Draining \<Longrightarrow> errChan s = None"
    and "errChan s = None \<Longrightarrow> spc s \<in> {Receiving, Failed, Ended}"
    and "spc s = Receiving \<Longrightarrow> \<not> closed s"
    and "wg_ready (wg s) \<Longrightarrow> waitDone s"
    and "waitDone s \<Longrightarrow> mpc s \<noteq> Selecting"
    and "errChan s = None \<Longrightarrow> spc s = Receiving \<Longrightarrow> \<not> closed s \<Longrightarrow> ops s = []"
proof -
  have no: "\<not> stream_step s t" for t using assms by blast
  show "errChan s = None" if "mpc s = Selecting \<or> mpc s = Draining"
    using that no m_err [of s] by (cases "errChan s") blast+
  show "spc s \<in> {Receiving, Failed, Ended}" if "errChan s = None"
    using that no s_ok [of s] s_done [of s] s_report [of s] s_nil [of s] by (cases "spc s") simp_all
  show "\<not> closed s" if "spc s = Receiving"
    using that no s_closed [of s] by blast
  show "waitDone s" if "wg_ready (wg s)"
    using that no w_done [of s] by blast
  show "mpc s \<noteq> Selecting" if "waitDone s"
    using that no m_close [of s] by blast
  show "ops s = []" if that: "errChan s = None" "spc s = Receiving" "\<not> closed s"
  proof (cases "ops s")
    case (Cons e r)
    then show ?thesis
      using that no h_add [of s] h_done [of s] h_send [of s] h_err [of s] by (cases e) simp_all
  qed
qed

lemma stream_stuck:
  assumes inv: "stream_inv evs s" and stuck: "\<nexists>t. stream_step s t"
  shows "\<exists>e. mpc s = Returned e"
proof (rule ccontr)
  assume "\<nexists>e. mpc s = Returned e"
  then have m: "mpc s = Selecting \<or> mpc s = Draining" by (cases "mpc s") auto
  note can = stream_can_step [OF stuck]
  have err: "errChan s = None" using can(1) [OF m] .
  have "\<not> (spc s \<in> {Failed, Ended})"
    using inv err m by (auto simp: stream_inv_def)
  then have rec: "spc s = Receiving" using can(2) [OF err] by blast
  have open_chan: "\<not> closed s" using can(3) [OF rec] .
  have "ops s = []" using can(6) [OF err rec open_chan] .
  then have "wg_is 0 (wg s)" using inv rec by (auto simp: stream_inv_def)
  then have "waitDone s" using can(4) wg_is_ops(4) by blast
  then have "mpc s = Draining" using can(5) m by blast
  with inv open_chan show False by (simp add: stream_inv_def)
qed


section \<open>The order of the error and the decrement\<close>

lemma step_first: "stream_step s t \<Longrightarrow> stream_step\<^sup>*\<^sup>* t u \<Longrightarrow> stream_step\<^sup>*\<^sup>* s u"
  by (rule converse_rtranclp_into_rtranclp)

lemmas stream_start = stream_init_def wg_add_def wg_done_def wg_ready_def newWaitGroup_def

lemma run_response:
  "stream_step\<^sup>*\<^sup>* (stream_init (WgAdd # SendResp x # tail)\<lparr>delivered := d\<rparr>)
     (stream_init tail\<lparr>delivered := d @ [x]\<rparr>)"
  apply (rule step_first, rule h_add, simp add: stream_start)
  apply (rule step_first, rule h_send, simp, simp add: stream_start, simp add: stream_start)
  apply (rule step_first, rule s_ok, simp)
  apply (rule step_first, rule s_done, simp)
  apply (simp add: stream_start)
  done

lemma run_responses:
  "stream_step\<^sup>*\<^sup>* (stream_init (concat (map (\<lambda>x. [WgAdd, SendResp x]) resps) @ tail)\<lparr>delivered := d\<rparr>)
     (stream_init tail\<lparr>delivered := d @ resps\<rparr>)"
proof (induction resps arbitrary: d)
  case Nil
  then show ?case by simp
next
  case (Cons x resps)
  from rtranclp_trans [OF run_response Cons.IH [of "d @ [x]"]] show ?case by simp
qed

lemma run_to_end:
  "\<exists>s. stream_step\<^sup>*\<^sup>* (stream_init [SendResp x]\<lparr>delivered := d\<rparr>) s \<and> mpc s = Returned NoErr \<and> delivered s = d @ [x]"
  apply (rule exI, rule conjI)
   apply (rule step_first, rule h_send, simp add: stream_start, simp add: stream_start, simp add: stream_start)
   apply (rule step_first, rule s_ok, simp)
   apply (rule step_first, rule s_done, simp)
   apply (rule step_first, rule w_done, simp add: stream_start, simp add: stream_start)
   apply (rule step_first, rule m_close, simp add: stream_start, simp)
   apply (rule step_first, rule s_closed, simp, simp)
   apply (rule step_first, rule s_nil, simp, simp add: stream_start)
   apply (rule step_first, rule m_err, simp, simp)
   apply (rule rtranclp.rtrancl_refl)
  apply (simp add: stream_start)
  done

lemma run_losing:
  "\<exists>s. stream_step\<^sup>*\<^sup>* (stream_init [WgDone, SendErr e]\<lparr>delivered := d\<rparr>) s \<and> mpc s = Returned NoErr"
  apply (rule exI, rule conjI)
   apply (rule step_first, rule h_done, simp add: stream_start)
   apply (rule step_first, rule w_done, simp add: stream_start, simp add: stream_start)
   apply (rule step_first, rule m_close, simp add: stream_start, simp)
   apply (rule step_first, rule s_closed, simp add: stream_start, simp)
   apply (rule step_first, rule s_nil, simp, simp add: stream_start)
   apply (rule step_first, rule m_err, simp, simp)
   apply (rule rtranclp.rtrancl_refl)
  apply simp
  done

text \<open>Where the error goes before the decrement it stays ahead of the closing of the channel.\<close>

definition err_first :: "code \<Rightarrow> stream_state \<Rightarrow> bool" where
  "err_first c s = (mpc s \<noteq> Returned NoErr \<and>
     ((\<exists>e. mpc s = Returned e) \<or>
      (errChan s \<noteq> Some NoErr \<and>
       ((\<exists>r. ops s = r @ [SendErr (Some c), WgDone]) \<or> (ops s = [WgDone] \<or> ops s = []) \<and> errChan s \<noteq> None))))"

lemma good_0_err: "\<not> good 0 (r @ [SendErr e, WgDone])"
proof (induction r)
  case (Cons a r)
  then show ?case by (cases a) auto
qed simp

lemma err_first_step:
  assumes "stream_step s t" and "err_first c s" and "stream_inv evs s" and "no_ok (ops s)"
  shows "err_first c t"
  using assms
proof (induction rule: stream_step.induct)
  case (h_add s r)
  then show ?case by (auto simp: err_first_def Cons_eq_append_conv)
next
  case (h_done s r)
  then show ?case by (auto simp: err_first_def Cons_eq_append_conv)
next
  case (h_send s x r)
  then show ?case by (auto simp: err_first_def Cons_eq_append_conv)
next
  case (h_panic s x r)
  then have "\<exists>n. good n (ops s) \<and> n = 0" by (auto simp: stream_inv_def)
  with h_panic show ?case by auto
next
  case (h_err s e r)
  then show ?case by (auto simp: err_first_def Cons_eq_append_conv no_ok_def err_of_NoErr)
next
  case (s_nil s)
  then have "good 0 (ops s)" by (auto simp: stream_inv_def)
  with s_nil good_0_err show ?case by (auto simp: err_first_def)
qed (auto simp: err_first_def)

lemma err_first_run:
  assumes "stream_step\<^sup>*\<^sup>* s t" and "err_first c s" and "stream_inv evs s" and "ok_after_close s"
  shows "err_first c t"
  using assms
proof (induction rule: rtranclp_induct)
  case base
  then show ?case by simp
next
  case (step u v)
  have "stream_inv evs u \<and> ok_after_close u"
    using stream.run_inv [OF step.hyps(1)] step.prems by blast
  with step err_first_step [of u v c evs] show ?case by (simp add: ok_after_close_def)
qed

text \<open>C21. The order in which a handler reports an error and counts itself done decides whether a
  \<open>ServerStream\<close> call can end with status OK in spite of the error: reporting first, as in the
  repeat loop, the error is never lost; counting itself done first, as on the path of the last
  response, there is a run that ends with OK.\<close>

theorem error_order:
  assumes "handler env ServerStream ctx req g st = Some (Inr (evs, st'))"
  shows "(\<forall>r c. evs = r @ [SendErr (Some c), WgDone] \<longrightarrow>
      (\<forall>s. stream_step\<^sup>*\<^sup>* (stream_init evs) s \<longrightarrow> mpc s \<noteq> Returned NoErr)) \<and>
    (\<forall>r c. evs = r @ [WgDone, SendErr (Some c)] \<longrightarrow>
      (\<exists>s. stream_step\<^sup>*\<^sup>* (stream_init evs) s \<and> mpc s = Returned NoErr))"
proof -
  note start = stream_inv_init [OF handler_good [OF assms]]
  have "mpc s \<noteq> Returned NoErr"
    if "evs = r @ [SendErr (Some c), WgDone]" "stream_step\<^sup>*\<^sup>* (stream_init evs) s" for r c s
  proof -
    have "err_first c (stream_init evs)" using that(1) by (auto simp: err_first_def stream_init_def)
    from err_first_run [OF that(2) this] start show ?thesis by (auto simp: err_first_def)
  qed
  moreover have "\<exists>s. stream_step\<^sup>*\<^sup>* (stream_init evs) s \<and> mpc s = Returned NoErr"
    if "evs = r @ [WgDone, SendErr (Some c)]" for r c
  proof -
    obtain resps tail where e: "evs = concat (map (\<lambda>x. [WgAdd, SendResp x]) resps) @ tail"
      and t: "handler_end ServerStream tail"
      using handler_shape [OF assms] by blast
    have "last evs = SendErr (Some c)" using that by simp
    moreover have "last evs = last tail" using e t by (auto simp: handler_end_def)
    ultimately obtain c' where "tail = [WgDone, SendErr (Some c')]"
      using t by (auto simp: handler_end_def)
    moreover have "stream_init evs = stream_init evs\<lparr>delivered := []\<rparr>" by (simp add: stream_init_def)
    ultimately show ?thesis
      using run_losing rtranclp_trans [OF run_responses] e by metis
  qed
  ultimately show ?thesis by blast
qed

text \<open>A call whose only field is the code 5.\<close>

definition code5 :: gelbo_request where
  "code5 = empty_request\<lparr>getCode := ''5''\<rparr>"

lemma code5_input:
  assumes "prefix ''grpc'' (reqProto rq)"
  shows "let c = validateCommandsForGrpc NewDataStore mode rq code5 in
    actions c = [''code''] \<and> ifMatches c = [] \<and> ifUnmatches c = [] \<and> invalids c = [] \<and>
    cmd_field c ''code'' = ''5'' \<and> cRepeat c = []"
proof -
  have p: "(''code'', ''5'') \<in> set (request_pairs code5)" "(''repeat'', []) \<in> set (request_pairs code5)"
    by (simp_all add: request_pairs_def code5_def empty_request_def)
  have "pick_validator NewDataStore rq ''code'' = Some regexpCode"
    using assms by (simp add: pick_validator_def NewDataStore_def validatorForGrpc_def)
  moreover have "convRequestToMap code5 = [(''code'', [''5''])]"
    by (simp add: convRequestToMap_def request_pairs_def code5_def empty_request_def)
  moreover have "rx_match regexpCode ''5''" "\<not> is_if ''code''"
    by (simp_all add: match_code is_digit_code is_if_def del: rx_match.simps)
  ultimately have "let c = validateCommandsForGrpc NewDataStore mode rq code5 in
    actions c = [''code''] \<and> ifMatches c = [] \<and> ifUnmatches c = [] \<and> invalids c = []"
    by (simp add: validateCommandsForGrpc_def validateCommands_def combineValuesWithOr_def validate_step_def
        Let_def has_action_def del: rx_match.simps)
  with validate_grpc_field [OF assms p(1), of mode] validate_grpc_field [OF assms p(2), of mode]
  show ?thesis by (simp add: Let_def)
qed

lemma code5_handler:
  "\<exists>st. handler plain_grpc_env ServerStream plain_ctx code5 (\<lambda>_. 0) new_grpc =
     Some (Inr ([WgDone, SendErr (Some NotFound)], st))"
proof -
  obtain rq where rq: "newRequestInfoFromContext (gPort plain_grpc_env) plain_ctx = Inr rq"
    using plain_info by blast
  then have g: "prefix ''grpc'' (reqProto rq)"
    by (auto simp: newRequestInfoFromContext_def getMDSetFromContext_def forwarded_for_def plain_ctx_def Let_def)
  let ?input = "validateCommandsForGrpc NewDataStore ServerStream rq code5"
  note input = code5_input [OF g, of ServerStream, unfolded Let_def]
  then have v: "getActionValue ?input ''code'' h = Inr (''5'', h)" for h
    by (simp add: getActionValue_def ranged_key_def)
  then obtain result g' where e: "evaluate ?input (\<lambda>_. 0) = Inr (result, g')"
    using evaluate_single [of ?input "''code''"] input by auto
  have "cmd_field result ''code'' = ''5''"
    using e input v by (simp add: evaluate_def Let_def) auto
  then have c: "getCodeClass (int32 (fst (atoi (getValue result ''code'')))) = NotFound"
    by (simp add: fst_atoi_digits is_digit_code dec_val_def digit_val_def max_int64_def int32_def getCodeClass_def)
  have "\<exists>st. execGrpcAction (gExec plain_grpc_env) plain_ctx rq ?input result new_grpc = Some (Inr (Some NotFound, st))"
    using input c by (simp add: execGrpcAction_def act_load_def act_cpu_def act_memory_def needsAction_def has_action_def md_add_def md_del_def status_error_def)
  then show ?thesis
    using rq e input
    by (auto simp: handler_def plain_grpc_env_def needsAction_def has_action_def handler_acts_def Let_def)
qed

theorem stream_safe_witness:
  "\<exists>evs st s. handler plain_grpc_env ServerStream plain_ctx empty_request (\<lambda>_. 0) new_grpc = Some (Inr (evs, st)) \<and>
     stream_step\<^sup>*\<^sup>* (stream_init evs) s \<and> mpc s = Returned NoErr \<and> length (delivered s) = 1 \<and> delivered s = sends evs"
proof -
  obtain x where x: "handler plain_grpc_env ServerStream plain_ctx empty_request (\<lambda>_. 0) new_grpc =
      Some (Inr ([SendResp x], new_grpc))"
    using idle_handler by blast
  have "stream_init [SendResp x]\<lparr>delivered := []\<rparr> = stream_init [SendResp x]" by (simp add: stream_init_def)
  then obtain s where s: "stream_step\<^sup>*\<^sup>* (stream_init [SendResp x]) s" "mpc s = Returned NoErr" "delivered s = [x]"
    using run_to_end [of "[]" x] by auto
  from stream_safe [OF x s(1)] s x show ?thesis by auto
qed


theorem error_order_witness:
  "\<exists>evs st s. handler plain_grpc_env ServerStream plain_ctx code5 (\<lambda>_. 0) new_grpc = Some (Inr (evs, st)) \<and>
     SendErr (Some NotFound) \<in> set evs \<and> stream_step\<^sup>*\<^sup>* (stream_init evs) s \<and> mpc s = Returned NoErr"
proof -
  obtain st where h: "handler plain_grpc_env ServerStream plain_ctx code5 (\<lambda>_. 0) new_grpc =
     Some (Inr ([WgDone, SendErr (Some NotFound)], st))"
    using code5_handler by blast
  from error_order [OF h] have "\<exists>s. stream_step\<^sup>*\<^sup>* (stream_init [WgDone, SendErr (Some NotFound)]) s \<and> mpc s = Returned NoErr"
    by (metis append_Nil)
  with h show ?thesis by fastforce
qed

section \<open>The calls as their client sees them\<close>

text \<open>The contract of a streaming call: its responses are delivered one after the other, in order;
  with status OK it ends only when all of them have been, and an error may end it at any time.
  Responses that had been handed to the sender may still go out behind an error, none behind OK.\<close>

record call_state =
  pending :: "grpc_response list"
  done_resps :: "grpc_response list"
  status_of :: "stream_err option"

inductive call_step :: "call_state \<Rightarrow> call_state \<Rightarrow> bool" where
  deliver: "pending s = x # r \<Longrightarrow> status_of s \<noteq> Some NoErr \<Longrightarrow>
    call_step s (s\<lparr>pending := r, done_resps := done_resps s @ [x]\<rparr>)"
| finish_ok: "pending s = [] \<Longrightarrow> status_of s = None \<Longrightarrow> call_step s (s\<lparr>status_of := Some NoErr\<rparr>)"
| finish_err: "status_of s = None \<Longrightarrow> e \<noteq> NoErr \<Longrightarrow> call_step s (s\<lparr>status_of := Some e\<rparr>)"

definition call_init :: "grpc_response list \<Rightarrow> call_state" where
  "call_init resps = \<lparr>pending = resps, done_resps = [], status_of = None\<rparr>"

fun outcome :: "method_pc \<Rightarrow> stream_err option" where
  "outcome (Returned e) = Some e"
| "outcome _ = None"

text \<open>What the client has seen of a state of the goroutines.\<close>

definition call_of :: "hev list \<Rightarrow> stream_state \<Rightarrow> call_state" where
  "call_of evs s = \<lparr>pending = drop (length (delivered s)) (sends evs), done_resps = delivered s,
     status_of = outcome (mpc s)\<rparr>"

lemma call_simulation:
  assumes "stream_step s t" and "stream_inv evs s" and "ok_after_close s"
  shows "call_step\<^sup>=\<^sup>= (call_of evs s) (call_of evs t)"
  using assms
proof (induction rule: stream_step.induct)
  case (s_ok s x)
  then have e: "sends evs = delivered s @ x # sends (ops s)"
    by (simp add: stream_inv_def)
  have "mpc s \<noteq> Returned NoErr"
  proof
    assume "mpc s = Returned NoErr"
    with s_ok have "delivered s = sends evs" using closed_delivered by (simp add: ok_after_close_def)
    with e show False by simp
  qed
  then have "outcome (mpc s) \<noteq> Some NoErr" by (cases "mpc s") auto
  with e show ?case
    using deliver [of "call_of evs s" x "sends (ops s)"] by (simp add: call_of_def)
next
  case (m_err s e)
  then have out: "outcome (mpc s) = None" by auto
  show ?case
  proof (cases "e = NoErr")
    case True
    with m_err have "delivered s = sends evs" using closed_delivered by (simp add: ok_after_close_def)
    with True out show ?thesis using finish_ok [of "call_of evs s"] by (simp add: call_of_def)
  next
    case False
    with out show ?thesis using finish_err [of "call_of evs s" e] by (simp add: call_of_def)
  qed
next
  case (m_close s)
  then show ?case by (simp add: call_of_def)
qed (simp_all add: call_of_def)

text \<open>C24. A \<open>ServerStream\<close> call keeps the contract of a streaming call: whatever the
  interleaving of its goroutines, what the client sees is a run of the contract, which delivers the
  responses of the handler in their order and ends with OK only after the last.\<close>

theorem stream_refines:
  assumes "handler env ServerStream ctx req g st = Some (Inr (evs, st'))"
    and "stream_step\<^sup>*\<^sup>* (stream_init evs) s"
  shows "call_step\<^sup>*\<^sup>* (call_init (sends evs)) (call_of evs s)"
  using assms(2)
proof (induction rule: rtranclp_induct)
  case base
  then show ?case by (simp add: call_of_def call_init_def stream_init_def)
next
  case (step t u)
  from call_simulation [OF step.hyps(2) stream_reach [OF assms(1) step.hyps(1)]] step.IH
  show ?case by auto
qed

theorem stream_refines_witness:
  "\<exists>evs st s x. handler plain_grpc_env ServerStream plain_ctx empty_request (\<lambda>_. 0) new_grpc = Some (Inr (evs, st)) \<and>
     evs = [SendResp x] \<and> stream_step\<^sup>*\<^sup>* (stream_init evs) s \<and> call_of evs s = \<lparr>pending = [], done_resps = [x], status_of = Some NoErr\<rparr> \<and>
     call_step\<^sup>*\<^sup>* (call_init [x]) (call_of evs s)"
proof -
  obtain x where x: "handler plain_grpc_env ServerStream plain_ctx empty_request (\<lambda>_. 0) new_grpc =
      Some (Inr ([SendResp x], new_grpc))"
    using idle_handler by blast
  have "stream_init [SendResp x]\<lparr>delivered := []\<rparr> = stream_init [SendResp x]" by (simp add: stream_init_def)
  then obtain s where s: "stream_step\<^sup>*\<^sup>* (stream_init [SendResp x]) s" "mpc s = Returned NoErr" "delivered s = [x]"
    using run_to_end [of "[]" x] by auto
  from stream_refines [OF x s(1)] s x show ?thesis by (auto simp: call_of_def)
qed

end
