(* ===== verification/GrpcBidi.thy ===== *)
theory GrpcBidi
  imports GrpcStream
begin

text \<open>
  grpc.go: the goroutines of a \<open>BidiStream\<close> call: the method, the receiver, the sender, a
  waiter, and one handler for each message of the client. Requests arrive through one unbuffered
  channel, responses leave through another; the error channel is unbuffered too, so an error is
  handed over only while the method looks at it. A handler is again the sequence of its operations.
\<close>

section \<open>States and steps\<close>

text \<open>The receiver: waiting for a message, with one, with an error, gone.\<close>

datatype receiver_pc = AtRecv | WithReq "hev list" | WithErr | RecvGone

text \<open>The method: in its loop, waiting for the handlers, at the last look at the error channel,
  returned.\<close>

datatype bidi_pc = InLoop | Waiting | LastLook | BidiReturned stream_err

record bidi_state =
  incoming :: "hev list list"
  rpc :: receiver_pc
  recvClosed :: bool
  running :: "hev list list"
  bspc :: sender_pc
  bmpc :: bidi_pc
  bwg :: wait_group
  bclosed :: bool
  bwaitDone :: bool
  bdelivered :: "grpc_response list"
  bpanicked :: bool

definition bidi_init :: "hev list list \<Rightarrow> bidi_state" where
  "bidi_init evss = \<lparr>incoming = evss, rpc = AtRecv, recvClosed = False, running = [], bspc = Receiving,
     bmpc = InLoop, bwg = newWaitGroup, bclosed = False, bwaitDone = False, bdelivered = [], bpanicked = False\<rparr>"

text \<open>The method takes an error at all three of its select statements.\<close>

definition takes_err :: "bidi_state \<Rightarrow> bool" where
  "takes_err s = (bmpc s \<in> {InLoop, Waiting, LastLook})"

text \<open>\<open>b_default\<close> is the default branch of the last select: it is also open while a goroutine
  is about to offer an error that has not yet arrived at the channel.\<close>

inductive bidi_step :: "bidi_state \<Rightarrow> bidi_state \<Rightarrow> bool" where
  r_recv: "rpc s = AtRecv \<Longrightarrow> incoming s = evs # r \<Longrightarrow> bidi_step s (s\<lparr>rpc := WithReq evs, incoming := r\<rparr>)"
| r_eof: "rpc s = AtRecv \<Longrightarrow> incoming s = [] \<Longrightarrow> bidi_step s (s\<lparr>rpc := RecvGone, recvClosed := True\<rparr>)"
| r_fail: "rpc s = AtRecv \<Longrightarrow> bidi_step s (s\<lparr>rpc := WithErr\<rparr>)"
| r_err: "rpc s = WithErr \<Longrightarrow> takes_err s \<Longrightarrow>
    bidi_step s (s\<lparr>rpc := RecvGone, bmpc := BidiReturned SendFailed\<rparr>)"
| b_req: "rpc s = WithReq evs \<Longrightarrow> bmpc s = InLoop \<Longrightarrow>
    bidi_step s (s\<lparr>rpc := AtRecv, bwg := wg_add 1 (bwg s), running := running s @ [evs]\<rparr>)"
| b_eof: "bmpc s = InLoop \<Longrightarrow> recvClosed s \<Longrightarrow> bidi_step s (s\<lparr>bmpc := Waiting\<rparr>)"
| b_wait: "bmpc s = Waiting \<Longrightarrow> wg_ready (bwg s) \<Longrightarrow> \<not> bwaitDone s \<Longrightarrow> bidi_step s (s\<lparr>bwaitDone := True\<rparr>)"
| b_look: "bmpc s = Waiting \<Longrightarrow> bwaitDone s \<Longrightarrow> bidi_step s (s\<lparr>bmpc := LastLook\<rparr>)"
| b_default: "bmpc s = LastLook \<Longrightarrow> bidi_step s (s\<lparr>bmpc := BidiReturned NoErr, bclosed := True\<rparr>)"
| b_add: "i < length (running s) \<Longrightarrow> running s ! i = WgAdd # r \<Longrightarrow>
    bidi_step s (s\<lparr>running := (running s)[i := r], bwg := wg_add 1 (bwg s)\<rparr>)"
| b_done: "i < length (running s) \<Longrightarrow> running s ! i = WgDone # r \<Longrightarrow>
    bidi_step s (s\<lparr>running := (running s)[i := r], bwg := wg_done (bwg s)\<rparr>)"
| b_send: "i < length (running s) \<Longrightarrow> running s ! i = SendResp x # r \<Longrightarrow> \<not> bclosed s \<Longrightarrow> bspc s = Receiving \<Longrightarrow>
    bidi_step s (s\<lparr>running := (running s)[i := r], bspc := Got x\<rparr>)"
| b_panic: "i < length (running s) \<Longrightarrow> running s ! i = SendResp x # r \<Longrightarrow> bclosed s \<Longrightarrow>
    bidi_step s (s\<lparr>running := (running s)[i := []], bpanicked := True\<rparr>)"
| b_err: "i < length (running s) \<Longrightarrow> running s ! i = SendErr e # r \<Longrightarrow> takes_err s \<Longrightarrow>
    bidi_step s (s\<lparr>running := (running s)[i := r], bmpc := BidiReturned (err_of e)\<rparr>)"
| bs_ok: "bspc s = Got x \<Longrightarrow> bidi_step s (s\<lparr>bspc := Sent, bdelivered := bdelivered s @ [x]\<rparr>)"
| bs_fail: "bspc s = Got x \<Longrightarrow> bidi_step s (s\<lparr>bspc := Failing\<rparr>)"
| bs_done: "bspc s = Sent \<Longrightarrow> bidi_step s (s\<lparr>bspc := Receiving, bwg := wg_done (bwg s)\<rparr>)"
| bs_report: "bspc s = Failing \<Longrightarrow> takes_err s \<Longrightarrow>
    bidi_step s (s\<lparr>bspc := Failed, bmpc := BidiReturned SendFailed\<rparr>)"
| bs_closed: "bspc s = Receiving \<Longrightarrow> bclosed s \<Longrightarrow> bidi_step s (s\<lparr>bspc := Closing\<rparr>)"
| bs_nil: "bspc s = Closing \<Longrightarrow> takes_err s \<Longrightarrow> bidi_step s (s\<lparr>bspc := Ended, bmpc := BidiReturned NoErr\<rparr>)"

section \<open>Invariant\<close>

fun with_req :: "receiver_pc \<Rightarrow> hev list list" where
  "with_req (WithReq evs) = [evs]"
| "with_req _ = []"

text \<open>The responses that have not been delivered, wherever they are.\<close>

definition outstanding :: "bidi_state \<Rightarrow> grpc_response multiset" where
  "outstanding s = mset (holding (bspc s)) +
     (\<Sum>evs \<leftarrow> running s @ with_req (rpc s) @ incoming s. mset (sends evs))"

definition credits :: "nat list \<Rightarrow> bidi_state \<Rightarrow> bool" where
  "credits ns s = (list_all2 good ns (running s) \<and> wg_is (sum_list ns + in_flight (bspc s)) (bwg s) \<and>
     (bwaitDone s \<longrightarrow> sum_list ns + in_flight (bspc s) = 0))"

text \<open>Where the goroutines can be together.\<close>

definition bidi_control :: "bidi_state \<Rightarrow> bool" where
  "bidi_control s =
     ((bmpc s = LastLook \<longrightarrow> bwaitDone s) \<and> (bclosed s \<longleftrightarrow> bmpc s = BidiReturned NoErr) \<and>
      (bclosed s \<longrightarrow> bwaitDone s) \<and> (bmpc s = Waiting \<or> bwaitDone s \<longrightarrow> recvClosed s \<and> bmpc s \<noteq> InLoop) \<and>
      (recvClosed s \<longrightarrow> rpc s = RecvGone \<and> incoming s = []) \<and>
      (bspc s = Closing \<longrightarrow> bclosed s) \<and> bspc s \<noteq> Ended \<and>
      (bspc s = Failed \<longrightarrow> (\<exists>e. bmpc s = BidiReturned e)) \<and>
      (rpc s = RecvGone \<longrightarrow> recvClosed s \<or> (\<exists>e. bmpc s = BidiReturned e)))"

definition no_success :: "bidi_state \<Rightarrow> bool" where
  "no_success s = (\<forall>evs \<in> set (running s @ with_req (rpc s) @ incoming s). no_ok evs)"

definition bidi_credit :: "bidi_state \<Rightarrow> bool" where
  "bidi_credit s = ((\<exists>ns. credits ns s) \<and> (\<forall>evs \<in> set (with_req (rpc s) @ incoming s). good 1 evs))"

definition bidi_delivery :: "hev list list \<Rightarrow> bidi_state \<Rightarrow> bool" where
  "bidi_delivery evss s = (bspc s \<notin> {Failing, Failed} \<longrightarrow>
     mset (bdelivered s) + outstanding s = (\<Sum>evs \<leftarrow> evss. mset (sends evs)))"

lemma no_success_handler:
  "no_success s \<Longrightarrow> i < length (running s) \<Longrightarrow> running s ! i = e # r \<Longrightarrow> e \<noteq> SendErr None"
  unfolding no_success_def no_ok_def by (metis Un_iff list.set_intros(1) nth_mem set_append)

lemma no_success_update:
  assumes "no_success s" and "i < length (running s)" and "running s ! i = e # r"
  shows "\<forall>evs \<in> set ((running s)[i := r]). no_ok evs"
proof
  fix evs assume "evs \<in> set ((running s)[i := r])"
  then consider "evs = r" | "evs \<in> set (running s)" using set_update_subset_insert by fastforce
  moreover have "no_ok (e # r)" using assms nth_mem by (fastforce simp: no_success_def)
  ultimately show "no_ok evs" using assms(1) by cases (auto simp: no_success_def no_ok_Cons)
qed

lemma no_success_step:
  assumes "bidi_step s t" and "no_success s"
  shows "no_success t"
  using assms
proof (induction rule: bidi_step.induct)
  case (b_panic i s x r)
  then show ?case
    using set_update_subset_insert [of "running s" i "[]"] by (fastforce simp: no_success_def no_ok_def)
qed (use no_success_update in \<open>auto simp: no_success_def\<close>)

lemma bidi_control_step:
  assumes "bidi_step s t" and "bidi_control s" and "no_success s"
  shows "bidi_control t"
  using assms
proof (induction rule: bidi_step.induct)
  case (b_err i s e r)
  then have "SendErr e \<noteq> SendErr None" using no_success_handler [of s i "SendErr e" r] by blast
  with b_err show ?case by (auto simp: bidi_control_def takes_err_def err_of_NoErr)
qed (auto simp: bidi_control_def takes_err_def)

lemma list_all2_update_nth:
  "list_all2 P xs ys \<Longrightarrow> i < length ys \<Longrightarrow> P x y \<Longrightarrow> list_all2 P (xs[i := x]) (ys[i := y])"
  by (rule list_all2_update_cong)

text \<open>One operation of handler \<open>i\<close>, with the credits before and after it.\<close>

lemma credits_handler:
  assumes "credits ns s" and "i < length (running s)" and "running s ! i = e # r"
  shows "good (ns ! i) (e # r)" and "i < length ns" and "ns ! i \<le> sum_list ns"
    and "\<And>k. good k r \<Longrightarrow> list_all2 good (ns[i := k]) ((running s)[i := r])"
    and "\<And>k. sum_list (ns[i := k]) = sum_list ns + k - ns ! i"
    and "bwaitDone s \<Longrightarrow> sum_list ns = 0" and "bwaitDone s \<Longrightarrow> ns ! i = 0"
  using assms
  by (auto simp: credits_def list_all2_conv_all_nth nth_list_update sum_list_update member_le_sum_list)

lemma sum_sends_update:
  assumes "i < length hs" and "hs ! i = e # r"
  shows "(\<Sum>evs \<leftarrow> hs. mset (sends evs)) = mset (sends [e]) + (\<Sum>evs \<leftarrow> hs[i := r]. mset (sends evs))"
  using assms
proof (induction hs arbitrary: i)
  case (Cons h hs)
  have "sends (e # r) = sends [e] @ sends r" by (cases e) simp_all
  with Cons show ?case by (cases i) (auto simp: add_ac)
qed simp

lemma credits_update:
  assumes "credits ns s" and "i < length (running s)" and "running s ! i = e # r"
    and "good k r" and "wg_is (sum_list ns + k - ns ! i + in_flight p) w"
    and "bwaitDone s \<Longrightarrow> k = 0 \<and> in_flight p = 0"
  shows "credits (ns[i := k]) (s\<lparr>running := (running s)[i := r], bspc := p, bwg := w\<rparr>)"
proof -
  note h = credits_handler [OF assms(1-3)]
  with assms(4-6) show ?thesis by (auto simp: credits_def simp del: sum_list_eq_0_iff)
qed

text \<open>The wait is not over while a handler has work to do.\<close>

lemma credits_working:
  assumes "credits ns s" and "i < length (running s)" and "running s ! i = e # r" and "\<And>x. e \<noteq> SendErr x"
  shows "\<not> bwaitDone s" and "0 < ns ! i"
proof -
  have "good (ns ! i) (e # r)" by (rule credits_handler(1) [OF assms(1-3)])
  then show pos: "0 < ns ! i" using assms(4) by (cases e) auto
  show "\<not> bwaitDone s"
  proof
    assume "bwaitDone s"
    then have "ns ! i = 0" by (rule credits_handler(7) [OF assms(1-3)])
    with pos show False by simp
  qed
qed

lemma credits_wg: "credits ns s \<Longrightarrow> wg_is (sum_list ns + in_flight (bspc s)) (bwg s)"
  by (simp add: credits_def)

lemma bidi_credit_cong:
  assumes "\<exists>ns. credits ns (s\<lparr>running := h, bspc := p, bwg := w\<rparr>)" and "bidi_credit s"
  shows "bidi_credit (s\<lparr>running := h, bspc := p, bwg := w\<rparr>)"
  using assms by (simp add: bidi_credit_def)

lemma bidi_credit_step:
  assumes "bidi_step s t" and "bidi_credit s" and "bidi_control s"
  shows "bidi_credit t"
  using assms
proof (induction rule: bidi_step.induct)
  case (b_req s evs)
  then obtain ns where "credits ns s" "good 1 evs" "\<not> bwaitDone s"
    by (auto simp: bidi_credit_def bidi_control_def)
  then have "credits (ns @ [1]) (s\<lparr>rpc := AtRecv, bwg := wg_add 1 (bwg s), running := running s @ [evs]\<rparr>)"
    using wg_is_ops(2) [of "sum_list ns + in_flight (bspc s)" "bwg s"]
    by (auto simp: credits_def intro!: list_all2_appendI)
  with b_req show ?case by (auto simp: bidi_credit_def)
next
  case (b_add i s r)
  then obtain ns where c: "credits ns s" by (auto simp: bidi_credit_def)
  note work = credits_working [OF c b_add.hyps, simplified]
  have "good (ns ! i) (WgAdd # r)" by (rule credits_handler(1) [OF c b_add.hyps])
  moreover have "sum_list ns + Suc (ns ! i) - ns ! i + in_flight (bspc s) = Suc (sum_list ns + in_flight (bspc s))"
    by simp
  with wg_is_ops(2) [OF credits_wg [OF c]]
  have "wg_is (sum_list ns + Suc (ns ! i) - ns ! i + in_flight (bspc s)) (wg_add 1 (bwg s))" by simp
  ultimately have "credits (ns[i := Suc (ns ! i)]) (s\<lparr>running := (running s)[i := r], bspc := bspc s, bwg := wg_add 1 (bwg s)\<rparr>)"
    using work by (intro credits_update [OF c b_add.hyps]) simp_all
  with b_add.prems(1) bidi_credit_cong [where s = s and p = "bspc s"] show ?case by simp blast
next
  case (b_done i s r)
  then obtain ns where c: "credits ns s" by (auto simp: bidi_credit_def)
  note work = credits_working [OF c b_done.hyps, simplified]
  have "good (ns ! i) (WgDone # r)" "ns ! i \<le> sum_list ns" using credits_handler(1,3) [OF c b_done.hyps] .
  moreover from this work have "Suc (sum_list ns + (ns ! i - 1) - ns ! i + in_flight (bspc s)) = sum_list ns + in_flight (bspc s)"
    by simp
  with wg_is_ops(3) credits_wg [OF c]
  have "wg_is (sum_list ns + (ns ! i - 1) - ns ! i + in_flight (bspc s)) (wg_done (bwg s))" by metis
  ultimately have "credits (ns[i := ns ! i - 1]) (s\<lparr>running := (running s)[i := r], bspc := bspc s, bwg := wg_done (bwg s)\<rparr>)"
    using work by (intro credits_update [OF c b_done.hyps]) simp_all
  with b_done.prems(1) bidi_credit_cong [where s = s and p = "bspc s"] show ?case by simp blast
next
  case (b_send i s x r)
  then obtain ns where c: "credits ns s" by (auto simp: bidi_credit_def)
  note work = credits_working [OF c b_send.hyps(1,2), simplified]
  have "good (ns ! i) (SendResp x # r)" "ns ! i \<le> sum_list ns" using credits_handler(1,3) [OF c b_send.hyps(1,2)] .
  moreover from this work have "sum_list ns + (ns ! i - 1) - ns ! i + in_flight (Got x) = sum_list ns + in_flight (bspc s)"
    using b_send.hyps by simp
  with credits_wg [OF c]
  have "wg_is (sum_list ns + (ns ! i - 1) - ns ! i + in_flight (Got x)) (bwg s)" by metis
  ultimately have "credits (ns[i := ns ! i - 1]) (s\<lparr>running := (running s)[i := r], bspc := Got x, bwg := bwg s\<rparr>)"
    using work by (intro credits_update [OF c b_send.hyps(1,2)]) simp_all
  with b_send.prems(1) bidi_credit_cong [where s = s and p = "Got x" and w = "bwg s"] show ?case by simp blast
next
  case (b_panic i s x r)
  then obtain ns where c: "credits ns s" "bwaitDone s" by (auto simp: bidi_credit_def bidi_control_def)
  with credits_working(1) [OF c(1) b_panic.hyps(1,2)] show ?case by simp
next
  case (b_err i s e r)
  then obtain ns where c: "credits ns s" by (auto simp: bidi_credit_def)
  have "good (ns ! i) (SendErr e # r)" by (rule credits_handler(1) [OF c b_err.hyps(1,2)])
  then have "list_all2 good (ns[i := ns ! i]) ((running s)[i := r])"
    by (intro credits_handler(4) [OF c b_err.hyps(1,2)]) simp
  then have "credits ns (s\<lparr>running := (running s)[i := r], bmpc := BidiReturned (err_of e)\<rparr>)"
    using c by (simp add: credits_def)
  with b_err.prems(1) show ?case by (auto simp: bidi_credit_def)
next
  case (bs_done s)
  then obtain ns where c: "credits ns s" by (auto simp: bidi_credit_def)
  then have "wg_is (Suc (sum_list ns)) (bwg s)" "\<not> bwaitDone s"
    using bs_done.hyps by (simp_all add: credits_def)
  then have "credits ns (s\<lparr>bspc := Receiving, bwg := wg_done (bwg s)\<rparr>)"
    using c wg_is_ops(3) by (simp add: credits_def)
  with bs_done.prems(1) show ?case by (auto simp: bidi_credit_def)
next
  case (b_wait s)
  then obtain ns where c: "credits ns s" by (auto simp: bidi_credit_def)
  with b_wait.hyps(2) have "sum_list ns + in_flight (bspc s) = 0" using wg_is_ops(4) [OF credits_wg] by blast
  then have "credits ns (s\<lparr>bwaitDone := True\<rparr>)" using c by (simp add: credits_def)
  with b_wait.prems(1) show ?case by (auto simp: bidi_credit_def)
qed (auto simp: bidi_credit_def credits_def)

lemma bidi_delivery_step:
  assumes "bidi_step s t" and "bidi_delivery evss s" and "bidi_credit s" and "bidi_control s"
  shows "bidi_delivery evss t"
  using assms
proof (induction rule: bidi_step.induct)
  case (b_panic i s x r)
  then obtain ns where c: "credits ns s" "bwaitDone s" by (auto simp: bidi_credit_def bidi_control_def)
  with credits_working(1) [OF c(1) b_panic.hyps(1,2)] show ?case by simp
next
  case (b_add i s r)
  with sum_sends_update [OF b_add.hyps] show ?case by (simp add: bidi_delivery_def outstanding_def)
next
  case (b_done i s r)
  with sum_sends_update [OF b_done.hyps] show ?case by (simp add: bidi_delivery_def outstanding_def)
next
  case (b_send i s x r)
  with sum_sends_update [OF b_send.hyps(1,2)] show ?case by (simp add: bidi_delivery_def outstanding_def add_ac)
next
  case (b_err i s e r)
  with sum_sends_update [OF b_err.hyps(1,2)] show ?case by (simp add: bidi_delivery_def outstanding_def)
qed (auto simp: bidi_delivery_def outstanding_def add_ac)


section \<open>Runs\<close>

definition bidi_inv :: "hev list list \<Rightarrow> bidi_state \<Rightarrow> bool" where
  "bidi_inv evss s = (bidi_control s \<and> no_success s \<and> bidi_credit s \<and> bidi_delivery evss s \<and> \<not> bpanicked s)"

lemma bidi_no_panic:
  assumes "bidi_step s t" and "bidi_credit s" and "bidi_control s" and "\<not> bpanicked s"
  shows "\<not> bpanicked t"
  using assms
proof (induction rule: bidi_step.induct)
  case (b_panic i s x r)
  then obtain ns where c: "credits ns s" "bwaitDone s" by (auto simp: bidi_credit_def bidi_control_def)
  with credits_working(1) [OF c(1) b_panic.hyps(1,2)] show ?case by simp
qed auto

lemma bidi_inv_step: "bidi_inv evss s \<Longrightarrow> bidi_step s t \<Longrightarrow> bidi_inv evss t"
  unfolding bidi_inv_def
  using bidi_control_step no_success_step bidi_credit_step bidi_delivery_step bidi_no_panic by blast

interpretation bidi: invariant_system bidi_step "bidi_inv evss" for evss
  by unfold_locales (rule bidi_inv_step)

text \<open>The operations of a handler that serves a request.\<close>

definition serves_req :: "grpc_env \<Rightarrow> call_ctx \<Rightarrow> gelbo_request \<Rightarrow> hev list \<Rightarrow> bool" where
  "serves_req env ctx req evs = (\<exists>g st st'. handler env BidiStream ctx req g st = Some (Inr (evs, st')))"

lemma serves_good:
  assumes "list_all2 (serves_req env ctx) reqs evss" and "evs \<in> set evss"
  shows "good 1 evs" and "no_ok evs"
proof -
  obtain req where "serves_req env ctx req evs"
    using assms by (metis in_set_conv_nth list_all2_conv_all_nth)
  then obtain g st st' where h: "handler env BidiStream ctx req g st = Some (Inr (evs, st'))"
    by (auto simp: serves_req_def)
  then show "good 1 evs" by (rule handler_good)
  obtain resps tail where "evs = concat (map (\<lambda>x. [WgAdd, SendResp x]) resps) @ tail"
    and "handler_end BidiStream tail"
    using handler_shape [OF h] by blast
  then show "no_ok evs" by (auto simp: handler_end_def no_ok_def)
qed

lemma bidi_inv_init:
  assumes "list_all2 (serves_req env ctx) reqs evss"
  shows "bidi_inv evss (bidi_init evss)"
proof -
  have "credits [] (bidi_init evss)"
    using wg_is_ops(1) by (simp add: credits_def bidi_init_def)
  then show ?thesis
    using serves_good [OF assms]
    by (auto simp: bidi_inv_def bidi_control_def no_success_def bidi_credit_def bidi_delivery_def
        outstanding_def bidi_init_def)
qed

lemma bidi_reach:
  assumes "list_all2 (serves_req env ctx) reqs evss" and "bidi_step\<^sup>*\<^sup>* (bidi_init evss) s"
  shows "bidi_inv evss s"
  using bidi.run_inv [OF assms(2)] bidi_inv_init [OF assms(1)] by blast

lemma all_good_zero:
  assumes "list_all2 good ns hs" and "sum_list ns = 0" and "h \<in> set hs"
  shows "good 0 h"
  using assms by (induction rule: list_all2_induct) auto

lemma bidi_all_delivered:
  assumes "bidi_inv evss s" and "bclosed s"
  shows "incoming s = [] \<and> mset (bdelivered s) = (\<Sum>evs \<leftarrow> evss. mset (sends evs))"
proof -
  have ctl: "bidi_control s" using assms(1) by (simp add: bidi_inv_def)
  have w: "bwaitDone s" using ctl assms(2) by (simp add: bidi_control_def)
  have "recvClosed s" using ctl w by (simp add: bidi_control_def)
  with ctl have rest: "rpc s = RecvGone" "incoming s = []" by (simp_all add: bidi_control_def)
  obtain ns where c: "credits ns s" using assms by (auto simp: bidi_inv_def bidi_credit_def)
  with w have "sum_list ns + in_flight (bspc s) = 0" unfolding credits_def by blast
  then have z: "sum_list ns = 0" "in_flight (bspc s) = 0" by (simp_all only: add_is_0)
  have "sends evs = []" if "evs \<in> set (running s)" for evs
  proof -
    have "list_all2 good ns (running s)" using c by (simp only: credits_def)
    then have "good 0 evs" using z(1) that by (rule all_good_zero)
    then show ?thesis by (rule good_no_sends)
  qed
  then have "map (\<lambda>evs. mset (sends evs)) (running s) = map (\<lambda>evs. {#}) (running s)"
    by (intro map_cong) simp_all
  then have "(\<Sum>evs \<leftarrow> running s. mset (sends evs)) = {#}"
    by (simp only: sum_list_0)
  moreover have "bspc s \<notin> {Failing, Failed}" "holding (bspc s) = []"
    using z(2) by (cases "bspc s"; simp)+
  ultimately have "outstanding s = {#}" using rest by (simp add: outstanding_def)
  moreover have "mset (bdelivered s) + outstanding s = (\<Sum>evs \<leftarrow> evss. mset (sends evs))"
    using assms(1) \<open>bspc s \<notin> {Failing, Failed}\<close> unfolding bidi_inv_def bidi_delivery_def by blast
  ultimately show ?thesis using rest by simp
qed

text \<open>C25. However the goroutines of a \<open>BidiStream\<close> call interleave, no response is sent on
  the closed channel, the wait group never goes below zero, and status OK is given only when the
  client has ended its side and every response of every one of its requests has been handed to the
  stream, each exactly once.\<close>

theorem bidi_safe:
  assumes "list_all2 (serves_req env ctx) reqs evss" and "bidi_step\<^sup>*\<^sup>* (bidi_init evss) s"
  shows "\<not> bpanicked s \<and> 0 \<le> wgInner (bwg s) \<and> wgCnt (bwg s) = wgInner (bwg s) \<and>
    (bmpc s = BidiReturned NoErr \<longrightarrow>
       incoming s = [] \<and> mset (bdelivered s) = (\<Sum>evs \<leftarrow> evss. mset (sends evs)))"
proof -
  note inv = bidi_reach [OF assms]
  then obtain ns where "credits ns s" by (auto simp: bidi_inv_def bidi_credit_def)
  then have "0 \<le> wgInner (bwg s) \<and> wgCnt (bwg s) = wgInner (bwg s)" by (simp add: credits_def wg_is_def)
  moreover have "bmpc s = BidiReturned NoErr \<longrightarrow> bclosed s"
    using inv by (simp add: bidi_inv_def bidi_control_def)
  ultimately show ?thesis
    using bidi_all_delivered [OF inv] inv by (auto simp: bidi_inv_def)
qed

section \<open>Progress\<close>

fun receiver_rank :: "receiver_pc \<Rightarrow> nat" where
  "receiver_rank (WithReq evs) = 4 + 5 * length evs"
| "receiver_rank AtRecv = 2"
| "receiver_rank WithErr = 1"
| "receiver_rank RecvGone = 0"

fun bidi_method_rank :: "bidi_pc \<Rightarrow> nat" where
  "bidi_method_rank InLoop = 3"
| "bidi_method_rank Waiting = 2"
| "bidi_method_rank LastLook = 1"
| "bidi_method_rank (BidiReturned e) = 0"

definition bidi_rank :: "bidi_state \<Rightarrow> nat" where
  "bidi_rank s = (\<Sum>evs \<leftarrow> incoming s. 3 + 5 * length evs) + receiver_rank (rpc s) +
     (\<Sum>evs \<leftarrow> running s. 5 * length evs) + sender_rank (bspc s) + bidi_method_rank (bmpc s) +
     (if bwaitDone s then 0 else 1)"

lemma sum_length_update:
  assumes "i < length hs" and "hs ! i = e # r"
  shows "(\<Sum>evs \<leftarrow> hs. 5 * length evs) = 5 + (\<Sum>evs \<leftarrow> hs[i := r]. 5 * length evs)"
    and "(\<Sum>evs \<leftarrow> hs[i := []]. 5 * length evs) < (\<Sum>evs \<leftarrow> hs. 5 * length evs)"
proof -
  show "(\<Sum>evs \<leftarrow> hs. 5 * length evs) = 5 + (\<Sum>evs \<leftarrow> hs[i := r]. 5 * length evs)"
    using assms by (induction hs arbitrary: i) (auto split: nat.splits simp: nth_Cons)
  show "(\<Sum>evs \<leftarrow> hs[i := []]. 5 * length evs) < (\<Sum>evs \<leftarrow> hs. 5 * length evs)"
    using assms by (induction hs arbitrary: i) (auto split: nat.splits simp: nth_Cons)
qed

lemma takes_err_rank: "takes_err s \<Longrightarrow> 0 < bidi_method_rank (bmpc s)"
  by (auto simp: takes_err_def)

lemma bidi_rank_step: "bidi_step s t \<Longrightarrow> bidi_rank t < bidi_rank s"
proof (induction rule: bidi_step.induct)
  case (b_add i s r)
  with sum_length_update(1) [OF b_add] show ?case by (simp add: bidi_rank_def)
next
  case (b_done i s r)
  with sum_length_update(1) [OF b_done] show ?case by (simp add: bidi_rank_def)
next
  case (b_send i s x r)
  with sum_length_update(1) [OF b_send(1,2)] show ?case by (simp add: bidi_rank_def)
next
  case (b_panic i s x r)
  with sum_length_update(2) [OF b_panic(1,2)] show ?case by (simp add: bidi_rank_def)
next
  case (b_err i s e r)
  with sum_length_update(1) [OF b_err(1,2)] takes_err_rank [OF b_err(3)] show ?case by (simp add: bidi_rank_def)
qed (auto simp: bidi_rank_def dest: takes_err_rank)

interpretation bidi_ranked: ranked_system bidi_step bidi_rank
  by unfold_locales (rule bidi_rank_step)

lemma bidi_can_step:
  assumes "\<nexists>t. bidi_step s t"
  shows "rpc s = AtRecv \<Longrightarrow> False"
    and "takes_err s \<Longrightarrow> rpc s \<noteq> WithErr"
    and "bmpc s = InLoop \<Longrightarrow> rpc s \<noteq> WithReq evs"
    and "bmpc s = InLoop \<Longrightarrow> \<not> recvClosed s"
    and "bmpc s = LastLook \<Longrightarrow> False"
    and "bmpc s = Waiting \<Longrightarrow> \<not> bwaitDone s \<and> \<not> wg_ready (bwg s)"
    and "takes_err s \<Longrightarrow> bspc s \<in> {Receiving, Failed, Ended}"
    and "bspc s = Receiving \<Longrightarrow> \<not> bclosed s"
    and "bspc s \<noteq> Got x" and "bspc s \<noteq> Sent"
proof -
  have no: "\<not> bidi_step s t" for t using assms by blast
  show "rpc s = AtRecv \<Longrightarrow> False" using no r_fail [of s] by blast
  show "takes_err s \<Longrightarrow> rpc s \<noteq> WithErr" using no r_err [of s] by blast
  show "bmpc s = InLoop \<Longrightarrow> rpc s \<noteq> WithReq evs" using no b_req [of s evs] by blast
  show "bmpc s = InLoop \<Longrightarrow> \<not> recvClosed s" using no b_eof [of s] by blast
  show "bmpc s = LastLook \<Longrightarrow> False" using no b_default [of s] by blast
  show "bmpc s = Waiting \<Longrightarrow> \<not> bwaitDone s \<and> \<not> wg_ready (bwg s)"
    using no b_wait [of s] b_look [of s] by blast
  show "bspc s = Receiving \<Longrightarrow> \<not> bclosed s" using no bs_closed [of s] by blast
  show got: "bspc s \<noteq> Got x" for x using no bs_ok [of s x] by blast
  show sent: "bspc s \<noteq> Sent" using no bs_done [of s] by blast
  show "takes_err s \<Longrightarrow> bspc s \<in> {Receiving, Failed, Ended}"
    using got sent no bs_report [of s] bs_nil [of s] by (cases "bspc s") auto
qed

lemma bidi_handlers_idle:
  assumes "\<nexists>t. bidi_step s t" and "takes_err s" and "\<not> bclosed s" and "bspc s = Receiving"
    and "i < length (running s)"
  shows "running s ! i = []"
proof (cases "running s ! i")
  case (Cons e r)
  have no: "\<not> bidi_step s t" for t using assms(1) by blast
  from Cons show ?thesis
    using no b_add [OF assms(5)] b_done [OF assms(5)] b_send [OF assms(5) _ assms(3,4)] b_err [OF assms(5) _ assms(2)]
    by (cases e) blast+
qed

lemma bidi_stuck:
  assumes inv: "bidi_inv evss s" and stuck: "\<nexists>t. bidi_step s t"
  shows "\<exists>e. bmpc s = BidiReturned e"
proof (rule ccontr)
  assume none: "\<nexists>e. bmpc s = BidiReturned e"
  then have te: "takes_err s" by (cases "bmpc s") (auto simp: takes_err_def)
  note can = bidi_can_step [OF stuck]
  have ctl: "bidi_control s" using inv by (simp add: bidi_inv_def)
  have open_chan: "\<not> bclosed s" using ctl none by (auto simp: bidi_control_def)
  have "bspc s \<noteq> Failed" "bspc s \<noteq> Ended" using ctl none by (simp_all add: bidi_control_def)
  then have rec: "bspc s = Receiving" using can(7) [OF te] by blast
  have "bmpc s \<noteq> InLoop"
  proof
    assume l: "bmpc s = InLoop"
    then have "rpc s = RecvGone" using can(1,2,3) te by (cases "rpc s") blast+
    then have "recvClosed s" using ctl none by (simp add: bidi_control_def)
    with can(4) [OF l] show False by blast
  qed
  then have w: "bmpc s = Waiting" using none can(5) by (cases "bmpc s") blast+
  obtain ns where c: "credits ns s" using inv by (auto simp: bidi_inv_def bidi_credit_def)
  have len: "length ns = length (running s)" using c list_all2_lengthD by (auto simp: credits_def)
  have "ns ! i = 0" if "i < length ns" for i
  proof -
    have "good (ns ! i) (running s ! i)" using c that len by (simp add: credits_def list_all2_conv_all_nth)
    with bidi_handlers_idle [OF stuck te open_chan rec] that len show ?thesis by simp
  qed
  then have "sum_list ns = 0" by (metis in_set_conv_nth sum_list_eq_0_iff)
  with credits_wg [OF c] rec have "wg_ready (bwg s)" by (simp add: wg_is_ops(4))
  with can(6) [OF w] show False by blast
qed

lemma bidi_sender_left:
  assumes inv: "bidi_inv evss s" and stuck: "\<nexists>t. bidi_step s t" and ok: "bmpc s = BidiReturned NoErr"
  shows "bspc s = Closing"
proof -
  have ctl: "bidi_control s" using inv by (simp add: bidi_inv_def)
  have cl: "bclosed s" using ctl ok by (simp add: bidi_control_def)
  then have w: "bwaitDone s" using ctl by (simp add: bidi_control_def)
  obtain ns where c: "credits ns s" using inv by (auto simp: bidi_inv_def bidi_credit_def)
  from c w have "sum_list ns + in_flight (bspc s) = 0" unfolding credits_def by blast
  then have "in_flight (bspc s) = 0" by (simp only: add_is_0)
  moreover have "bspc s \<noteq> Receiving" using bidi_can_step(8) [OF stuck] cl by blast
  moreover have "bspc s \<noteq> Ended" using ctl by (simp add: bidi_control_def)
  ultimately show ?thesis by (cases "bspc s") simp_all
qed

text \<open>A request of the stream, with the random draws and the state of the server that its handler meets.\<close>

type_synonym bidi_call = "gelbo_request \<times> rng \<times> grpc_state"

definition serve_call :: "grpc_env \<Rightarrow> call_ctx \<Rightarrow> bidi_call \<Rightarrow> (hev list \<times> grpc_state) res option" where
  "serve_call env ctx call = (case call of (req, g, st) \<Rightarrow> handler env BidiStream ctx req g st)"

lemma serve_calls:
  assumes "\<And>call. call \<in> set calls \<Longrightarrow> \<exists>evs st. serve_call env ctx call = Some (Inr (evs, st))"
  shows "\<exists>evss. list_all2 (\<lambda>call evs. \<exists>st. serve_call env ctx call = Some (Inr (evs, st))) calls evss"
  using assms by (induction calls) (fastforce simp: list_all2_Cons1)+

lemma serve_calls_req:
  "list_all2 (\<lambda>call evs. \<exists>st. serve_call env ctx call = Some (Inr (evs, st))) calls evss \<Longrightarrow>
   list_all2 (serves_req env ctx) (map fst calls) evss"
  by (induction calls evss rule: list_all2_induct)
    (auto simp: serves_req_def serve_call_def split: prod.splits)


section \<open>A run\<close>

lemma bidi_first: "bidi_step s t \<Longrightarrow> bidi_step\<^sup>*\<^sup>* t u \<Longrightarrow> bidi_step\<^sup>*\<^sup>* s u"
  by (rule converse_rtranclp_into_rtranclp)

lemmas bidi_start = bidi_init_def wg_add_def wg_done_def wg_ready_def newWaitGroup_def

lemma bidi_run:
  "\<exists>s. bidi_step\<^sup>*\<^sup>* (bidi_init [[SendResp x]]) s \<and> bmpc s = BidiReturned NoErr \<and> bdelivered s = [x] \<and>
     bspc s = Closing \<and> rpc s = RecvGone \<and> running s = [[]]"
  apply (rule exI, rule conjI)
   apply (rule bidi_first, rule r_recv, simp add: bidi_start, simp add: bidi_start)
   apply (rule bidi_first, rule b_req, simp, simp add: bidi_start)
   apply (rule bidi_first, rule r_eof, simp, simp)
   apply (rule bidi_first, rule b_send [of 0], simp, simp add: bidi_start, simp add: bidi_start, simp add: bidi_start)
   apply (rule bidi_first, rule bs_ok, simp)
   apply (rule bidi_first, rule bs_done, simp)
   apply (rule bidi_first, rule b_eof, simp add: bidi_start, simp)
   apply (rule bidi_first, rule b_wait, simp, simp add: bidi_start, simp add: bidi_start)
   apply (rule bidi_first, rule b_look, simp, simp)
   apply (rule bidi_first, rule b_default, simp)
   apply (rule bidi_first, rule bs_closed, simp, simp)
   apply (rule rtranclp.rtrancl_refl)
  apply (simp add: bidi_start)
  done

lemma bidi_end_stuck:
  assumes "bmpc s = BidiReturned NoErr" and "bspc s = Closing" and "rpc s = RecvGone" and "running s = [[]]"
  shows "\<nexists>t. bidi_step s t"
  using assms by (auto elim!: bidi_step.cases simp: takes_err_def)

lemma idle_serves: "\<exists>x. serves_req plain_grpc_env plain_ctx empty_request [SendResp x]"
  using idle_handler unfolding serves_req_def by blast

theorem bidi_safe_witness:
  "\<exists>x s. list_all2 (serves_req plain_grpc_env plain_ctx) [empty_request] [[SendResp x]] \<and>
     bidi_step\<^sup>*\<^sup>* (bidi_init [[SendResp x]]) s \<and> bmpc s = BidiReturned NoErr \<and> mset (bdelivered s) = {#x#}"
proof -
  obtain x where x: "list_all2 (serves_req plain_grpc_env plain_ctx) [empty_request] [[SendResp x]]"
    using idle_serves by auto
  obtain s where s: "bidi_step\<^sup>*\<^sup>* (bidi_init [[SendResp x]]) s" "bmpc s = BidiReturned NoErr"
    using bidi_run by blast
  from bidi_safe [OF x s(1)] s x show ?thesis by auto
qed


end
