(* ===== verification/GrpcServe.thy ===== *)
theory GrpcServe
  imports GrpcStream
begin

text \<open>
  grpc.go: the calls around a handler. \<open>Unary\<close> and \<open>ClientStream\<close>, which take one
  thing from their handler; the handler of methods that nobody registered, which reads the status
  to give out of the method's name; the interceptors that count and log every call. logger.go: what
  the log says of a call.
\<close>

section \<open>Calls with one answer\<close>

text \<open>The method waits at both channels; the handler is one goroutine, so the first response or
  error that it offers is what the method returns. An error of \<open>None\<close> is \<open>nil\<close>.\<close>

fun first_out :: "hev list \<Rightarrow> (code option + grpc_response) option" where
  "first_out [] = None"
| "first_out (SendResp x # _) = Some (Inr x)"
| "first_out (SendErr e # _) = Some (Inl e)"
| "first_out (_ # evs) = first_out evs"

definition unary_call ::
  "grpc_env \<Rightarrow> call_ctx \<Rightarrow> gelbo_request \<Rightarrow> rng \<Rightarrow> grpc_state \<Rightarrow>
   ((code option + grpc_response) option \<times> grpc_state) res option" where
  "unary_call env ctx req g st =
     ro_bind (handler env Unary ctx req g st) (\<lambda>(evs, st). Some (Inr (first_out evs, st)))"

text \<open>The messages of the client and how its side ends: the error of \<open>Recv\<close>, or the end of
  the stream. Without a message the last request is nil, whose fields read as empty.\<close>

definition latest_request :: "gelbo_request list \<Rightarrow> gelbo_request" where
  "latest_request msgs = (if msgs = [] then empty_request else last msgs)"

definition client_stream_call ::
  "grpc_env \<Rightarrow> call_ctx \<Rightarrow> gelbo_request list \<Rightarrow> code option \<Rightarrow> rng \<Rightarrow> grpc_state \<Rightarrow>
   ((code option + grpc_response) option \<times> grpc_state) res option" where
  "client_stream_call env ctx msgs recv_err g st =
     (case recv_err of
        Some c \<Rightarrow> Some (Inr (Some (Inl (Some c)), st))
      | None \<Rightarrow>
          ro_bind (handler env ClientStream ctx (latest_request msgs) g st)
            (\<lambda>(evs, st). Some (Inr (first_out evs, st))))"

lemma first_out_shape:
  assumes "handler_end mode tail" and "mode = Unary \<or> mode = ClientStream"
  shows "first_out tail \<noteq> None" and "count_ev is_send tail + count_ev is_err tail = 1"
  using assms by (auto simp: handler_end_def hev_tests)

text \<open>Where the repeat action is refused no handler that acts repeats.\<close>

lemma single_mode_repeat:
  assumes "mode = Unary \<or> mode = ClientStream" and "prefix ''grpc'' (reqProto rq)"
    and "needsAction (validateCommandsForGrpc NewDataStore mode rq req)"
  shows "cRepeat (validateCommandsForGrpc NewDataStore mode rq req) = []"
proof (rule ccontr)
  let ?c = "validateCommands NewDataStore rq (convRequestToMap req)"
  let ?g = "validateCommandsForGrpc NewDataStore mode rq req"
  assume "cRepeat ?g \<noteq> []"
  moreover have r: "(''repeat'', getRepeat req) \<in> set (request_pairs req)" by (simp add: request_pairs_def)
  from validate_grpc_field [OF assms(2) r, of mode] have "cRepeat ?g = getRepeat req" by simp
  ultimately have ne: "getRepeat req \<noteq> []" by simp
  have "(''repeat'', [getRepeat req]) \<in> set (convRequestToMap req)"
    using ne r by (auto simp: convRequestToMap_def intro: image_eqI [where x = "(''repeat'', getRepeat req)"])
  then have "''repeat'' \<in> fst ` set (convRequestToMap req)" by (rule image_eqI [rotated]) simp
  moreover have v: "pick_validator NewDataStore rq ''repeat'' \<noteq> None"
    using assms(2) by (simp add: pick_validator_def NewDataStore_def validatorForGrpc_def)
  ultimately have "''repeat'' \<in> set (actions ?c @ ifMatches ?c @ ifUnmatches ?c @ invalids ?c)"
    using validate_keys_partition(2) [OF wf_convRequest, of NewDataStore rq req] by blast
  moreover have not_if: "\<not> is_if ''repeat''" by (simp add: is_if_def)
  moreover have "''repeat'' \<notin> set (ifMatches ?c)" "''repeat'' \<notin> set (ifUnmatches ?c)"
    unfolding validateCommands_def validate_lists using not_if by (auto simp del: rx_match.simps)
  ultimately have "''repeat'' \<in> set (actions ?c) \<or> invalids ?c \<noteq> []" by auto
  then have "invalids ?g \<noteq> []"
    using assms(1) by (auto simp: validateCommandsForGrpc_def has_action_def repeat_invalid_def Let_def)
  with assms(3) show False by (simp add: needsAction_def split: if_splits)
qed

lemma handler_single:
  assumes "handler env mode ctx req g st = Some (Inr (evs, st'))" and "mode = Unary \<or> mode = ClientStream"
    and "gStore env = NewDataStore"
  shows "handler_end mode evs"
proof -
  obtain rq where rq: "newRequestInfoFromContext (gPort env) ctx = Inr rq"
    using assms(1) by (auto simp: handler_def ro_bind_Inr)
  have p: "prefix ''grpc'' (reqProto rq)"
    using rq by (cases "getMDSetFromContext ctx") (auto simp: newRequestInfoFromContext_def)
  let ?input = "validateCommandsForGrpc NewDataStore mode rq req"
  obtain result g' where ev: "evaluate ?input g = Inr (result, g')"
    using assms(1,3) rq by (auto simp: handler_def ro_bind_Inr Let_def)
  consider (quiet) "\<not> needsAction ?input" | (noop) "needsAction ?input" "has_action ?input ''noop''"
    | (acts) "needsAction ?input" "\<not> has_action ?input ''noop''" by blast
  then show ?thesis
  proof cases
    case quiet
    then have "send_last env rq ?input result st = Some (Inr (evs, st'))"
      using assms(1,3) rq ev by (simp add: handler_def Let_def)
    then show ?thesis using send_last_shape by (auto simp: handler_end_def)
  next
    case noop
    then have "evs = (if mode = Unary \<or> mode = ClientStream then [SendErr None] else []) @ [WgDone]"
      using assms(1,3) rq ev by (simp add: handler_def Let_def)
    then show ?thesis by (simp only: handler_end_def simp_thms)
  next
    case acts
    then have h: "handler_acts env ctx rq ?input result g' st = Some (Inr (evs, st'))"
      using assms(1,3) rq ev by (simp add: handler_def Let_def)
    have "cRepeat ?input = []" by (rule single_mode_repeat [OF assms(2) p acts(1)])
    with h obtain err st1 where e: "execGrpcAction (gExec env) ctx rq ?input result st = Some (Inr (err, st1))"
      by (auto simp: handler_acts_def Let_def ro_bind_Inr)
    show ?thesis
    proof (cases err)
      case None
      with h e \<open>cRepeat ?input = []\<close> have "send_last env rq ?input result st1 = Some (Inr (evs, st'))"
        by (auto simp: handler_acts_def Let_def ro_bind_Inr)
      then show ?thesis using send_last_shape by (auto simp: handler_end_def)
    next
      case (Some c)
      with h e \<open>cRepeat ?input = []\<close> have "evs = [WgDone, SendErr (Some c)]"
        by (auto simp: handler_acts_def Let_def)
      then show ?thesis by (auto simp: handler_end_def)
    qed
  qed
qed

text \<open>A call with one answer always gets exactly one: its handler offers one response or one
  error, never both and never a second, so that no operation of the handler is left waiting at a
  channel after the method has returned. A client stream is answered for its last message only, or
  with the error that ended it.\<close>

theorem one_answer:
  assumes "handler env mode ctx req g st = Some (Inr (evs, st'))" and "mode = Unary \<or> mode = ClientStream"
    and "gStore env = NewDataStore"
  shows "\<exists>out. first_out evs = Some out \<and> count_ev is_send evs + count_ev is_err evs = 1 \<and>
    (mode = Unary \<longrightarrow> unary_call env ctx req g st = Some (Inr (Some out, st'))) \<and>
    (mode = ClientStream \<longrightarrow>
       client_stream_call env ctx (msgs @ [req]) None g st = Some (Inr (Some out, st')) \<and>
       client_stream_call env ctx msgs (Some c) g st = Some (Inr (Some (Inl (Some c)), st)))"
  using first_out_shape [OF handler_single [OF assms] assms(2)] assms(1)
  by (auto simp: unary_call_def client_stream_call_def latest_request_def)

theorem one_answer_witness:
  "\<exists>x. client_stream_call plain_grpc_env plain_ctx [code5, empty_request] None (\<lambda>_. 0) new_grpc =
     Some (Inr (Some (Inr x), new_grpc))"
proof -
  obtain x where x: "handler plain_grpc_env ClientStream plain_ctx empty_request (\<lambda>_. 0) new_grpc =
      Some (Inr ([SendResp x], new_grpc))"
    using idle_handler by blast
  have "gStore plain_grpc_env = NewDataStore" by (simp add: plain_grpc_env_def)
  from one_answer [OF x _ this, of "[code5]"] show ?thesis by auto
qed


section \<open>Methods that are not registered\<close>

definition is_upper :: "char \<Rightarrow> bool" where
  "is_upper c = (CHR ''A'' \<le> c \<and> c \<le> CHR ''Z'')"

definition is_lower :: "char \<Rightarrow> bool" where
  "is_lower c = (CHR ''a'' \<le> c \<and> c \<le> CHR ''z'')"

text \<open>\<open>FindAllStringSubmatch\<close> for the pattern \<open>([A-Z][a-z]+)([0-9]+)\<close>: the
  matches from left to right, none overlapping another.\<close>

function find_commands :: "string \<Rightarrow> (string \<times> string) list" where
  "find_commands [] = []"
| "find_commands (c # s) =
     (let w = takeWhile is_lower s; t = dropWhile is_lower s; d = takeWhile is_digit t in
      if is_upper c \<and> w \<noteq> [] \<and> d \<noteq> [] then (c # w, d) # find_commands (dropWhile is_digit t)
      else find_commands s)"
  by pat_completeness auto
termination
proof (relation "measure length", goal_cases)
  case (2 c s w t d)
  have "length (dropWhile is_digit (dropWhile is_lower s)) \<le> length s"
    using length_dropWhile_le le_trans by blast
  with 2 show ?case by simp
qed auto

definition apply_command :: "code \<times> int \<Rightarrow> string \<times> string \<Rightarrow> code \<times> int" where
  "apply_command cs cmd =
     (let key = to_lower (fst cmd); value = fst (atoi (snd cmd)) in
      if key = ''code'' \<and> value < 17 \<and> value \<ge> 0 then (getCodeClass (int32 value), snd cs)
      else if key = ''sleep'' then (fst cs, value)
      else cs)"

text \<open>The durations slept and the error returned; the method's name may be unknown.\<close>

definition UnregisteredMethodHandler :: "string option \<Rightarrow> int list \<times> code option" where
  "UnregisteredMethodHandler fullMethodName =
     (let (code, sleep) = (case fullMethodName of
            None \<Rightarrow> (getCodeClass 12, 0)
          | Some name \<Rightarrow> foldl apply_command (getCodeClass 12, 0) (find_commands name))
      in (if sleep \<noteq> 0 then [millis sleep] else [], status_error code))"

lemma char_classes:
  "is_upper c \<Longrightarrow> \<not> is_lower c" "is_upper c \<Longrightarrow> \<not> is_digit c" "is_digit c \<Longrightarrow> \<not> is_lower c"
  by (auto simp: is_upper_def is_lower_def is_digit_def less_eq_char_def)

text \<open>A word of a name: a capital, small letters, digits.\<close>

definition is_command :: "string \<times> string \<Rightarrow> bool" where
  "is_command cmd = (\<exists>c w. fst cmd = c # w \<and> is_upper c \<and> w \<noteq> [] \<and> list_all is_lower w \<and>
     snd cmd \<noteq> [] \<and> list_all is_digit (snd cmd))"

lemma span_app:
  assumes "list_all p w" and "s = [] \<or> \<not> p (hd s)"
  shows "takeWhile p (w @ s) = w" and "dropWhile p (w @ s) = s"
  using assms by (induction w; cases s; auto)+

text \<open>What comes before the words is skipped, capitals and all, as long as it has no digit.\<close>

lemma find_commands_skip:
  assumes "list_all (\<lambda>c. \<not> is_digit c) pre" and "s = [] \<or> is_upper (hd s)"
  shows "find_commands (pre @ s) = find_commands s"
  using assms(1)
proof (induction pre)
  case (Cons c pre)
  let ?t = "dropWhile is_lower (pre @ s)"
  have s: "s = [] \<or> \<not> is_lower (hd s) \<and> \<not> is_digit (hd s)" using assms(2) char_classes by auto
  have "?t = [] \<or> \<not> is_digit (hd ?t)"
    using Cons.prems s by (induction pre) (cases s; auto)+
  then have "takeWhile is_digit ?t = []" by (simp only: takeWhile_eq_Nil_iff)
  then show ?case using Cons by (simp add: Let_def)
qed simp

lemma find_commands_words:
  assumes "list_all is_command cmds"
  shows "find_commands (concat (map (\<lambda>(w, d). w @ d) cmds)) = cmds"
  using assms
proof (induction cmds)
  case (Cons cmd cmds)
  let ?rest = "concat (map (\<lambda>(w, d). w @ d) cmds)"
  obtain c w d where cmd: "cmd = (c # w, d)" "is_upper c" "w \<noteq> []" "list_all is_lower w" "d \<noteq> []" "list_all is_digit d"
    using Cons.prems by (cases cmd) (auto simp: is_command_def)
  have rest: "?rest = [] \<or> \<not> is_digit (hd ?rest)"
    using Cons.prems char_classes by (cases cmds) (auto simp: is_command_def)
  have "\<not> is_lower (hd (d @ ?rest))" using cmd(5,6) char_classes by (cases d) auto
  then have "takeWhile is_lower (w @ d @ ?rest) = w" "dropWhile is_lower (w @ d @ ?rest) = d @ ?rest"
    using span_app [OF cmd(4), of "d @ ?rest"] by simp_all
  moreover have "takeWhile is_digit (d @ ?rest) = d" "dropWhile is_digit (d @ ?rest) = ?rest"
    using span_app [OF cmd(6) rest] .
  ultimately have "find_commands (c # w @ d @ ?rest) = (c # w, d) # find_commands ?rest"
    using cmd by (simp add: Let_def)
  with Cons cmd(1) show ?case by simp
qed simp

definition gives_code :: "string \<times> string \<Rightarrow> bool" where
  "gives_code cmd = (to_lower (fst cmd) = ''code'' \<and> fst (atoi (snd cmd)) < 17 \<and> fst (atoi (snd cmd)) \<ge> 0)"

definition gives_sleep :: "string \<times> string \<Rightarrow> bool" where
  "gives_sleep cmd = (to_lower (fst cmd) = ''sleep'')"

definition last_of :: "'a \<Rightarrow> ('b \<Rightarrow> 'a) \<Rightarrow> 'b list \<Rightarrow> 'a" where
  "last_of x f ys = (if ys = [] then x else f (last ys))"

lemma foldl_apply_command:
  "foldl apply_command cs cmds =
     (last_of (fst cs) (\<lambda>cmd. getCodeClass (int32 (fst (atoi (snd cmd))))) (filter gives_code cmds),
      last_of (snd cs) (\<lambda>cmd. fst (atoi (snd cmd))) (filter gives_sleep cmds))"
proof (induction cmds arbitrary: cs)
  case (Cons cmd cmds)
  have "gives_code cmd \<Longrightarrow> \<not> gives_sleep cmd" by (auto simp: gives_code_def gives_sleep_def)
  then show ?case
    by (simp add: Cons.IH) (auto simp: apply_command_def Let_def gives_code_def gives_sleep_def last_of_def)
qed (simp add: last_of_def)

text \<open>C32. The answer of a method that nobody registered is read from its name: in a name of words
  with numbers (a capital, small letters, digits) behind a prefix without a digit, as the name of the
  service, the last word \<open>Code\<close> with a number up to
  16 gives the status, no such word means Unimplemented, and the last \<open>Sleep\<close> gives the
  milliseconds to wait first.\<close>

theorem unregistered_answer:
  assumes "list_all (\<lambda>c. \<not> is_digit c) pre" and "list_all is_command cmds"
    and "name = pre @ concat (map (\<lambda>(w, d). w @ d) cmds)"
  shows "find_commands name = cmds \<and>
    (let codes = filter gives_code cmds; sleeps = filter gives_sleep cmds;
         n = (if codes = [] then 12 else fst (atoi (snd (last codes))));
         ms = (if sleeps = [] then 0 else fst (atoi (snd (last sleeps))))
     in UnregisteredMethodHandler (Some name) =
          (if ms = 0 then [] else [millis ms], if n = 0 then None else Some (getCodeClass n)) \<and>
        code_num (getCodeClass n) = n)"
proof -
  let ?words = "concat (map (\<lambda>(w, d). w @ d) cmds)"
  have "?words = [] \<or> is_upper (hd ?words)"
    using assms(2) by (cases cmds) (auto simp: is_command_def)
  then have f: "find_commands name = cmds"
    using find_commands_skip [OF assms(1)] find_commands_words [OF assms(2)] assms(3) by simp
  define codes where "codes = filter gives_code cmds"
  define n where "n = (if codes = [] then 12 else fst (atoi (snd (last codes))))"
  have "0 \<le> n \<and> n \<le> 16"
  proof (cases "codes = []")
    case False
    then have "last codes \<in> set codes" by simp
    then have "gives_code (last codes)" by (auto simp: codes_def)
    with False show ?thesis by (auto simp: n_def gives_code_def)
  qed (simp add: n_def)
  then have num: "code_num (getCodeClass n) = n" and "int32 n = n"
    using code_num_inverse by (simp_all add: int32_def)
  then have code: "last_of (getCodeClass 12) (\<lambda>cmd. getCodeClass (int32 (fst (atoi (snd cmd))))) codes = getCodeClass n"
    by (auto simp: last_of_def n_def)
  have "getCodeClass n = OK \<longleftrightarrow> n = 0"
    using num getCodeClass_num [of OK] by auto
  then have "status_error (getCodeClass n) = (if n = 0 then None else Some (getCodeClass n))"
    by (simp add: status_error_def)
  with f num code show ?thesis
    by (simp add: UnregisteredMethodHandler_def foldl_apply_command Let_def codes_def [symmetric] n_def [symmetric] last_of_def)
qed

text \<open>A name of the documentation.\<close>

theorem unregistered_answer_witness:
  "UnregisteredMethodHandler (Some ''/elbgrpc.GelboService/Code3Sleep2000'') = ([2000000000], Some InvalidArgument)"
proof -
  have pre: "list_all (\<lambda>c. \<not> is_digit c) ''/elbgrpc.GelboService/''"
    by (simp add: is_digit_code)
  have cmds: "list_all is_command [(''Code'', ''3''), (''Sleep'', ''2000'')]"
    by (simp add: is_command_def is_upper_def is_lower_def less_eq_char_def is_digit_code)
  have a: "fst (atoi ''2000'') = 2000" "fst (atoi ''3'') = 3" "millis 2000 = 2000000000" "getCodeClass 3 = InvalidArgument"
    by (simp_all add: fst_atoi_digits is_digit_code dec_val_def digit_val_def max_int64_def millis_def
        wrap64_def getCodeClass_def)
  have l: "to_lower ''Sleep'' = ''sleep''" "to_lower ''Code'' = ''code''" by code_simp+
  have f: "filter gives_code [(''Code'', ''3''), (''Sleep'', ''2000'')] = [(''Code'', ''3'')]"
    "filter gives_sleep [(''Code'', ''3''), (''Sleep'', ''2000'')] = [(''Sleep'', ''2000'')]"
    by (simp_all add: gives_code_def gives_sleep_def l a)
  have name: "''/elbgrpc.GelboService/Code3Sleep2000'' =
      ''/elbgrpc.GelboService/'' @ concat (map (\<lambda>(w, d). w @ d) [(''Code'', ''3''), (''Sleep'', ''2000'')])"
    by simp
  from unregistered_answer [OF pre cmds name] show ?thesis
    unfolding Let_def f by (simp add: a del: find_commands.simps)
qed


section \<open>The log and the interceptors\<close>

record grpc_logger =
  gProto :: string
  gMode :: string
  gMethod :: string
  gParams :: string
  gClientip :: string
  gSrcip :: string
  gSrcport :: int

definition init_logger :: "int \<Rightarrow> call_ctx \<Rightarrow> string \<Rightarrow> string \<Rightarrow> string \<Rightarrow> grpc_logger res" where
  "init_logger grpcsPort ctx mode method params =
     res_bind (getMDSetFromContext ctx) (\<lambda>mds. Inr
       \<lparr>gProto = (if targetPort mds = grpcsPort then ''grpcs'' else ''grpc''), gMode = mode, gMethod = method,
        gParams = params, gClientip = mdClientIP mds, gSrcip = srcIP mds, gSrcport = srcPort mds\<rparr>)"

text \<open>The text of the request, if it is one of ours.\<close>

definition initLoggerForUnary :: "int \<Rightarrow> call_ctx \<Rightarrow> string \<Rightarrow> string option \<Rightarrow> grpc_logger res" where
  "initLoggerForUnary grpcsPort ctx fullMethod req =
     init_logger grpcsPort ctx ''unary'' fullMethod (case req of None \<Rightarrow> [] | Some params \<Rightarrow> params)"

definition initLoggerForStream :: "int \<Rightarrow> call_ctx \<Rightarrow> string \<Rightarrow> bool \<Rightarrow> bool \<Rightarrow> grpc_logger res" where
  "initLoggerForStream grpcsPort ctx fullMethod isServerStream isClientStream =
     init_logger grpcsPort ctx
       (if isServerStream \<and> isClientStream then ''bidirect'' else if isServerStream then ''server'' else ''client'')
       fullMethod []"

text \<open>The counters before and after a call; a call without a peer counts for the server only.\<close>

definition call_start :: "int64 \<Rightarrow> (string \<times> string) option \<Rightarrow> net_state \<Rightarrow> net_state res" where
  "call_start now pr w =
     (case pr of
        None \<Rightarrow> Inr (w\<lparr>active := active w + 1\<rparr>)
      | Some (remote, _) \<Rightarrow> active_start now remote w)"

definition call_end :: "int64 \<Rightarrow> (string \<times> string) option \<Rightarrow> net_state \<Rightarrow> net_state res" where
  "call_end now pr w =
     (case pr of
        None \<Rightarrow> Inr (w\<lparr>active := active w + (-1)\<rparr>)
      | Some (remote, _) \<Rightarrow> active_end now (extractIPAddress remote) w)"

text \<open>The code of the log line; an error that carries no status is Unknown.\<close>

definition log_code :: "code option option \<Rightarrow> int" where
  "log_code err = (case err of None \<Rightarrow> 0 | Some None \<Rightarrow> 2 | Some (Some c) \<Rightarrow> code_num c)"

text \<open>A call around its handler, which is a function from the state to the result (an error, with
  its status if it has one, or a value) and the state: the log's start, the counters, the handler,
  the log line, the deferred decrement.\<close>

definition intercept ::
  "grpc_logger res \<Rightarrow> int64 \<Rightarrow> call_ctx \<Rightarrow> (net_state \<Rightarrow> ((code option + 'a) \<times> net_state) res) \<Rightarrow> net_state \<Rightarrow>
   ((code option + 'a) \<times> (grpc_logger \<times> int) \<times> net_state) res" where
  "intercept logger now ctx handle w =
     res_bind logger (\<lambda>l.
     res_bind (call_start now (ctxPeer ctx) w) (\<lambda>w.
     res_bind (handle w) (\<lambda>(out, w).
       let code = (case out of Inl e \<Rightarrow> log_code (Some e) | Inr _ \<Rightarrow> log_code None)
       in res_bind (call_end now (ctxPeer ctx) w) (\<lambda>w. Inr (out, (l, code), w)))))"

definition UnaryInterceptor ::
  "int \<Rightarrow> int64 \<Rightarrow> call_ctx \<Rightarrow> string \<Rightarrow> string option \<Rightarrow>
   (net_state \<Rightarrow> ((code option + 'a) \<times> net_state) res) \<Rightarrow> net_state \<Rightarrow>
   ((code option + 'a) \<times> (grpc_logger \<times> int) \<times> net_state) res" where
  "UnaryInterceptor grpcsPort now ctx fullMethod req handle w =
     intercept (initLoggerForUnary grpcsPort ctx fullMethod req) now ctx handle w"

definition StreamInterceptor ::
  "int \<Rightarrow> int64 \<Rightarrow> call_ctx \<Rightarrow> string \<Rightarrow> bool \<Rightarrow> bool \<Rightarrow>
   (net_state \<Rightarrow> ((code option + unit) \<times> net_state) res) \<Rightarrow> net_state \<Rightarrow>
   ((code option + unit) \<times> (grpc_logger \<times> int) \<times> net_state) res" where
  "StreamInterceptor grpcsPort now ctx fullMethod isServerStream isClientStream handle w =
     intercept (initLoggerForStream grpcsPort ctx fullMethod isServerStream isClientStream) now ctx handle w"

lemma rnm_addActive_entry:
  "m ip = Some ni \<Longrightarrow> rnm_addActiveConns now ip n m = Inr (m(ip \<mapsto> addActiveConns now n ni))"
  by (simp add: rnm_addActiveConns_def)

text \<open>A handler that leaves the counters as it finds them, whatever else it does.\<close>

definition keeps_counters :: "(net_state \<Rightarrow> net_state) \<Rightarrow> bool" where
  "keeps_counters f = (\<forall>w. active (f w) = active w \<and> handlers (f w) = handlers w \<and> remoteNodes (f w) = remoteNodes w)"

text \<open>An interceptor takes away exactly what it has counted: around a handler that leaves the
  counters as it finds them the active counts of the server and of every remote node are the same
  after the call as before it, whether the handler succeeds or fails, and the result is passed on
  unchanged; the log has code 0 exactly for a success. It needs the node of the peer to exist.\<close>

theorem interceptor_balanced:
  assumes "handle = (\<lambda>w. Inr (out, f w))" and "keeps_counters f"
    and "initLoggerForUnary port ctx method req = Inr l"
    and "ctxPeer ctx = Some (remote, local)" and "remoteNodes w (extractIPAddress remote) = Some ni"
  shows "\<exists>w' code. UnaryInterceptor port now ctx method req handle w = Inr (out, (l, code), w') \<and>
    active w' = active w \<and> handlers w' = handlers w \<and>
    (\<forall>ip. map_option activeConns (remoteNodes w' ip) = map_option activeConns (remoteNodes w ip)) \<and>
    (code = 0 \<longleftrightarrow> (\<exists>v. out = Inr v) \<or> out = Inl (Some OK))"
proof -
  have "code_num c = 0 \<longleftrightarrow> c = OK" for c by (cases c) simp_all
  then show ?thesis
    using assms(2-5)
    by (auto simp: UnaryInterceptor_def intercept_def assms(1) call_start_def call_end_def active_start_def
        active_end_def rnm_addActive_entry Let_def log_code_def keeps_counters_def split: sum.split option.split)
qed

theorem interceptor_balanced_witness:
  "let ctx = plain_ctx\<lparr>ctxPeer := Some (client, server80)\<rparr>;
       w = net_init\<lparr>remoteNodes := [extractIPAddress client \<mapsto> NewNodeInfo 0]\<rparr>
   in \<exists>l w' code. UnaryInterceptor 50052 1 ctx ''/svc/m'' None (\<lambda>w. Inr (Inl (Some NotFound) :: code option + unit, w)) w =
        Inr (Inl (Some NotFound), (l, code), w') \<and> active w' = active w \<and> code \<noteq> 0"
proof -
  let ?ctx = "plain_ctx\<lparr>ctxPeer := Some (client, server80)\<rparr>"
  let ?w = "net_init\<lparr>remoteNodes := [extractIPAddress client \<mapsto> NewNodeInfo 0]\<rparr>"
  let ?out = "Inl (Some NotFound) :: code option + unit"
  obtain l where l: "initLoggerForUnary 50052 ?ctx ''/svc/m'' None = Inr l"
    by (auto simp: initLoggerForUnary_def init_logger_def getMDSetFromContext_def forwarded_for_def
        plain_ctx_def Let_def)
  have k: "keeps_counters (\<lambda>w. w)" by (simp add: keeps_counters_def)
  have "remoteNodes ?w (extractIPAddress client) = Some (NewNodeInfo 0)" by simp
  from interceptor_balanced [where out = ?out and f = "\<lambda>w. w" and now = 1, OF refl k l _ this] show ?thesis
    unfolding Let_def by fastforce
qed

end
