(* ===== verification/StreamLog.thy ===== *)
theory StreamLog
  imports GrpcServe
begin

text \<open>
  grpc.go: the log of a stream. \<open>streamWrapper\<close> passes every message of a stream on and writes one
  line for it, between the lines that \<open>StreamInterceptor\<close> writes when the stream opens and closes.
  A line is the fields in which the lines differ; the times and the fields of the logger are the
  same for all. Parameters: the text of a request, what encoding a message with \<open>gob\<close> gives, and
  the texts of errors.
\<close>

section \<open>Lines\<close>

datatype gob = GobPanics | GobFails | GobBytes nat

text \<open>A panic of the encoder is recovered and leaves the result at 0.\<close>

fun getBinarySize :: "gob \<Rightarrow> int" where
  "getBinarySize GobPanics = 0"
| "getBinarySize GobFails = 0"
| "getBinarySize (GobBytes n) = int n"

datatype recv_result = RecvOk | RecvEOF | RecvError string

datatype stream_line =
    OpenLine
  | RecvLine (lineParams: string) (lineSize: int) (lineError: "string option")
  | RecvEndLine
  | SendLine (lineCode: int) (lineSize: int) (lineError: "string option")
  | CloseLine (lineCode: int) (lineError: "string option")

definition RecvMsg :: "string option \<Rightarrow> gob \<Rightarrow> recv_result \<Rightarrow> stream_line" where
  "RecvMsg req g err =
     (let params = (case req of None \<Rightarrow> [] | Some p \<Rightarrow> p) in
      case err of
        RecvOk \<Rightarrow> RecvLine params (getBinarySize g) None
      | RecvEOF \<Rightarrow> RecvEndLine
      | RecvError e \<Rightarrow> RecvLine params (getBinarySize g) (Some e))"

text \<open>An error is its status, if it has one, and its text.\<close>

definition SendMsg :: "gob \<Rightarrow> (code option \<times> string) option \<Rightarrow> stream_line" where
  "SendMsg g err =
     (case err of
        Some (stat, e) \<Rightarrow> SendLine (log_code (Some stat)) (getBinarySize g) (Some e)
      | None \<Rightarrow> SendLine 0 (getBinarySize g) None)"

definition close_line :: "(code option \<times> string) option \<Rightarrow> stream_line" where
  "close_line err =
     (case err of
        Some (stat, e) \<Rightarrow> CloseLine (log_code (Some stat)) (Some e)
      | None \<Rightarrow> CloseLine 0 None)"

section \<open>The log of a server stream\<close>

record log_env =
  reqText :: string
  reqGob :: gob
  respGob :: "grpc_response \<Rightarrow> gob"
  sendErr :: "code option \<times> string"
  errText :: "code \<Rightarrow> string"

text \<open>The error of a finished call: that of the failed send, or the status with its text.\<close>

fun call_error :: "log_env \<Rightarrow> stream_err \<Rightarrow> (code option \<times> string) option" where
  "call_error L NoErr = None"
| "call_error L (CodeErr c) = Some (Some c, errText L c)"
| "call_error L SendFailed = Some (sendErr L)"

text \<open>The lines of a call so far: the request is received before the method is called, the sends are
  those of the sender, of which at most the last has failed, and the method's end closes it. The
  message that could not be sent is the one that the handler handed over last.\<close>

definition stream_lines :: "log_env \<Rightarrow> gob \<Rightarrow> stream_state \<Rightarrow> stream_line list" where
  "stream_lines L failed s =
     [OpenLine, RecvMsg (Some (reqText L)) (reqGob L) RecvOk] @
     map (\<lambda>r. SendMsg (respGob L r) None) (delivered s) @
     (if spc s = Failing \<or> spc s = Failed then [SendMsg failed (Some (sendErr L))] else []) @
     (case mpc s of Returned e \<Rightarrow> [close_line (call_error L e)] | _ \<Rightarrow> [])"

lemma no_close_line [simp]: "SendMsg g e \<noteq> CloseLine n t" "RecvMsg q g r \<noteq> CloseLine n t"
  by (simp_all add: SendMsg_def RecvMsg_def Let_def split: option.split prod.split recv_result.split)

lemma close_line_ok: "close_line err = CloseLine n None \<longleftrightarrow> err = None \<and> n = 0"
  by (auto simp: close_line_def split: option.split prod.split)

lemma call_error_None: "call_error L e = None \<longleftrightarrow> e = NoErr"
  by (cases e) simp_all

lemma last_line:
  "last (stream_lines L failed s) = CloseLine n t \<longleftrightarrow>
    (\<exists>e. mpc s = Returned e \<and> close_line (call_error L e) = CloseLine n t)"
proof (cases "\<exists>e. mpc s = Returned e")
  case False
  then have "case_method_pc [] [] (\<lambda>e. [close_line (call_error L e)]) (mpc s) = []"
    by (cases "mpc s") auto
  then show ?thesis using False by (cases "delivered s" rule: rev_cases) (auto simp: stream_lines_def)
qed (auto simp: stream_lines_def)

text \<open>When the log says that a server stream was closed without an error, it has one line without an
  error for every response that the handler has made, in the order of the responses, and no line
  for a failed send; a call that failed with a status other than OK is closed with its number,
  which is not 0.\<close>

theorem stream_log_complete:
  assumes "handler env ServerStream ctx req g st = Some (Inr (evs, st'))"
    and "stream_step\<^sup>*\<^sup>* (stream_init evs) s"
  shows "(last (stream_lines L failed s) = CloseLine 0 None \<longrightarrow>
      stream_lines L failed s = OpenLine # RecvLine (reqText L) (getBinarySize (reqGob L)) None #
        map (\<lambda>r. SendLine 0 (getBinarySize (respGob L r)) None) (sends evs) @ [CloseLine 0 None]) \<and>
    (mpc s = Returned (CodeErr c) \<and> c \<noteq> OK \<longrightarrow>
      (\<exists>n t. last (stream_lines L failed s) = CloseLine n (Some t) \<and> n \<noteq> 0))"
proof -
  have num: "code_num c \<noteq> 0" if "c \<noteq> OK" using that by (cases c) simp_all
  note inv = stream_reach [OF assms]
  have all: "delivered s = sends evs \<and> spc s \<noteq> Failing \<and> spc s \<noteq> Failed" if "mpc s = Returned NoErr"
  proof -
    have c: "closed s" using inv(2) that by (auto simp: ok_after_close_def)
    moreover have "in_flight (spc s) = 0" using inv(1) c by (auto simp: stream_inv_def)
    ultimately show ?thesis using closed_delivered [OF inv(1)] by auto
  qed
  have "stream_lines L failed s = OpenLine # RecvLine (reqText L) (getBinarySize (reqGob L)) None #
      map (\<lambda>r. SendLine 0 (getBinarySize (respGob L r)) None) (sends evs) @ [CloseLine 0 None]"
    if "mpc s = Returned NoErr"
    using all [OF that] that by (simp add: stream_lines_def RecvMsg_def SendMsg_def close_line_def)
  moreover have "\<exists>n t. last (stream_lines L failed s) = CloseLine n (Some t) \<and> n \<noteq> 0"
    if "mpc s = Returned (CodeErr c)" "c \<noteq> OK"
    using that num by (simp add: last_line close_line_def log_code_def)
  ultimately show ?thesis by (auto simp: last_line close_line_ok call_error_None)
qed

end
