(* ===== verification/Chat.thy ===== *)
theory Chat
  imports HttpHandler "HOL-Library.Multiset"
begin

text \<open>
  websocket.go: the chat hub, the handler of a connection with its two pumps, and the colors of the
  clients. A client is a number, that of its connection; the hub's map is the set of its keys, and
  the order in which a range loop visits them is open. Each step of the relation is one operation
  of one goroutine; a panic in any of them ends the program, which is the flag \<open>crashed\<close>.

  Parameters: the JSON encoder, the JSON decoder (the new value of the struct it decodes into and
  whether it succeeded), the host's address, times and the text of an error.
\<close>

section \<open>Colors\<close>

definition defColors :: "string list" where
  "defColors = [''aqua'', ''black'', ''blue'', ''fuchsia'', ''gray'', ''green'', ''lime'', ''maroon'',
     ''navy'', ''olive'', ''purple'', ''silver'', ''teal'', ''white'', ''yellow'']"

text \<open>The counting map of \<open>diffSlice\<close>, and its second loop.\<close>

fun count_map :: "'a list \<Rightarrow> ('a \<rightharpoonup> int) \<Rightarrow> 'a \<rightharpoonup> int" where
  "count_map [] m = m"
| "count_map (v # vs) m = count_map vs (m(v \<mapsto> (case m v of None \<Rightarrow> 0 | Some t \<Rightarrow> t) + 1))"

fun diff_loop :: "'a list \<Rightarrow> ('a \<rightharpoonup> int) \<Rightarrow> 'a list" where
  "diff_loop [] m = []"
| "diff_loop (v # vs) m =
     (case m v of
        None \<Rightarrow> v # diff_loop vs m
      | Some t \<Rightarrow> if t = 1 then diff_loop vs (m(v := None)) else diff_loop vs (m(v \<mapsto> t - 1)))"

definition diffSlice :: "'a list \<Rightarrow> 'a list \<Rightarrow> 'a list" where
  "diffSlice xs ys = diff_loop xs (count_map ys Map.empty)"

fun used_colors :: "string list \<Rightarrow> string list \<Rightarrow> string list" where
  "used_colors [] used = used"
| "used_colors (c # cs) used = used_colors cs (if c \<in> set used then used else used @ [c])"

text \<open>The colors of the clients in the order of the range loop, and the index \<open>rand.Intn n\<close>.\<close>

definition getRandomColor :: "(nat \<Rightarrow> nat) \<Rightarrow> string list \<Rightarrow> string" where
  "getRandomColor intn colors =
     (let diffColors = diffSlice defColors (used_colors colors []) in
      if length diffColors = 0 then defColors ! intn (length defColors)
      else diffColors ! intn (length diffColors))"

text \<open>The counting map holds the positive numbers of a counting function.\<close>

definition counts :: "('a \<Rightarrow> nat) \<Rightarrow> 'a \<rightharpoonup> int" where
  "counts f = (\<lambda>v. if f v = 0 then None else Some (int (f v)))"

lemma counts_add: "(counts f)(v \<mapsto> (case counts f v of None \<Rightarrow> 0 | Some t \<Rightarrow> t) + 1) = counts (f(v := f v + 1))"
  by (auto simp: counts_def fun_eq_iff)

lemma counts_remove:
  "f v = 1 \<Longrightarrow> (counts f)(v := None) = counts (f(v := f v - 1))"
  "f v > 1 \<Longrightarrow> (counts f)(v \<mapsto> int (f v) - 1) = counts (f(v := f v - 1))"
  by (auto simp: counts_def fun_eq_iff)

lemma count_map_counts: "count_map vs (counts f) = counts (\<lambda>x. f x + count_list vs x)"
proof (induction vs arbitrary: f)
  case (Cons v vs)
  have "(\<lambda>x. (f(v := f v + 1)) x + count_list vs x) = (\<lambda>x. f x + count_list (v # vs) x)"
    by (simp add: fun_eq_iff)
  with Cons.IH show ?case by (simp only: count_map.simps counts_add)
qed simp

lemma diff_loop_counts: "count_list (diff_loop vs (counts f)) x = count_list vs x - f x"
proof (induction vs arbitrary: f)
  case (Cons v vs)
  consider "f v = 0" | "f v = 1" | "f v > 1" by linarith
  then show ?case
  proof cases
    case 1
    then have "counts f v = None" by (simp add: counts_def)
    with 1 Cons.IH show ?thesis by auto
  next
    case 2
    then have "counts f v = Some 1" by (simp add: counts_def)
    with 2 Cons.IH show ?thesis by (auto simp: counts_remove)
  next
    case 3
    then have "counts f v = Some (int (f v))" by (simp add: counts_def)
    with 3 Cons.IH show ?thesis by (auto simp: counts_remove)
  qed
qed simp

lemma diffSlice_count: "count_list (diffSlice xs ys) x = count_list xs x - count_list ys x"
proof -
  have "(Map.empty :: 'a \<rightharpoonup> int) = counts (\<lambda>_. 0)" by (simp add: counts_def)
  then show ?thesis unfolding diffSlice_def by (simp only: count_map_counts diff_loop_counts)
qed

lemma diffSlice_mset: "mset (diffSlice xs ys) = mset xs - mset ys"
  by (rule multiset_eqI) (simp add: count_mset diffSlice_count)

lemma used_colors_set: "set (used_colors cs used) = set cs \<union> set used"
  by (induction cs used rule: used_colors.induct) auto

lemma used_colors_distinct: "distinct used \<Longrightarrow> distinct (used_colors cs used)"
  by (induction cs used rule: used_colors.induct) auto

lemma distinct_defColors: "distinct defColors"
  by (simp add: defColors_def)

lemma diffSlice_set:
  assumes "distinct xs"
  shows "set (diffSlice xs ys) = set xs - set ys"
proof (rule set_eqI)
  fix x
  have "count_list xs x \<le> 1" using assms by (induction xs) (auto simp: count_list_0_iff)
  then show "x \<in> set (diffSlice xs ys) \<longleftrightarrow> x \<in> set xs - set ys"
    using diffSlice_count [of xs ys x] count_list_0_iff [of "diffSlice xs ys" x] count_list_0_iff [of xs x]
      count_list_0_iff [of ys x]
    by auto
qed

text \<open>A new client gets one of the fifteen colors, and one that no connected client has as long
  as there is such a color; the subtraction of slices behind it is that of multisets.\<close>

theorem color_fresh:
  assumes "\<And>n. 0 < n \<Longrightarrow> intn n < n"
  shows "getRandomColor intn colors \<in> set defColors \<and>
    (\<not> set defColors \<subseteq> set colors \<longrightarrow> getRandomColor intn colors \<notin> set colors) \<and>
    mset (diffSlice xs ys) = mset xs - mset ys"
proof -
  let ?diff = "diffSlice defColors (used_colors colors [])"
  have s: "set ?diff = set defColors - set colors"
    using diffSlice_set [OF distinct_defColors] used_colors_set [of colors "[]"] by simp
  show ?thesis
  proof (cases "?diff = []")
    case True
    then have "set defColors \<subseteq> set colors" using s by auto
    moreover have "getRandomColor intn colors = defColors ! intn (length defColors)"
      using True by (simp add: getRandomColor_def)
    moreover have "intn (length defColors) < length defColors"
      by (rule assms) (simp add: defColors_def)
    ultimately show ?thesis using diffSlice_mset nth_mem by auto
  next
    case False
    then have "intn (length ?diff) < length ?diff" by (intro assms) simp
    then have "?diff ! intn (length ?diff) \<in> set ?diff" by (rule nth_mem)
    moreover have "getRandomColor intn colors = ?diff ! intn (length ?diff)"
      using False by (simp add: getRandomColor_def Let_def)
    ultimately show ?thesis using s diffSlice_mset by auto
  qed
qed

theorem color_fresh_witness:
  "getRandomColor (\<lambda>_. 0) [''black'', ''aqua'', ''aqua''] \<notin> {''black'', ''aqua''}"
proof -
  have "\<not> set defColors \<subseteq> set [''black'', ''aqua'', ''aqua'']" by (simp add: defColors_def)
  then show ?thesis
    using color_fresh [of "\<lambda>_. 0" "[''black'', ''aqua'', ''aqua'']" "[]" "[]"] by auto
qed


section \<open>Messages\<close>

record chat_user =
  userClientID :: string
  userHostIP :: string
  userColor :: string

record ws_data =
  wsType :: string
  wsMessage :: string
  wsSendTime :: int
  wsConnCount :: int
  wsUser :: chat_user

definition empty_data :: ws_data where
  "empty_data = \<lparr>wsType = [], wsMessage = [], wsSendTime = 0, wsConnCount = 0,
     wsUser = \<lparr>userClientID = [], userHostIP = [], userColor = []\<rparr>\<rparr>"

definition convertWsData2JSON :: "(ws_data \<Rightarrow> string) \<Rightarrow> ws_data \<Rightarrow> string" where
  "convertWsData2JSON marshal wsData =
     trim_space (map (\<lambda>c. if c = CHR 0x0A then CHR '' '' else c) (marshal wsData))"

definition getClientID :: "http_request \<Rightarrow> string \<Rightarrow> string" where
  "getClientID r local =
     (let clientID = hRemote r @ '', '' @ local;
          xff = header_Get ''X-Forwarded-For'' (hHeader r);
          clientID = (if xff \<noteq> [] then xff @ '', '' @ clientID else clientID)
      in filter (\<lambda>c. c \<noteq> CHR '' '') clientID)"

section \<open>The hub\<close>

text \<open>What a read pump has still to do: a message into its own queue, one to everybody, leave.\<close>

datatype ws_act = ToSelf string | ToAll string | Leave

datatype writer_pc = Writing | Announcing string | WriterGone

record chat_client =
  clientId :: string
  clientColor :: string
  queue :: "string list"
  sendClosed :: bool
  flagged :: bool
  reading :: bool
  todo :: "ws_act list"
  wsIn :: ws_data
  wsOut :: ws_data
  writer :: writer_pc

record chat =
  joined :: nat
  clients :: "nat \<Rightarrow> chat_client"
  members :: "nat set"
  crashed :: bool

definition queue_cap :: nat where
  "queue_cap = 256"

definition change :: "nat \<Rightarrow> (chat_client \<Rightarrow> chat_client) \<Rightarrow> chat \<Rightarrow> chat" where
  "change c f s = s\<lparr>clients := (clients s)(c := f (clients s c))\<rparr>"

definition close_send :: "nat \<Rightarrow> chat \<Rightarrow> chat res" where
  "close_send c s =
     (if sendClosed (clients s c) then Inl CloseOfClosed
      else Inr (change c (\<lambda>cl. cl\<lparr>sendClosed := True\<rparr>) s))"

definition hub_register :: "nat \<Rightarrow> chat \<Rightarrow> chat" where
  "hub_register c s = s\<lparr>members := insert c (members s)\<rparr>"

definition hub_unregister :: "nat \<Rightarrow> chat \<Rightarrow> chat res" where
  "hub_unregister c s =
     (if c \<in> members s then close_send c (s\<lparr>members := members s - {c}\<rparr>) else Inr s)"

text \<open>A send into a queue, here of the hub, which does not wait, and of a read pump, which does.\<close>

definition hub_deliver :: "string \<Rightarrow> nat \<Rightarrow> chat \<Rightarrow> chat res" where
  "hub_deliver message c s =
     (if flagged (clients s c) then Inr s
      else if sendClosed (clients s c) then Inl SendOnClosed
      else if length (queue (clients s c)) < queue_cap
      then Inr (change c (\<lambda>cl. cl\<lparr>queue := queue cl @ [message]\<rparr>) s)
      else res_bind (close_send c s) (\<lambda>s. Inr (s\<lparr>members := members s - {c}\<rparr>)))"

fun hub_broadcast :: "string \<Rightarrow> nat list \<Rightarrow> chat \<Rightarrow> chat res" where
  "hub_broadcast message [] s = Inr s"
| "hub_broadcast message (c # order) s =
     res_bind (hub_deliver message c s) (hub_broadcast message order)"

definition send_self :: "nat \<Rightarrow> string \<Rightarrow> chat \<Rightarrow> chat res" where
  "send_self c message s =
     (if sendClosed (clients s c) then Inl SendOnClosed
      else Inr (change c (\<lambda>cl. cl\<lparr>queue := queue cl @ [message]\<rparr>) s))"

section \<open>The read pump\<close>

text \<open>The user that a message carries: the address, once set, stays.\<close>

definition from_user :: "chat_client \<Rightarrow> ws_data \<Rightarrow> ws_data" where
  "from_user cl out = out\<lparr>wsUser := (wsUser out)\<lparr>userClientID := clientId cl, userColor := clientColor cl\<rparr>\<rparr>"

definition read_failed :: "(ws_data \<Rightarrow> string) \<Rightarrow> int \<Rightarrow> nat \<Rightarrow> string \<Rightarrow> chat_client \<Rightarrow> chat_client" where
  "read_failed marshal now n err cl =
     (let out = from_user cl ((wsOut cl)\<lparr>wsType := ''deliverMessage'',
            wsMessage := ''Disconnected due to ['' @ err @ '']'', wsSendTime := now, wsConnCount := int n - 1\<rparr>)
      in cl\<lparr>wsOut := out, flagged := True, reading := False,
            todo := [ToAll (convertWsData2JSON marshal out), Leave]\<rparr>)"

definition who_am_i :: "(ws_data \<Rightarrow> string) \<Rightarrow> string \<Rightarrow> int \<Rightarrow> nat \<Rightarrow> chat_client \<Rightarrow> chat_client" where
  "who_am_i marshal ip now n cl =
     (let info = from_user cl ((wsOut cl)\<lparr>wsType := ''yourInfo''\<rparr>);
          info = info\<lparr>wsUser := (wsUser info)\<lparr>userHostIP := ip\<rparr>\<rparr>;
          out = from_user cl (info\<lparr>wsType := ''deliverMessage'', wsMessage := ''Connection opened.'',
            wsSendTime := now, wsConnCount := int n\<rparr>)
      in cl\<lparr>wsOut := out,
            todo := [ToSelf (convertWsData2JSON marshal info), ToAll (convertWsData2JSON marshal out)]\<rparr>)"

definition relay :: "(ws_data \<Rightarrow> string) \<Rightarrow> int \<Rightarrow> nat \<Rightarrow> chat_client \<Rightarrow> chat_client" where
  "relay marshal now n cl =
     (let out = from_user cl ((wsOut cl)\<lparr>wsMessage := wsMessage (wsIn cl), wsSendTime := now, wsConnCount := int n\<rparr>)
      in if wsType (wsIn cl) = ''postToChat'' then
           let out = out\<lparr>wsType := ''deliverMessage''\<rparr>
           in cl\<lparr>wsOut := out, todo := [ToAll (convertWsData2JSON marshal out)]\<rparr>
         else if wsType (wsIn cl) = ''echoMessage'' then
           let out = out\<lparr>wsType := ''echoReply''\<rparr>
           in cl\<lparr>wsOut := out, todo := [ToSelf (convertWsData2JSON marshal out)]\<rparr>
         else cl\<lparr>wsOut := out\<rparr>)"

text \<open>A message: the decoder fills the struct of the messages before it.\<close>

definition read_message ::
  "(ws_data \<Rightarrow> string) \<Rightarrow> (string \<Rightarrow> ws_data \<Rightarrow> ws_data \<times> bool) \<Rightarrow> string \<Rightarrow> int \<Rightarrow> nat \<Rightarrow> string \<Rightarrow>
   chat_client \<Rightarrow> chat_client" where
  "read_message marshal unmarshal ip now n message cl =
     (let (inData, ok) = unmarshal message (wsIn cl);
          cl = cl\<lparr>wsIn := inData\<rparr>
      in if \<not> ok then cl\<lparr>todo := [ToSelf message]\<rparr>
         else if wsType inData = ''whoAmI'' then who_am_i marshal ip now n cl
         else relay marshal now n cl)"

section \<open>Steps\<close>

definition new_client :: "string \<Rightarrow> string \<Rightarrow> chat_client" where
  "new_client cid col = \<lparr>clientId = cid, clientColor = col, queue = [], sendClosed = False, flagged = False,
     reading = True, todo = [], wsIn = empty_data, wsOut = empty_data, writer = Writing\<rparr>"

definition wsHandler :: "string \<Rightarrow> (nat \<Rightarrow> nat) \<Rightarrow> nat list \<Rightarrow> chat \<Rightarrow> chat" where
  "wsHandler cid intn order s =
     (let client = new_client cid (getRandomColor intn (map (\<lambda>c. clientColor (clients s c)) order))
      in hub_register (joined s)
           (s\<lparr>clients := (clients s)(joined s := client), joined := Suc (joined s)\<rparr>))"

definition chat_init :: chat where
  "chat_init = \<lparr>joined = 0, clients = \<lambda>_. new_client [] [], members = {}, crashed = False\<rparr>"

fun settle :: "chat \<Rightarrow> chat res \<Rightarrow> chat" where
  "settle s (Inl p) = s\<lparr>crashed := True\<rparr>"
| "settle s (Inr t) = t"

definition ranges_over :: "nat list \<Rightarrow> chat \<Rightarrow> bool" where
  "ranges_over order s = (distinct order \<and> set order = members s)"

definition next_todo :: "nat \<Rightarrow> chat \<Rightarrow> chat" where
  "next_todo c = change c (\<lambda>cl. cl\<lparr>todo := tl (todo cl)\<rparr>)"

text \<open>The write pump takes what is in the queue in one go; at any of its writes, having taken some
  of it, it may fail.\<close>

inductive chat_step ::
  "(ws_data \<Rightarrow> string) \<Rightarrow> (string \<Rightarrow> ws_data \<Rightarrow> ws_data \<times> bool) \<Rightarrow> string \<Rightarrow> chat \<Rightarrow> chat \<Rightarrow> bool"
  for marshal unmarshal ip where
  connect: "\<not> crashed s \<Longrightarrow> ranges_over order s \<Longrightarrow> (\<And>n. 0 < n \<Longrightarrow> intn n < n) \<Longrightarrow>
    chat_step marshal unmarshal ip s (wsHandler cid intn order s)"
| receive: "\<not> crashed s \<Longrightarrow> c < joined s \<Longrightarrow> reading (clients s c) \<Longrightarrow> todo (clients s c) = [] \<Longrightarrow>
    chat_step marshal unmarshal ip s
      (change c (read_message marshal unmarshal ip now (card (members s)) message) s)"
| lose: "\<not> crashed s \<Longrightarrow> c < joined s \<Longrightarrow> reading (clients s c) \<Longrightarrow> todo (clients s c) = [] \<Longrightarrow>
    chat_step marshal unmarshal ip s (change c (read_failed marshal now (card (members s)) err) s)"
| self: "\<not> crashed s \<Longrightarrow> c < joined s \<Longrightarrow> todo (clients s c) = ToSelf message # r \<Longrightarrow>
    sendClosed (clients s c) \<or> length (queue (clients s c)) < queue_cap \<Longrightarrow>
    chat_step marshal unmarshal ip s (settle s (send_self c message (next_todo c s)))"
| all: "\<not> crashed s \<Longrightarrow> c < joined s \<Longrightarrow> todo (clients s c) = ToAll message # r \<Longrightarrow> ranges_over order s \<Longrightarrow>
    chat_step marshal unmarshal ip s (settle s (hub_broadcast message order (next_todo c s)))"
| leave: "\<not> crashed s \<Longrightarrow> c < joined s \<Longrightarrow> todo (clients s c) = Leave # r \<Longrightarrow>
    chat_step marshal unmarshal ip s (settle s (hub_unregister c (next_todo c s)))"
| drain: "\<not> crashed s \<Longrightarrow> c < joined s \<Longrightarrow> writer (clients s c) = Writing \<Longrightarrow> queue (clients s c) \<noteq> [] \<Longrightarrow>
    chat_step marshal unmarshal ip s (change c (\<lambda>cl. cl\<lparr>queue := []\<rparr>) s)"
| hang_up: "\<not> crashed s \<Longrightarrow> c < joined s \<Longrightarrow> writer (clients s c) = Writing \<Longrightarrow> queue (clients s c) = [] \<Longrightarrow>
    sendClosed (clients s c) \<Longrightarrow> chat_step marshal unmarshal ip s (change c (\<lambda>cl. cl\<lparr>writer := WriterGone\<rparr>) s)"
| write_fail: "\<not> crashed s \<Longrightarrow> c < joined s \<Longrightarrow> writer (clients s c) = Writing \<Longrightarrow>
    place \<in> {''NextWriter'', ''NextWriter.Close'', ''WriteMessage''} \<Longrightarrow>
    chat_step marshal unmarshal ip s (change c (\<lambda>cl. cl\<lparr>queue := drop k (queue cl), flagged := True,
      writer := Announcing (''Disconnected due to ['' @ err @ ''] in '' @ place)\<rparr>) s)"
| announce: "\<not> crashed s \<Longrightarrow> c < joined s \<Longrightarrow> writer (clients s c) = Announcing message \<Longrightarrow> ranges_over order s \<Longrightarrow>
    chat_step marshal unmarshal ip s
      (settle s (hub_broadcast message order (change c (\<lambda>cl. cl\<lparr>writer := WriterGone\<rparr>) s)))"


section \<open>Broadcasts\<close>

definition dropped :: "chat_client \<Rightarrow> bool" where
  "dropped cl = (\<not> flagged cl \<and> queue_cap \<le> length (queue cl))"

definition deliver_client :: "string \<Rightarrow> chat_client \<Rightarrow> chat_client" where
  "deliver_client message cl =
     (if flagged cl then cl else if dropped cl then cl\<lparr>sendClosed := True\<rparr> else cl\<lparr>queue := queue cl @ [message]\<rparr>)"

definition after_broadcast :: "string \<Rightarrow> nat set \<Rightarrow> chat \<Rightarrow> chat" where
  "after_broadcast message C s =
     s\<lparr>clients := \<lambda>c. if c \<in> C then deliver_client message (clients s c) else clients s c,
       members := members s - {c \<in> C. dropped (clients s c)}\<rparr>"

lemma after_broadcast_sel [simp]:
  "members (after_broadcast m C s) = members s - {c \<in> C. dropped (clients s c)}"
  "clients (after_broadcast m C s) = (\<lambda>c. if c \<in> C then deliver_client m (clients s c) else clients s c)"
  "joined (after_broadcast m C s) = joined s" "crashed (after_broadcast m C s) = crashed s"
  by (simp_all add: after_broadcast_def)

lemma hub_deliver_open:
  assumes "\<not> sendClosed (clients s c)"
  shows "hub_deliver message c s = Inr (after_broadcast message {c} s)"
proof -
  have upd: "(\<lambda>d. if d = c then f (clients s d) else clients s d) = (clients s)(c := f (clients s c))" for f
    by auto
  have "{d. d = c \<and> dropped (clients s d)} = (if dropped (clients s c) then {c} else {})" by auto
  then show ?thesis
    using assms
    by (simp add: hub_deliver_def after_broadcast_def upd deliver_client_def close_send_def change_def dropped_def)
qed

lemma hub_broadcast_open:
  assumes "distinct order" and "\<forall>c \<in> set order. \<not> sendClosed (clients s c)"
  shows "hub_broadcast message order s = Inr (after_broadcast message (set order) s)"
  using assms
proof (induction order arbitrary: s)
  case Nil
  then show ?case by (simp add: after_broadcast_def)
next
  case (Cons c order)
  let ?s = "after_broadcast message {c} s"
  have "\<forall>d \<in> set order. \<not> sendClosed (clients ?s d)"
    using Cons.prems by auto
  with Cons have "hub_broadcast message order ?s = Inr (after_broadcast message (set order) ?s)" by simp
  moreover have "after_broadcast message (set order) ?s = after_broadcast message (set (c # order)) s"
    using Cons.prems(1) by (intro chat.equality) (auto simp: fun_eq_iff)
  ultimately show ?case using Cons.prems(2) by (simp add: hub_deliver_open)
qed

section \<open>Invariant\<close>

text \<open>The hub's map has exactly the clients whose queues are open, and no queue overflows.\<close>

definition hub_inv :: "chat \<Rightarrow> bool" where
  "hub_inv s =
     ((\<forall>c < joined s. sendClosed (clients s c) \<longleftrightarrow> c \<notin> members s) \<and>
      (\<forall>c < joined s. length (queue (clients s c)) \<le> queue_cap) \<and>
      (\<forall>c \<in> members s. c < joined s))"

lemma hub_inv_change:
  assumes "hub_inv s" and "sendClosed (f (clients s c)) = sendClosed (clients s c)"
    and "length (queue (f (clients s c))) \<le> max (length (queue (clients s c))) queue_cap"
  shows "hub_inv (change c f s)"
  using assms by (auto simp: hub_inv_def change_def le_max_iff_disj)

lemma hub_inv_broadcast:
  assumes "hub_inv s" and "ranges_over order s"
  shows "hub_broadcast message order s = Inr (after_broadcast message (members s) s)"
    and "hub_inv (after_broadcast message (members s) s)"
proof -
  have "\<forall>c \<in> set order. \<not> sendClosed (clients s c)"
    using assms by (auto simp: hub_inv_def ranges_over_def)
  then show "hub_broadcast message order s = Inr (after_broadcast message (members s) s)"
    using hub_broadcast_open assms(2) by (simp add: ranges_over_def)
  show "hub_inv (after_broadcast message (members s) s)"
    using assms(1) by (auto simp: hub_inv_def deliver_client_def dropped_def)
qed

lemma hub_inv_unregister:
  assumes "hub_inv s"
  obtains t where "hub_unregister c s = Inr t" and "hub_inv t"
proof (cases "c \<in> members s")
  case True
  with assms have "hub_unregister c s = Inr (change c (\<lambda>cl. cl\<lparr>sendClosed := True\<rparr>) (s\<lparr>members := members s - {c}\<rparr>))"
    by (auto simp: hub_unregister_def close_send_def hub_inv_def)
  moreover have "hub_inv (change c (\<lambda>cl. cl\<lparr>sendClosed := True\<rparr>) (s\<lparr>members := members s - {c}\<rparr>))"
    using assms by (auto simp: hub_inv_def change_def)
  ultimately show thesis by (rule that)
next
  case False
  with assms that show thesis by (simp add: hub_unregister_def)
qed

lemma hub_inv_crashed: "hub_inv (s\<lparr>crashed := b\<rparr>) = hub_inv s"
  by (simp add: hub_inv_def)

lemma ranges_over_change: "ranges_over order (change c f s) = ranges_over order s"
  by (simp add: ranges_over_def change_def)

lemma read_keeps_queue:
  "sendClosed (read_message marshal unmarshal ip now n message cl) = sendClosed cl"
  "queue (read_message marshal unmarshal ip now n message cl) = queue cl"
  "sendClosed (read_failed marshal now n err cl) = sendClosed cl"
  "queue (read_failed marshal now n err cl) = queue cl"
  by (simp_all add: read_message_def who_am_i_def relay_def read_failed_def Let_def split: prod.splits)

lemma hub_inv_step: "chat_step marshal unmarshal ip s t \<Longrightarrow> hub_inv s \<Longrightarrow> hub_inv t"
proof (induction rule: chat_step.induct)
  case (connect s order intn cid)
  then show ?case
    by (auto simp: hub_inv_def wsHandler_def hub_register_def new_client_def Let_def less_Suc_eq)
next
  case (self s c message r)
  let ?n = "next_todo c s"
  have n: "hub_inv ?n" unfolding next_todo_def by (rule hub_inv_change [OF self.prems]) simp_all
  have sel: "clients ?n c = (clients s c)\<lparr>todo := tl (todo (clients s c))\<rparr>" by (simp add: next_todo_def change_def)
  show ?case
  proof (cases "sendClosed (clients s c)")
    case True
    then show ?thesis using self.prems by (simp add: send_self_def sel hub_inv_crashed)
  next
    case False
    with self.hyps have "length (queue (clients s c)) < queue_cap" by simp
    then have "hub_inv (change c (\<lambda>cl. cl\<lparr>queue := queue cl @ [message]\<rparr>) ?n)"
      by (intro hub_inv_change [OF n]) (simp_all add: sel)
    with False show ?thesis by (simp add: send_self_def sel)
  qed
next
  case (all s c message r order)
  have n: "hub_inv (next_todo c s)" unfolding next_todo_def by (rule hub_inv_change [OF all.prems]) simp_all
  with all.hyps(4) show ?case
    using hub_inv_broadcast [OF n, of order message] by (simp add: next_todo_def ranges_over_change)
next
  case (leave s c r)
  have n: "hub_inv (next_todo c s)" unfolding next_todo_def by (rule hub_inv_change [OF leave.prems]) simp_all
  obtain t where "hub_unregister c (next_todo c s) = Inr t" "hub_inv t" by (rule hub_inv_unregister [OF n])
  then show ?case by simp
next
  case (announce s c message order)
  let ?n = "change c (\<lambda>cl. cl\<lparr>writer := WriterGone\<rparr>) s"
  have n: "hub_inv ?n" by (rule hub_inv_change [OF announce.prems]) simp_all
  with announce.hyps(4) show ?case
    using hub_inv_broadcast [OF n, of order message] by (simp add: ranges_over_change)
qed (auto intro!: hub_inv_change simp: read_keeps_queue)

interpretation hub: invariant_system "chat_step marshal unmarshal ip" hub_inv for marshal unmarshal ip
  by unfold_locales (rule hub_inv_step)

lemma hub_inv_init: "hub_inv chat_init"
  by (simp add: hub_inv_def chat_init_def)

lemma chat_reach: "(chat_step marshal unmarshal ip)\<^sup>*\<^sup>* chat_init s \<Longrightarrow> hub_inv s"
  using hub.run_inv hub_inv_init by blast


text \<open>C27. In every reachable state of the chat the hub's map holds exactly the clients whose queue
  is open, and no queue is longer than its capacity. So the hub itself never closes a queue twice
  nor sends into a closed one, whatever it is asked next and in whatever order it visits its
  map.\<close>

theorem hub_never_panics:
  assumes "(chat_step marshal unmarshal ip)\<^sup>*\<^sup>* chat_init s"
  shows "(\<forall>c < joined s. (sendClosed (clients s c) \<longleftrightarrow> c \<notin> members s) \<and> length (queue (clients s c)) \<le> queue_cap) \<and>
    (\<forall>c. \<not> panics (hub_unregister c s)) \<and>
    (\<forall>message order. ranges_over order s \<longrightarrow> \<not> panics (hub_broadcast message order s))"
proof -
  note inv = chat_reach [OF assms]
  have "\<not> panics (hub_unregister c s)" for c
    by (rule hub_inv_unregister [OF inv, of c]) (simp add: panics_def)
  moreover have "\<not> panics (hub_broadcast message order s)" if "ranges_over order s" for message order
    using hub_inv_broadcast(1) [OF inv that] by (simp add: panics_def)
  ultimately show ?thesis using inv by (auto simp: hub_inv_def)
qed

text \<open>C29. A broadcast reaches each connected client exactly once, whatever the order in which the
  hub visits its map: a client whose queue has room gets the message at the end of it, one whose
  queue is full is closed and removed, one that has lost its connection stays as it is, and
  everybody else is untouched.\<close>

theorem broadcast_result:
  assumes "(chat_step marshal unmarshal ip)\<^sup>*\<^sup>* chat_init s" and "ranges_over order s"
  shows "\<exists>t. hub_broadcast message order s = Inr t \<and>
    (\<forall>c. let room = length (queue (clients s c)) < queue_cap; live = (c \<in> members s \<and> \<not> flagged (clients s c)) in
      queue (clients t c) = queue (clients s c) @ (if live \<and> room then [message] else []) \<and>
      (c \<in> members t \<longleftrightarrow> c \<in> members s \<and> (live \<longrightarrow> room)) \<and>
      (sendClosed (clients t c) \<longleftrightarrow> sendClosed (clients s c) \<or> live \<and> \<not> room))"
  using hub_inv_broadcast(1) [OF chat_reach [OF assms(1)] assms(2), of message]
  by (auto simp: deliver_client_def dropped_def Let_def)

section \<open>A crash\<close>

text \<open>Two clients, of which the first has \<open>n\<close> messages waiting.\<close>

definition filled :: "nat \<Rightarrow> chat \<Rightarrow> bool" where
  "filled n s = (\<not> crashed s \<and> joined s = 2 \<and> members s = {0, 1} \<and>
     reading (clients s 0) \<and> todo (clients s 0) = [] \<and> \<not> flagged (clients s 0) \<and>
     \<not> sendClosed (clients s 0) \<and> length (queue (clients s 0)) = n \<and>
     reading (clients s 1) \<and> todo (clients s 1) = [] \<and> \<not> sendClosed (clients s 1))"

lemma filled_start: "\<exists>s. (chat_step marshal unmarshal ip)\<^sup>*\<^sup>* chat_init s \<and> filled 0 s"
proof -
  let ?s1 = "wsHandler [] (\<lambda>_. 0) [] chat_init"
  let ?s2 = "wsHandler [] (\<lambda>_. 0) [0] ?s1"
  have "chat_step marshal unmarshal ip chat_init ?s1"
    by (rule connect) (simp_all add: chat_init_def ranges_over_def)
  moreover have s1: "\<not> crashed ?s1" "members ?s1 = {0}" "joined ?s1 = 1"
    by (simp_all add: wsHandler_def hub_register_def chat_init_def Let_def)
  then have "chat_step marshal unmarshal ip ?s1 ?s2"
    by (intro connect) (simp_all add: ranges_over_def)
  ultimately have "(chat_step marshal unmarshal ip)\<^sup>*\<^sup>* chat_init ?s2" by auto
  moreover have "filled 0 ?s2"
    by (auto simp: filled_def wsHandler_def hub_register_def chat_init_def new_client_def Let_def)
  ultimately show ?thesis by blast
qed

text \<open>A client sends something that the decoder refuses, whatever the struct holds.\<close>

definition not_json :: "(string \<Rightarrow> ws_data \<Rightarrow> ws_data \<times> bool) \<Rightarrow> string \<Rightarrow> bool" where
  "not_json unmarshal message = (\<forall>d. \<not> snd (unmarshal message d))"

lemma read_plain:
  assumes "not_json unmarshal message"
  shows "read_message marshal unmarshal ip now n message cl =
    cl\<lparr>wsIn := fst (unmarshal message (wsIn cl)), todo := [ToSelf message]\<rparr>"
  using assms by (simp add: not_json_def read_message_def case_prod_beta Let_def)

definition got_plain :: "(string \<Rightarrow> ws_data \<Rightarrow> ws_data \<times> bool) \<Rightarrow> string \<Rightarrow> chat \<Rightarrow> chat" where
  "got_plain unmarshal message s =
     change 0 (\<lambda>cl. cl\<lparr>wsIn := fst (unmarshal message (wsIn cl)), todo := [ToSelf message]\<rparr>) s"

lemma got_plain_step:
  assumes "not_json unmarshal message" and "filled n s"
  shows "chat_step marshal unmarshal ip s (got_plain unmarshal message s)"
proof -
  have "read_message marshal unmarshal ip 0 (card (members s)) message =
      (\<lambda>cl. cl\<lparr>wsIn := fst (unmarshal message (wsIn cl)), todo := [ToSelf message]\<rparr>)"
    using read_plain [OF assms(1)] by blast
  moreover have "chat_step marshal unmarshal ip s
      (change 0 (read_message marshal unmarshal ip 0 (card (members s)) message) s)"
    using assms(2) by (intro receive) (simp_all add: filled_def)
  ultimately show ?thesis by (simp add: got_plain_def)
qed

lemma filled_more:
  assumes "not_json unmarshal message" and "filled n s" and "n < queue_cap"
  shows "\<exists>t. (chat_step marshal unmarshal ip)\<^sup>*\<^sup>* s t \<and> filled (Suc n) t"
proof -
  let ?t = "got_plain unmarshal message s"
  let ?u = "settle ?t (send_self 0 message (next_todo 0 ?t))"
  have "chat_step marshal unmarshal ip ?t ?u"
    using assms(2,3) by (intro self) (simp_all add: filled_def got_plain_def change_def)
  then have "(chat_step marshal unmarshal ip)\<^sup>*\<^sup>* s ?u"
    using got_plain_step [OF assms(1,2)] by (meson converse_rtranclp_into_rtranclp r_into_rtranclp)
  moreover have "filled (Suc n) ?u"
    using assms(2) by (simp add: filled_def got_plain_def send_self_def next_todo_def change_def)
  ultimately show ?thesis by blast
qed

lemma filled_reach:
  assumes "not_json unmarshal message" and "n \<le> queue_cap"
  shows "\<exists>s. (chat_step marshal unmarshal ip)\<^sup>*\<^sup>* chat_init s \<and> filled n s"
  using assms(2)
proof (induction n)
  case 0
  show ?case by (rule filled_start)
next
  case (Suc n)
  then obtain s where "(chat_step marshal unmarshal ip)\<^sup>*\<^sup>* chat_init s" "filled n s" "n < queue_cap" by auto
  with filled_more [OF assms(1)] show ?case by (meson rtranclp_trans)
qed

text \<open>C28. One client can bring the whole program down: it sends texts that are not JSON, which are
  echoed into its own queue, and does not read the replies. When the queue is full its read pump
  waits at the next echo; the first broadcast of anybody closes the queue, and the waiting send into
  the closed queue panics, in a goroutine that nobody guards.\<close>

theorem chat_can_crash:
  assumes "not_json unmarshal message"
  shows "\<exists>s. (chat_step marshal unmarshal ip)\<^sup>*\<^sup>* chat_init s \<and> crashed s"
proof -
  let ?step = "chat_step marshal unmarshal ip"
  obtain s where s: "?step\<^sup>*\<^sup>* chat_init s" "filled queue_cap s"
    using filled_reach [OF assms, of queue_cap] by auto
  let ?t = "got_plain unmarshal message s"
  let ?u = "change 1 (read_failed marshal 0 (card (members ?t)) []) ?t"
  obtain m where m: "todo (clients ?u 1) = [ToAll m, Leave]"
    by (simp add: change_def read_failed_def Let_def)
  let ?n = "next_todo 1 ?u"
  let ?v = "settle ?u (hub_broadcast m [0, 1] ?n)"
  have tu: "?step ?t ?u"
    using s(2) by (intro lose) (simp_all add: filled_def got_plain_def change_def)
  have "members ?u = {0, 1}" using s(2) by (simp add: filled_def got_plain_def change_def)
  then have uv: "?step ?u ?v"
    using s(2) m by (intro all [where r = "[Leave]"]) (simp_all add: ranges_over_def filled_def got_plain_def change_def)
  define w where "w = ?n"
  have w: "clients w 0 = (clients s 0)\<lparr>wsIn := fst (unmarshal message (wsIn (clients s 0))), todo := [ToSelf message]\<rparr>"
    "\<not> sendClosed (clients w 1)" "joined w = 2" "\<not> crashed w"
    using s(2) by (simp_all add: w_def filled_def got_plain_def next_todo_def change_def read_failed_def Let_def)
  have "\<forall>c \<in> set [0, 1]. \<not> sendClosed (clients w c)" using s(2) w(1,2) by (simp add: filled_def)
  then have v: "?v = after_broadcast m {0, 1} w" using hub_broadcast_open [of "[0, 1]" w m] by (simp add: w_def)
  have v0: "todo (clients ?v 0) = [ToSelf message]" "sendClosed (clients ?v 0)" "joined ?v = 2" "\<not> crashed ?v"
    using s(2) w unfolding v by (simp_all add: filled_def deliver_client_def dropped_def)
  define x where "x = ?v"
  note x = v0 [folded x_def]
  let ?y = "settle x (send_self 0 message (next_todo 0 x))"
  have "?step x ?y" by (rule self [OF _ _ x(1)]) (simp_all add: x)
  moreover have "crashed ?y" using x(2) by (simp add: send_self_def next_todo_def change_def)
  ultimately show ?thesis
    using s(1) got_plain_step [OF assms s(2)] tu uv [folded x_def] by (meson rtranclp.rtrancl_into_rtrancl)
qed

definition plain_decoder :: "string \<Rightarrow> ws_data \<Rightarrow> ws_data \<times> bool" where
  "plain_decoder message d = (if message = ''{}'' then (d, True) else (d, False))"

lemma plain_not_json: "not_json plain_decoder ''x''"
  by (simp add: not_json_def plain_decoder_def)

theorem chat_can_crash_witness:
  "\<exists>s. (chat_step (\<lambda>_. []) plain_decoder [])\<^sup>*\<^sup>* chat_init s \<and> crashed s"
  by (rule chat_can_crash [OF plain_not_json])

theorem hub_never_panics_witness:
  "\<exists>s. (chat_step (\<lambda>_. []) plain_decoder [])\<^sup>*\<^sup>* chat_init s \<and> members s = {0, 1} \<and>
     length (queue (clients s 0)) = queue_cap \<and> \<not> panics (hub_broadcast ''m'' [1, 0] s) \<and> \<not> panics (hub_unregister 0 s)"
proof -
  obtain s where s: "(chat_step (\<lambda>_. []) plain_decoder [])\<^sup>*\<^sup>* chat_init s" "filled queue_cap s"
    using filled_reach [OF plain_not_json order_refl, of "\<lambda>_. []" "[]"] by blast
  then have r: "ranges_over [1, 0] s" by (simp add: ranges_over_def filled_def insert_commute)
  have m: "members s = {0, 1}" "length (queue (clients s 0)) = queue_cap" using s(2) by (simp_all add: filled_def)
  from hub_never_panics [OF s(1)] r have "\<not> panics (hub_broadcast ''m'' [1, 0] s)" "\<not> panics (hub_unregister 0 s)"
    by blast+
  with s(1) m show ?thesis by blast
qed

theorem broadcast_result_witness:
  "\<exists>s t. (chat_step (\<lambda>_. []) plain_decoder [])\<^sup>*\<^sup>* chat_init s \<and> hub_broadcast ''m'' [1, 0] s = Inr t \<and>
     0 \<in> members s \<and> 0 \<notin> members t \<and> sendClosed (clients t 0)"
proof -
  obtain s where s: "(chat_step (\<lambda>_. []) plain_decoder [])\<^sup>*\<^sup>* chat_init s" "filled queue_cap s"
    using filled_reach [OF plain_not_json order_refl, of "\<lambda>_. []" "[]"] by blast
  then have r: "ranges_over [1, 0] s" by (simp add: ranges_over_def filled_def insert_commute)
  obtain t where t: "hub_broadcast ''m'' [1, 0] s = Inr t"
    and "\<forall>c. let room = length (queue (clients s c)) < queue_cap; live = (c \<in> members s \<and> \<not> flagged (clients s c)) in
      queue (clients t c) = queue (clients s c) @ (if live \<and> room then [''m''] else []) \<and>
      (c \<in> members t \<longleftrightarrow> c \<in> members s \<and> (live \<longrightarrow> room)) \<and>
      (sendClosed (clients t c) \<longleftrightarrow> sendClosed (clients s c) \<or> live \<and> \<not> room)"
    using broadcast_result [OF s(1) r] by blast
  then have "0 \<notin> members t \<and> sendClosed (clients t 0)" using s(2) by (simp add: filled_def Let_def)
  moreover have "0 \<in> members s" using s(2) by (simp add: filled_def)
  ultimately show ?thesis using s(1) t by blast
qed

end
