(* ===== verification/ChatJson.thy ===== *)
theory ChatJson
  imports Chat RespJson
begin

text \<open>
  websocket.go: the texts of the chat. The struct of a message with its field tags; what the chat's
  relation takes as a parameter for \<open>json.Marshal\<close> is here the encoder itself.
\<close>

definition user_json :: "chat_user \<Rightarrow> json" where
  "user_json u = struct_json
     [(''clientId'', True, JStr (userClientID u)), (''hostIp'', True, JStr (userHostIP u)),
      (''color'', True, JStr (userColor u))]"

text \<open>A struct is never empty, so that the option of \<open>User\<close> leaves nothing out.\<close>

definition ws_json :: "ws_data \<Rightarrow> json" where
  "ws_json d = struct_json
     [(''type'', False, JStr (wsType d)), (''message'', True, JStr (wsMessage d)),
      (''sendTime'', True, JNum (itoa (wsSendTime d))), (''connCount'', True, JNum (itoa (wsConnCount d))),
      (''user'', False, user_json (wsUser d))]"

definition marshal_ws :: "ws_data \<Rightarrow> string" where
  "marshal_ws d = compact True (ws_json d)"

section \<open>Messages are single lines\<close>

definition plain_text :: "string \<Rightarrow> bool" where
  "plain_text s = (CHR 0x0A \<notin> set s)"

lemma plain_append [simp]: "plain_text (s @ t) \<longleftrightarrow> plain_text s \<and> plain_text t"
  and plain_Cons [simp]: "plain_text (c # s) \<longleftrightarrow> c \<noteq> CHR 0x0A \<and> plain_text s"
  and plain_Nil [simp]: "plain_text []"
  by (auto simp: plain_text_def)

lemma plain_hex: "n < 16 \<Longrightarrow> hex_digit n \<noteq> CHR 0x0A"
  using hex_digit_all [of n] by (auto simp: is_hex_def is_digit_code less_eq_char_def)

lemma plain_escape_char: "byte c < 128 \<Longrightarrow> plain_text (escape_char html c)"
  unfolding escape_char_def
  by (split if_split, intro conjI impI)+
    (auto simp: quote_char_def backslash_def plain_hex)

lemma plain_escape: "plain_text (escape html s)"
proof (induction html s rule: escape.induct)
  case (2 html c s)
  show ?case
  proof (cases "byte c < 128")
    case True
    with 2(1) show ?thesis by (simp add: plain_escape_char)
  next
    case False
    have "plain_text (take (utf8_len (c # s)) (c # s))" if "utf8_len (c # s) \<noteq> 1"
      using utf8_len_high [of c s] False that by (auto simp: plain_text_def byte_def)
    with 2(2) [OF False refl refl] False show ?thesis
      by (simp add: Let_def backslash_def del: utf8_len.simps)
  qed
qed simp

lemma plain_print:
  "wf_json j \<Longrightarrow> plain_text (print_json (\<lambda>_. []) [] html d j)"
  "wf_members kvs \<Longrightarrow> plain_text (print_members (\<lambda>_. []) [] html d kvs)"
proof (induction j and kvs arbitrary: d and d rule: repair_json_repair_members.induct)
  case (2 n)
  then show ?case by (auto simp: plain_text_def list_all_iff)
qed (auto simp: quoted_def plain_escape quote_char_def)

lemma wf_ws: "wf_json (ws_json d)"
  using itoa_num by (auto simp: ws_json_def user_json_def intro!: wf_struct)

lemma compact_object: "\<exists>kvs. j = JObj kvs \<Longrightarrow> \<exists>s. compact html j = ''{'' @ s @ ''}''"
  by (auto simp: compact_def)

text \<open>The clean-up of a message's text after encoding never changes anything: the text is one line that
  starts and ends with a brace.\<close>

lemma convert_id: "convertWsData2JSON marshal_ws d = marshal_ws d"
proof -
  obtain s where s: "marshal_ws d = ''{'' @ s @ ''}''"
    using compact_object [of "ws_json d" True] by (auto simp: marshal_ws_def ws_json_def struct_json_def)
  have "plain_text (marshal_ws d)"
    using plain_print(1) [OF wf_ws] by (simp add: marshal_ws_def compact_def)
  then have "map (\<lambda>c. if c = CHR 0x0A then CHR '' '' else c) (marshal_ws d) = marshal_ws d"
    by (intro map_idI) (auto simp: plain_text_def)
  moreover have "trim_space (marshal_ws d) = marshal_ws d"
    unfolding trim_space_def s by (rule trim_id) (simp add: is_space_def)
  ultimately show ?thesis by (simp add: convertWsData2JSON_def)
qed

text \<open>What a browser gets out of a message is what the server put in, up to bytes that are no UTF-8.\<close>

theorem chat_message_readable:
  "read_json (convertWsData2JSON marshal_ws d) = Some (repair_json (ws_json d), []) \<and>
   text_of (field ''type'' (ws_json d)) = wsType d \<and> text_of (field ''message'' (ws_json d)) = wsMessage d \<and>
   text_of (field ''color'' (field ''user'' (ws_json d))) = userColor (wsUser d) \<and>
   text_of (field ''clientId'' (field ''user'' (ws_json d))) = userClientID (wsUser d)"
proof -
  have "read_json (convertWsData2JSON marshal_ws d) = Some (repair_json (ws_json d), [])"
    using read_compact [OF wf_ws, of d "[]" True] by (simp add: convert_id marshal_ws_def stops_num_def)
  moreover have "field ''user'' (ws_json d) = user_json (wsUser d)"
    unfolding ws_json_def by (rule field_always) simp_all
  moreover have "text_of (field ''type'' (ws_json d)) = wsType d" "text_of (field ''message'' (ws_json d)) = wsMessage d"
    unfolding ws_json_def by (rule text_struct; simp)+
  moreover have "text_of (field ''color'' (user_json u)) = userColor u" "text_of (field ''clientId'' (user_json u)) = userClientID u" for u
    unfolding user_json_def by (rule text_struct; simp)+
  ultimately show ?thesis by simp
qed

end
