(* ===== verification/Routes.thy ===== *)
theory Routes
  imports Grpc
begin

text \<open>
  The other routes and the way into the router. main.go: \<open>/env/\<close> and \<open>/exec/\<close>;
  nodeinfo.go: \<open>/monitor/\<close>; files.go: the two embedded files; h2c.go: the protocol of a
  request and the client preface of HTTP/2 with prior knowledge.

  Parameters: the entries of the environment, what a command prints, the JSON encoder, the formats
  of times, quotients and rates, and the contents of the embedded files.
\<close>

definition newline :: string where
  "newline = [CHR 0x0A]"

definition quote :: char where
  "quote = CHR 0x22"

section \<open>The environment\<close>

definition sensitivePatterns :: "string list" where
  "sensitivePatterns = [''ACCESS_KEY'', ''SESSION_TOKEN'', ''SECURITY_TOKEN'', ''PRIVATE_KEY'', ''PASSWORD'', ''CREDENTIAL'']"

definition isSensitiveEnvKey :: "string \<Rightarrow> bool" where
  "isSensitiveEnvKey key = list_ex (contains (to_upper key)) sensitivePatterns"

text \<open>An entry of the environment, \<open>os.Getenv\<close> over the entries.\<close>

definition env_pair :: "string \<Rightarrow> (string \<times> string) option" where
  "env_pair env = (case split2 CHR ''='' env of [k, v] \<Rightarrow> Some (k, v) | _ \<Rightarrow> None)"

definition getenv :: "string list \<Rightarrow> string \<Rightarrow> string" where
  "getenv environ key =
     (case map_of (List.map_filter env_pair environ) key of None \<Rightarrow> [] | Some v \<Rightarrow> v)"

fun env_map :: "string list \<Rightarrow> (string \<rightharpoonup> string) \<Rightarrow> string \<rightharpoonup> string" where
  "env_map [] m = m"
| "env_map (env # es) m =
     env_map es (case env_pair env of
       None \<Rightarrow> m
     | Some (k, v) \<Rightarrow> m(k \<mapsto> (if isSensitiveEnvKey k then ''REDACTED'' else v)))"

definition envHandler :: "((string \<rightharpoonup> string) \<Rightarrow> string) \<Rightarrow> string list \<Rightarrow> string list \<Rightarrow> string" where
  "envHandler marshalIndent environ keys =
     (if length keys = 0 then marshalIndent (env_map environ Map.empty) @ newline
      else join [] (map (\<lambda>v. getenv environ v @ newline) (filter (\<lambda>v. \<not> isSensitiveEnvKey v) keys)))"

text \<open>Two environments that differ in the values of sensitive keys only.\<close>

definition same_but_secret :: "string \<Rightarrow> string \<Rightarrow> bool" where
  "same_but_secret e f = (e = f \<or>
     (\<exists>k v w. CHR ''='' \<notin> set k \<and> isSensitiveEnvKey k \<and> e = k @ ''='' @ v \<and> f = k @ ''='' @ w))"

lemma same_but_secret_pair:
  assumes "same_but_secret e f"
  obtains "env_pair e = env_pair f"
    | k v w where "isSensitiveEnvKey k" "env_pair e = Some (k, v)" "env_pair f = Some (k, w)"
  using assms split2_append [of "CHR ''=''"] by (auto simp: same_but_secret_def env_pair_def)

lemma env_map_same:
  assumes "list_all2 same_but_secret es fs"
  shows "env_map es m = env_map fs m"
  using assms
proof (induction arbitrary: m rule: list_all2_induct)
  case (Cons e es f fs)
  from Cons.hyps(1) show ?case
    by (rule same_but_secret_pair) (simp_all add: Cons.IH del: fun_upd_apply)
qed simp

lemma getenv_same:
  assumes "list_all2 same_but_secret es fs" and "\<not> isSensitiveEnvKey key"
  shows "getenv es key = getenv fs key"
proof -
  have "map_of (List.map_filter env_pair es) key = map_of (List.map_filter env_pair fs) key"
    using assms(1)
  proof (induction rule: list_all2_induct)
    case (Cons e es f fs)
    from Cons.hyps(1) show ?case
    proof (rule same_but_secret_pair)
      assume "env_pair e = env_pair f"
      then show ?thesis using Cons.IH by (simp add: List.map_filter_simps split: option.split)
    next
      fix k v w
      assume "isSensitiveEnvKey k" "env_pair e = Some (k, v)" "env_pair f = Some (k, w)"
      moreover from this assms(2) have "k \<noteq> key" by auto
      ultimately show ?thesis using Cons.IH by (simp add: List.map_filter_simps)
    qed
  qed simp
  then show ?thesis by (simp add: getenv_def)
qed

text \<open>C30. Nothing of the value of a sensitive environment variable is ever in a response of
  \<open>/env/\<close>, whichever keys are asked for: two environments that differ in such values only get
  the same response. A key is sensitive as soon as one of the patterns is in its upper-case form.\<close>

theorem env_no_secret:
  assumes "list_all2 same_but_secret environ environ'"
  shows "envHandler marshalIndent environ keys = envHandler marshalIndent environ' keys \<and>
    (isSensitiveEnvKey key \<longleftrightarrow> (\<exists>p \<in> set sensitivePatterns. sublist p (to_upper key)))"
proof
  show "envHandler marshalIndent environ keys = envHandler marshalIndent environ' keys"
    using env_map_same [OF assms] getenv_same [OF assms]
    by (auto simp: envHandler_def intro!: arg_cong [where f = "join []"])
  show "isSensitiveEnvKey key \<longleftrightarrow> (\<exists>p \<in> set sensitivePatterns. sublist p (to_upper key))"
    by (simp add: isSensitiveEnvKey_def contains_sublist list_ex_iff)
qed

theorem env_no_secret_witness:
  "envHandler (\<lambda>_. []) [''A=1'', ''db_password=x''] [''A'', ''db_password''] =
   envHandler (\<lambda>_. []) [''A=1'', ''db_password=yz''] [''A'', ''db_password''] \<and>
   isSensitiveEnvKey ''db_password''"
proof -
  have s: "isSensitiveEnvKey ''db_password''" by code_simp
  then have "same_but_secret ''db_password=x'' ''db_password=yz''"
    unfolding same_but_secret_def by (intro disjI2 exI [of _ "''db_password''"] exI [of _ "''x''"] exI [of _ "''yz''"]) simp
  moreover have "same_but_secret ''A=1'' ''A=1''" by (simp add: same_but_secret_def)
  ultimately have "list_all2 same_but_secret [''A=1'', ''db_password=x''] [''A=1'', ''db_password=yz'']" by simp
  with env_no_secret s show ?thesis by blast
qed

section \<open>Commands\<close>

text \<open>The commands of a request: each value of \<open>cmd\<close> that does not name a credentials path, cut
  at the spaces. \<open>run\<close> gives the output of a command and its error, if any.\<close>

definition exec_args :: "string list go_map \<Rightarrow> string list list" where
  "exec_args qsMap =
     concat (map (\<lambda>(key, values). if key \<noteq> ''cmd'' then []
        else map (split '' '') (filter (\<lambda>v. \<not> contains v ''credentials/'') values)) qsMap)"

definition execHandler :: "(string list \<Rightarrow> string \<times> string option) \<Rightarrow> string list go_map \<Rightarrow> string" where
  "execHandler run qsMap =
     join [] (concat (map (\<lambda>args. let (out, err) = run args in
        (case err of None \<Rightarrow> [] | Some e \<Rightarrow> [e @ newline]) @ [out @ newline]) (exec_args qsMap)))"

section \<open>The monitor\<close>

text \<open>The leftmost match of a pattern, which is given by what it captures at a place.\<close>

fun find_match :: "(string \<Rightarrow> string option) \<Rightarrow> string \<Rightarrow> string option" where
  "find_match f [] = f []"
| "find_match f (c # s) = (case f (c # s) of Some m \<Rightarrow> Some m | None \<Rightarrow> find_match f s)"

definition utimeRegexp :: "string \<Rightarrow> string option" where
  "utimeRegexp s =
     (let key = ''_at'' @ [quote] @ '': ''; t = drop (length key) s in
      if prefix key s \<and> 19 \<le> length t \<and> list_all is_digit (take 19 t) \<and> prefix '','' (drop 19 t)
      then Some (take 19 t) else None)"

definition bytesRegexp :: "string \<Rightarrow> string option" where
  "bytesRegexp s =
     (let key = ''_bytes'' @ [quote] @ '': ''; t = drop (length key) s; ds = takeWhile is_digit t in
      if prefix key s \<and> ds \<noteq> [] \<and> prefix '','' (drop (length ds) t) then Some ds else None)"

definition usage_at :: "string \<Rightarrow> string \<Rightarrow> string option" where
  "usage_at word s =
     (let key = word @ [quote] @ '': ''; t = drop (length key) s;
          ds = takeWhile (\<lambda>c. is_digit c \<or> c = CHR ''.'') t
      in if prefix key s \<and> ds \<noteq> [] then Some ds else None)"

definition usageRegexp :: "string \<Rightarrow> string option" where
  "usageRegexp s = (case usage_at ''cpu'' s of Some m \<Rightarrow> Some m | None \<Rightarrow> usage_at ''memory'' s)"

text \<open>\<open>strings.Replace\<close> with count 1, of a text that is not empty.\<close>

fun replace_first :: "string \<Rightarrow> string \<Rightarrow> string \<Rightarrow> string" where
  "replace_first old new [] = []"
| "replace_first old new (c # s) =
     (if prefix old (c # s) then new @ drop (length old) (c # s) else c # replace_first old new s)"

record formats =
  fmtTime :: "string \<Rightarrow> string"
  fmtQuotient :: "int \<Rightarrow> int \<Rightarrow> string"
  fmtRate :: "string \<Rightarrow> string"

definition ease_line :: "formats \<Rightarrow> string \<Rightarrow> string res" where
  "ease_line fmt line =
     (case find_match utimeRegexp line of
        Some m \<Rightarrow> Inr (replace_first m ([quote] @ fmtTime fmt m @ [quote]) line)
      | None \<Rightarrow>
          (case find_match bytesRegexp line of
             Some m \<Rightarrow> res_bind (easeReadBytes (fmtQuotient fmt) m)
                 (\<lambda>b. Inr (replace_first m ([quote] @ b @ [quote]) line))
           | None \<Rightarrow>
               (case find_match usageRegexp line of
                  Some m \<Rightarrow> Inr (replace_first m (fmtRate fmt m) line)
                | None \<Rightarrow> Inr line)))"

text \<open>The lines, each with its newline, and what follows the last of them, which is left alone.\<close>

fun ease_lines :: "formats \<Rightarrow> string list \<Rightarrow> string res" where
  "ease_lines fmt [] = Inr []"
| "ease_lines fmt [rest] = Inr rest"
| "ease_lines fmt (l # ls) =
     res_bind (ease_line fmt (l @ newline)) (\<lambda>a. res_bind (ease_lines fmt ls) (\<lambda>b. Inr (a @ b)))"

definition easeReadJSON :: "formats \<Rightarrow> string \<Rightarrow> string res" where
  "easeReadJSON fmt inputJSON = ease_lines fmt (split newline inputJSON)"

text \<open>The handler brings the node up to date, with the clock and the counters, and writes its text. The
  keys of the node's load balancers are those of \<open>ks\<close>; \<open>ffmt\<close> is the encoder's text of a float.\<close>

definition monitor_node :: "int64 \<Rightarrow> server \<Rightarrow> node_info" where
  "monitor_node now s =
     updateNode (current (cpuRes s)) (current (memRes s)) (active (net s)) (total (net s)) now (node s)"

definition monitorHandler ::
  "formats \<Rightarrow> (64 word \<Rightarrow> string option) \<Rightarrow> int64 \<Rightarrow> string list \<Rightarrow> string list go_map \<Rightarrow> server \<Rightarrow> (string \<times> server) res" where
  "monitorHandler fmt ffmt now ks qsMap s =
     (let rawFlag = (''raw'' \<in> fst ` set qsMap);
          ni = monitor_node now s;
          json = getStoreNodeJSON ffmt (remoteNodes (net s)) ks ni
      in res_bind (if rawFlag then Inr json else easeReadJSON fmt json)
           (\<lambda>t. Inr (newline @ t @ newline, s\<lparr>node := ni\<rparr>)))"

lemma find_match_digits:
  assumes "find_match f s = Some m" and "\<And>t. f t = Some m \<Longrightarrow> P"
  shows P
  using assms by (induction s) (auto split: option.splits)

lemma easeReadBytes_total:
  assumes "list_all is_digit sb" and "sb \<noteq> []"
  obtains t where "easeReadBytes sq sb = Inr t"
proof (cases "1000 \<le> min (dec_val sb) max_int64")
  case True
  from easeReadBytes_scaled [OF assms refl True, of sq] that show thesis by blast
next
  case False
  with assms that show thesis by (simp add: easeReadBytes_def Let_def fst_atoi_digits)
qed

lemma bytesRegexp_digits: "bytesRegexp s = Some m \<Longrightarrow> list_all is_digit m \<and> m \<noteq> []"
  by (auto simp: bytesRegexp_def Let_def list_all_iff dest: set_takeWhileD split: if_splits)

lemma ease_line_total: "\<exists>t. ease_line fmt line = Inr t"
proof (cases "find_match bytesRegexp line")
  case None
  then show ?thesis by (simp add: ease_line_def split: option.splits)
next
  case (Some m)
  have "list_all is_digit m" "m \<noteq> []"
    using find_match_digits [OF Some] bytesRegexp_digits by blast+
  then obtain t where "easeReadBytes (fmtQuotient fmt) m = Inr t" by (rule easeReadBytes_total)
  with Some show ?thesis by (simp add: ease_line_def split: option.splits)
qed

text \<open>A line without a value to make readable.\<close>

definition plain_line :: "string \<Rightarrow> bool" where
  "plain_line line = (find_match utimeRegexp (line @ newline) = None \<and>
     find_match bytesRegexp (line @ newline) = None \<and> find_match usageRegexp (line @ newline) = None)"

lemma ease_lines_parts:
  "ls \<noteq> [] \<Longrightarrow> \<exists>ts. ease_lines fmt ls = Inr (concat ts @ last ls) \<and> length ts = length ls - 1 \<and>
     (\<forall>i < length ts. ease_line fmt (ls ! i @ newline) = Inr (ts ! i))"
proof (induction fmt ls rule: ease_lines.induct)
  case (3 fmt l v va)
  then obtain ts where ts: "ease_lines fmt (v # va) = Inr (concat ts @ last (v # va))" "length ts = length (v # va) - 1"
    "\<forall>i < length ts. ease_line fmt ((v # va) ! i @ newline) = Inr (ts ! i)"
    by auto
  obtain t where "ease_line fmt (l @ newline) = Inr t" using ease_line_total by blast
  with ts show ?case by (intro exI [of _ "t # ts"]) (auto simp: nth_Cons split: nat.splits)
qed simp_all

text \<open>The readable monitor text: the rewriting of the node's JSON text never fails, it works
  line by line, and it leaves every line alone that holds no time, byte count or usage. What follows
  the last newline is never rewritten.\<close>

theorem monitor_text:
  "\<exists>ts. easeReadJSON fmt json = Inr (concat ts @ last (split newline json)) \<and>
     length ts = length (split newline json) - 1 \<and>
     (\<forall>i < length ts. ease_line fmt (split newline json ! i @ newline) = Inr (ts ! i) \<and>
       (plain_line (split newline json ! i) \<longrightarrow> ts ! i = split newline json ! i @ newline))"
proof -
  obtain ts where ts: "easeReadJSON fmt json = Inr (concat ts @ last (split newline json))"
    "length ts = length (split newline json) - 1"
    "\<forall>i < length ts. ease_line fmt (split newline json ! i @ newline) = Inr (ts ! i)"
    using ease_lines_parts [of "split newline json" fmt] by (auto simp: easeReadJSON_def)
  have "ts ! i = split newline json ! i @ newline"
    if "i < length ts" "plain_line (split newline json ! i)" for i
    using ts(3) that by (auto simp: plain_line_def ease_line_def)
  with ts show ?thesis by blast
qed


section \<open>Embedded files\<close>

definition filesDLHandler :: "string \<Rightarrow> string \<Rightarrow> http_request \<Rightarrow> http_logger \<Rightarrow> response \<times> http_logger" where
  "filesDLHandler chatHTML gelboProto r l =
     (let filesMap = [(''/chat/'', (''text/html; charset=utf-8'', chatHTML)),
                      (''/files/gelbo.proto'', (''application/proto; charset=utf-8'', gelboProto))]
      in case map_of filesMap (hPath r) of
           None \<Rightarrow> (no_response\<lparr>respStatus := 404\<rparr>, l\<lparr>lStatus := 404\<rparr>)
         | Some (ftype, content) \<Rightarrow>
             if hMethod r \<noteq> ''GET'' \<and> hMethod r \<noteq> ''HEAD''
             then (no_response\<lparr>respStatus := 405\<rparr>, l\<lparr>lStatus := 405\<rparr>)
             else
               let header = header_Set ''Content-Length'' (itoa (int (length content)))
                     (header_Set ''Content-Type'' ftype (respHeader no_response))
               in (\<lparr>respHeader = header, respStatus = 200, respBody = content\<rparr>,
                   l\<lparr>lSize := int (length content), lStatus := 200\<rparr>))"

section \<open>Protocols\<close>

text \<open>\<open>r.TLS != nil\<close> and \<open>r.ProtoMajor\<close> decide; PRI is the first line of the
  client preface.\<close>

definition is_preface :: "http_request \<Rightarrow> nat \<Rightarrow> bool" where
  "is_preface r protoMajor = (hMethod r = ''PRI'' \<and> hPath r = ''*'' \<and> protoMajor = 2)"

definition serve_proto :: "http_request \<Rightarrow> nat \<Rightarrow> bool \<Rightarrow> string" where
  "serve_proto r protoMajor tls =
     (if is_preface r protoMajor then ''h2c''
      else if tls then
        (if protoMajor = 1 then ''https'' else if protoMajor = 2 then ''h2'' else ''unknown'')
      else ''http'')"

section \<open>The client preface\<close>

definition crlf :: string where
  "crlf = [CHR 0x0D, CHR 0x0A]"

definition preface_head :: string where
  "preface_head = ''PRI * HTTP/2.0'' @ crlf @ crlf"

definition expectedBody :: string where
  "expectedBody = ''SM'' @ crlf @ crlf"

definition clientPreface :: string where
  "clientPreface = preface_head @ expectedBody"

datatype h2c_error = NoHijack | HijackFailed | ReadFailed | InvalidPreface

text \<open>What the HTTP/2 server will read, from what the hijacked connection has still to give; and
  whether the connection has been closed.\<close>

definition initH2CWithPriorKnowledge :: "bool \<Rightarrow> bool \<Rightarrow> string \<Rightarrow> (h2c_error \<times> bool) + string" where
  "initH2CWithPriorKnowledge hijacker hijacked rw =
     (if \<not> hijacker then Inl (NoHijack, False)
      else if \<not> hijacked then Inl (HijackFailed, False)
      else if length rw < length expectedBody then Inl (ReadFailed, False)
      else if take (length expectedBody) rw = expectedBody
      then Inr (clientPreface @ drop (length expectedBody) rw)
      else Inl (InvalidPreface, True))"

text \<open>\<open>ServeHTTP\<close>: a preface is answered by an HTTP/2 server on the connection, counted while it lasts, and
  everything else goes to the router with its protocol in the context. The result is what the
  HTTP/2 server reads, or nothing if the connection was dropped, or the protocol.\<close>

datatype served = ServedH2C string net_state | Dropped bool | Routed string

definition ServeHTTP ::
  "int64 \<Rightarrow> http_request \<Rightarrow> nat \<Rightarrow> bool \<Rightarrow> bool \<Rightarrow> bool \<Rightarrow> string \<Rightarrow> net_state \<Rightarrow> served" where
  "ServeHTTP now r protoMajor tls hijacker hijacked rw w =
     (if is_preface r protoMajor then
        (case initH2CWithPriorKnowledge hijacker hijacked rw of
           Inl (_, isClosed) \<Rightarrow> Dropped isClosed
         | Inr bytes \<Rightarrow> ServedH2C bytes (h2c_start now (hRemote r) w))
      else Routed (serve_proto r protoMajor tls))"

text \<open>The adapter of the hijacked connection: a write is passed on and flushed at once. The parameters are
  what the buffered writer has taken and whether it fails, and whether the flush does.\<close>

definition rw_write :: "nat \<times> bool \<Rightarrow> bool \<Rightarrow> nat \<times> bool" where
  "rw_write written flushFails = (if snd written then written else (fst written, flushFails))"

text \<open>A request with prior knowledge is accepted exactly if the rest of the client preface
  follows its head, and then the HTTP/2 server reads byte for byte what the client sent, the head
  included; a connection whose bytes end too early is neither served nor closed.\<close>

theorem h2c_bytes:
  "initH2CWithPriorKnowledge True True rw =
     (if prefix expectedBody rw then Inr (preface_head @ rw)
      else if length rw < 6 then Inl (ReadFailed, False) else Inl (InvalidPreface, True))"
proof -
  have six: "length expectedBody = 6" by (simp add: expectedBody_def crlf_def)
  have pre: "prefix expectedBody rw \<longleftrightarrow> 6 \<le> length rw \<and> take 6 rw = expectedBody"
    by (metis append_eq_conv_conj append_take_drop_id length_take min.absorb2 prefix_def prefix_length_le six)
  have "clientPreface @ drop 6 rw = preface_head @ rw" if "prefix expectedBody rw"
    using that six by (auto simp: clientPreface_def prefix_def)
  with pre show ?thesis by (auto simp: initH2CWithPriorKnowledge_def six)
qed

text \<open>C31. The protocol of a request decides which validator its values meet: whatever comes through
  the HTTP servers meets the patterns for HTTP, whatever comes as a gRPC call those for gRPC. A
  request has one of five protocols over HTTP and one of two over gRPC.\<close>

theorem proto_validator:
  "(reqProto rq = serve_proto r protoMajor tls \<or> reqProto rq = ''lambda'' \<longrightarrow> pick_validator st rq k = vHttp st k) \<and>
   (newRequestInfoFromContext port ctx = Inr rq' \<longrightarrow>
      reqProto rq' \<in> {''grpc'', ''grpcs''} \<and> pick_validator st rq' k = vGrpc st k) \<and>
   serve_proto r protoMajor tls \<in> {''http'', ''https'', ''h2'', ''h2c'', ''unknown''}"
proof -
  have p: "serve_proto r protoMajor tls \<in> {''http'', ''https'', ''h2'', ''h2c'', ''unknown''}"
    by (simp add: serve_proto_def)
  then have "\<not> prefix ''grpc'' (reqProto rq)" if "reqProto rq = serve_proto r protoMajor tls \<or> reqProto rq = ''lambda''"
    using that by auto
  then have "reqProto rq = serve_proto r protoMajor tls \<or> reqProto rq = ''lambda'' \<longrightarrow> pick_validator st rq k = vHttp st k"
    by (simp add: pick_validator_def)
  moreover have "reqProto rq' \<in> {''grpc'', ''grpcs''}" if "newRequestInfoFromContext port ctx = Inr rq'"
    using that by (cases "getMDSetFromContext ctx") (auto simp: newRequestInfoFromContext_def)
  then have "newRequestInfoFromContext port ctx = Inr rq' \<longrightarrow>
      reqProto rq' \<in> {''grpc'', ''grpcs''} \<and> pick_validator st rq' k = vGrpc st k"
    by (auto simp: pick_validator_def)
  ultimately show ?thesis using p by blast
qed

theorem proto_validator_witness:
  "pick_validator NewDataStore (plain_get\<lparr>reqProto := ''h2''\<rparr>) ''status'' = Some regexpStatus \<and>
   (\<exists>rq. newRequestInfoFromContext 50052 plain_ctx = Inr rq \<and> pick_validator NewDataStore rq ''code'' = Some regexpCode)"
proof -
  obtain rq where rq: "newRequestInfoFromContext 50052 plain_ctx = Inr rq" using plain_info by blast
  have "serve_proto post_abc 2 True = ''h2''" by (simp add: serve_proto_def is_preface_def post_abc_def)
  then have "pick_validator NewDataStore (plain_get\<lparr>reqProto := ''h2''\<rparr>) ''status'' = vHttp NewDataStore ''status''"
    using proto_validator [of "plain_get\<lparr>reqProto := ''h2''\<rparr>" post_abc 2 True NewDataStore "''status''"] by simp
  moreover have "pick_validator NewDataStore rq ''code'' = vGrpc NewDataStore ''code''"
    using proto_validator [of _ _ _ _ NewDataStore "''code''" 50052 plain_ctx rq] rq by blast
  ultimately show ?thesis
    using rq by (simp add: NewDataStore_def validatorForHttp_def validatorForGrpc_def)
qed

end
