(* ===== verification/Readable.thy ===== *)
theory Readable
  imports Routes ConnInv
begin

text \<open>
  What a client can read out of the answers: the JSON text in the body of the default route, padding
  and all, and that of the monitor together with what its counters count.
\<close>

section \<open>The default route\<close>

lemma writeResponse_keeps:
  assumes "writeResponse sz respJSON src = Some (Inr b)" and "int (length respJSON) \<le> sz"
  shows "\<exists>rest. b = respJSON @ rest"
proof (cases "sz \<le> int (length (respJSON @ [CHR 0x0A, CHR 0x0A]))")
  case True
  then have "b = take (nat sz) (respJSON @ [CHR 0x0A, CHR 0x0A])"
    using assms(1) by (simp add: writeResponse_def Let_def go_slice_to_def split: if_splits)
  moreover have "length respJSON \<le> nat sz" using assms(2) by simp
  ultimately show ?thesis by (simp add: take_append)
next
  case False
  with assms(1) show ?thesis by (auto simp: writeResponse_def Let_def)
qed

lemma write_out_body:
  assumes "write_out env json src v = Some (Inr (resp, sz, status, s'))"
    and "envFlusher env" and "takes_body env status"
  shows "writeResponse sz json src = Some (Inr (respBody resp))"
  using assms
  by (auto simp: write_out_def writeChunkedResponse_eq res_bind_Inr map_option_case
      split: option.splits if_splits sum.splits)

lemma execAction_body:
  assumes "execAction env json src input result s = Some (Inr (resp, sz, status, s'))"
    and "envFlusher env" and "takes_body env status" and "\<not> has_action input ''disconnect''"
  shows "writeResponse sz json src = Some (Inr (respBody resp))"
  by (rule execAction_run [OF assms(1)]) (use assms write_out_body in blast)

text \<open>C36. A client can read a response of the default route as JSON and gets what the handler knew: the
  host, the targets of the load, the request with its headers sorted by name, and every command as
  it was given and as it was carried out. It is so whatever bytes the request had and whatever
  padding follows; bytes that are no UTF-8, and only those, come out as the replacement character.
  The conditions are that the request does not ask to be cut off, that it is not a HEAD and its
  status is one that has a body, so not 101, 204 or 304 (over HTTP/2 101 is followed by a 200 and has one), that the
  size it asks for holds the text, and, for a response in chunks, that no client has added a
  Content-Length header.\<close>

theorem response_readable:
  assumes "float_texts fmt" and "response_json fmt h cpu mem rq input result = Some j"
    and "execAction env (jsonMarshalIndent (Some j)) src input result s = Some (Inr (resp, sz, status, s'))"
    and "envFlusher env" and "\<not> has_action input ''disconnect''"
    and "\<not> envHead env" and "envWriter env = Http1 \<Longrightarrow> status \<noteq> 101" and "status \<noteq> 204" "status \<noteq> 304"
    and "has_action input ''chunk'' \<Longrightarrow> headerMap s' ''content-length'' = None"
    and "int (length (jsonMarshalIndent (Some j))) \<le> sz"
  shows "(\<exists>rest. read_json (respBody resp) = Some (repair_json j, rest)) \<and> tells j h cpu mem rq input result"
proof -
  have "takes_body env status"
    using assms(6-9) by (cases "envWriter env") (auto simp: takes_body_def sent_status_def interim_def status_body_def)
  then obtain rest where "respBody resp = jsonMarshalIndent (Some j) @ rest"
    using writeResponse_keeps [OF execAction_body [OF assms(3,4) _ assms(5)] assms(11)] by blast
  then have "\<exists>rest. read_json (respBody resp) = Some (repair_json j, rest)"
    using read_response [OF assms(1,2)] by auto
  then show ?thesis using response_tells [OF assms(2)] by blast
qed

section \<open>The monitor\<close>

lemma wf_node_members: "float_texts fmt \<Longrightarrow> wf_json e \<Longrightarrow> node_members fmt ni e = Some j \<Longrightarrow> wf_json j"
  using itoa_num by (auto simp: node_members_def float_texts_def split: option.splits intro!: wf_struct)

lemma all_some_values: "all_some m = Some r \<Longrightarrow> (k, v) \<in> set r \<Longrightarrow> (k, Some v) \<in> set m"
  by (induction m arbitrary: r rule: all_some.induct) auto

lemma wf_elb: "float_texts fmt \<Longrightarrow> elb_json fmt remote ref = Some j \<Longrightarrow> wf_json j"
  by (auto simp: elb_json_def split: option.splits intro: wf_node_members [where e = "JObj []"])

lemma wf_node:
  assumes f: "float_texts fmt" and j: "node_json fmt remote ks ni = Some j"
  shows "wf_json j"
proof -
  obtain m where m: "all_some (map (\<lambda>k. (k, elb_json fmt remote (the (elbs ni k)))) ks) = Some m"
    "node_members fmt ni (map_json id m) = Some j"
    using j by (auto simp: node_json_def split: option.splits)
  have "wf_json v" if "(k, v) \<in> set m" for k v
    using all_some_values [OF m(1) that] wf_elb [OF f] by auto
  then have "wf_json (map_json id m)" by (auto simp: map_json_def wf_members_iff)
  then show ?thesis by (rule wf_node_members [OF f _ m(2)])
qed

lemma node_field:
  assumes "node_json fmt remote ks ni = Some j"
  shows "text_of (field ''total_conns'' j) = itoa (sint (totalConns ni))"
    and "text_of (field ''active_conns'' j) = itoa (sint (activeConns ni))"
    and "\<exists>kvs. j = JObj kvs"
  using assms
  by (auto simp: node_json_def node_members_def field_def text_of_def struct_json_def split: option.splits)


section \<open>Samples\<close>

definition zero_text :: "64 word \<Rightarrow> string option" where
  "zero_text x = Some ''0''"

lemma zero_text_ok: "float_texts zero_text"
  by (simp add: float_texts_def zero_text_def is_num_def is_digit_code)


lemma sample_commands:
  "needsAction no_commands = False" "has_action no_commands ''disconnect'' = False"
  by (simp_all add: needsAction_def no_commands_def has_action_def)

theorem response_readable_witness:
  "\<exists>j resp sz status s' rest.
     execAction plain_env (jsonMarshalIndent (Some j)) (\<lambda>_. 0) no_commands no_commands (new_server 0) =
       Some (Inr (resp, sz, status, s')) \<and>
     read_json (respBody resp) = Some (repair_json j, rest) \<and> reqMethod (read_request (field ''request'' j)) = reqMethod plain_get"
proof -
  let ?ru = NewResourceUsage
  obtain j where j: "response_json zero_text (host NewDataStore) ?ru ?ru plain_get no_commands no_commands = Some j"
    by (simp add: response_json_def usage_json_def zero_text_def)
  let ?t = "jsonMarshalIndent (Some j)"
  have run: "execAction plain_env ?t (\<lambda>_. 0) no_commands no_commands (new_server 0) =
      Some (Inr (\<lparr>respHeader = header_Set ''Content-Length'' (itoa (int (length ?t)))
        (header_Set ''Content-Type'' ''application/json'' Map.empty), respStatus = 200, respBody = ?t\<rparr>,
        int (length ?t), 200, new_server 0))"
    by (simp add: execAction_def Let_def sample_commands write_out_def add_headers_def plain_env_def checkStatus_def
        writeResponse_def go_slice_to_def)
  from response_readable [OF zero_text_ok j run _ _ _ _ _ _ _ order_refl] obtain rest where
    "read_json ?t = Some (repair_json j, rest)" "tells j (host NewDataStore) ?ru ?ru plain_get no_commands no_commands"
    by (auto simp: plain_env_def sample_commands new_server_def NewHeaderMap_def)
  with run show ?thesis by (intro exI conjI) (auto simp: tells_def)
qed

end
