(* ===== verification/Answering.thy ===== *)
theory Answering
  imports HttpHandler ConnProps
begin

text \<open>
  Requests to the default route and the events of the connections together: the server as one
  system, in whose every run a request that comes in over a known connection is answered.
\<close>

section \<open>Requests that can be answered\<close>

text \<open>A request to an HTTP server of the program, in the validators' reach, over a writer that flushes, with
  a source of letters that does not run dry; no range without a bound, which evaluation panics on, no wish
  to be cut off; nobody holds a lock of the load for ever, and if the request sets a target, the
  goroutine of that load takes it.\<close>

definition answerable :: "handler_env \<Rightarrow> http_request \<Rightarrow> bool" where
  "answerable env r =
     (http_store (hStore env) \<and> \<not> hLambda env \<and> \<not> prefix ''grpc'' (envProto (hExec env)) \<and>
      fair (hSource env) \<and> envFlusher (hExec env) \<and> wf_map (hParams r) \<and>
      map_of (hParams r) ''disconnect'' = None \<and>
      (\<forall>k v. map_of (combineValuesWithOr (hParams r)) k = Some v \<longrightarrow> ranged_key k \<longrightarrow> \<not> full_range v) \<and>
      envCpuLoad (hExec env) \<noteq> LockHeld \<and> envMemLoad (hExec env) \<noteq> LockHeld \<and>
      (map_of (hParams r) ''cpu'' = None \<or> envCpuLoad (hExec env) = Takes) \<and>
      (map_of (hParams r) ''memory'' = None \<or> envMemLoad (hExec env) = Takes))"

definition server_ok :: "server \<Rightarrow> bool" where
  "server_ok s = (conn_ok (net s) \<and> lower_keys (headerMap s))"

lemma not_full_range_Nil: "\<not> full_range []"
  by (auto simp: full_range_def)

lemma answerable_evaluates:
  assumes "answerable env r" and "\<not> prefix ''grpc'' (reqProto rq)"
  obtains result g where "evaluate (validateCommands (hStore env) rq (hParams r)) (hRand env) = Inr (result, g)"
    and "evaluated rq (validateCommands (hStore env) rq (hParams r)) result"
    and "\<forall>k. map_of (hParams r) k = None \<longrightarrow> \<not> has_action (validateCommands (hStore env) rq (hParams r)) k"
proof -
  let ?c = "validateCommands (hStore env) rq (hParams r)"
  have st: "http_store (hStore env)" "store_ok (hStore env)" and m: "wf_map (hParams r)"
    using assms(1) by (auto simp: answerable_def http_store_def)
  have "\<not> full_range (cmd_field ?c k)" if "ranged_key k" for k
    using assms(1) that not_full_range_Nil validateCommands_field [OF st(2) m, of rq k]
    by (auto simp: answerable_def split: option.splits)
  then have "\<not> panics (evaluate ?c (hRand env))"
    using evaluate_panics_iff [OF st(2) m refl] by blast
  then obtain result g where e: "evaluate ?c (hRand env) = Inr (result, g)"
    by (cases "evaluate ?c (hRand env)") auto
  have absent: "\<not> has_action ?c k" if "map_of (hParams r) k = None" for k
  proof -
    have "k \<notin> fst ` set (combineValuesWithOr (hParams r))"
      using that by (auto simp: map_of_eq_None_iff combineValuesWithOr_def image_iff)
    then show ?thesis by (force simp: has_action_def validateCommands_def validate_lists)
  qed
  have "evaluated rq ?c result" using assms(2) st(1) m e by (auto simp: evaluated_def)
  with e absent show thesis by (intro that) simp_all
qed

section \<open>What the handler leaves alone\<close>

lemma execAction_net:
  assumes "execAction env json src input result s = Some (Inr (resp, sz, status, s'))"
    and "\<not> has_action input ''disconnect''"
  shows "net s' = net s"
proof (rule execAction_run [OF assms(1)])
  fix v
  assume v: "v = start_vars json s \<or> run_actions env input result (start_vars json s) = Some (Inr v)"
    and w: "\<not> has_action input ''disconnect'' \<Longrightarrow>
      write_out env json src v = Some (Inr (resp, sz, status, s')) \<and> s' = srv v"
  have "srv (start_vars json s) = s" by (simp add: start_vars_def)
  then show ?thesis using v run_actions_frame(2) w [OF assms(2)] by fastforce
qed

lemma setIPAddress_keeps:
  "setIPAddress lam hst ks r (rq, s) = (rq', s') \<Longrightarrow>
   net s' = net s \<and> headerMap s' = headerMap s \<and> reqProto rq' = reqProto rq"
  by (auto simp: setIPAddress_def Let_def split: if_splits option.splits)

text \<open>The default handler answers, and changes in the counters of the remote node what it should.\<close>

definition reflected :: "handler_env \<Rightarrow> http_request \<Rightarrow> int \<Rightarrow> node_info \<Rightarrow> node_info" where
  "reflected env r sz =
     reflectRequest (envNow (hExec env)) (word_of_int (int (length (hBody r)))) (word_of_int sz)"

text \<open>The length is announced, unless it is sent in chunks or a client has set the header itself, or the
  status has no body.\<close>

definition announces :: "http_request \<Rightarrow> server \<Rightarrow> response \<Rightarrow> int \<Rightarrow> bool" where
  "announces r s' resp sz =
     (map_of (hParams r) ''chunk'' = None \<and> headerMap s' ''content-length'' = None \<and> status_body (respStatus resp) \<longrightarrow>
        respHeader resp ''Content-Length'' = Some [itoa sz])"

lemma defaultHandler_answers:
  assumes "answerable env r" and "lower_keys (headerMap s)"
    and "remoteNodes (net s) (extractIPAddress (hRemote r)) = Some ni"
  shows "\<exists>resp sz status s'. defaultHandler env r l s =
      Some (Inr (resp, l\<lparr>lSize := sz, lStatus := status\<rparr>, s')) \<and>
    answered (act_env env r) resp sz status \<and>
    lower_keys (headerMap s') \<and> announces r s' resp sz \<and>
    net s' = (net s)\<lparr>remoteNodes :=
      (remoteNodes (net s))(extractIPAddress (hRemote r) \<mapsto> reflected env r sz ni)\<rparr>"
proof -
  obtain rq s1 where sip: "setIPAddress (hLambda env) (host (hStore env)) (envConns (hExec env)) r (request_of env r, s) = (rq, s1)"
    by (cases "setIPAddress (hLambda env) (host (hStore env)) (envConns (hExec env)) r (request_of env r, s)")
  note kept = setIPAddress_keeps [OF sip]
  let ?c = "validateCommands (hStore env) rq (hParams r)"
  have "\<not> prefix ''grpc'' (reqProto rq)"
    using kept assms(1) by (simp add: answerable_def request_of_def Let_def)
  with assms(1) obtain result g where e: "evaluate ?c (hRand env) = Inr (result, g)" "evaluated rq ?c result"
    and absent: "\<forall>k. map_of (hParams r) k = None \<longrightarrow> \<not> has_action ?c k"
    by (rule answerable_evaluates)
  have nod: "\<not> has_action ?c ''disconnect''" using absent assms(1) by (simp add: answerable_def)
  define json where "json = jsonMarshalIndent (response_json (hFloat env) (host (hStore env)) (cpuRes s1) (memRes s1) rq ?c result)"
  have "lower_keys (headerMap s1)" "fair (hSource env)" "envFlusher (act_env env r)" "load_free (act_env env r) ?c"
    using kept assms(1,2) absent by (auto simp: answerable_def load_free_def)
  from execAction_ok [OF e(2) this, of json] nod obtain resp sz status s2 where
    x: "execAction (act_env env r) json (hSource env) ?c result s1 = Some (Inr (resp, sz, status, s2))"
    and f: "answered (act_env env r) resp sz status" "lower_keys (headerMap s2)"
    and len: "\<not> has_action ?c ''chunk'' \<and> headerMap s2 ''content-length'' = None \<longrightarrow>
      respHeader resp ''Content-Length'' = Some [itoa sz]"
    by blast
  have n: "net s2 = net s" using execAction_net [OF x nod] kept by simp
  have g: "announces r (s2\<lparr>node := a, net := b\<rparr>) resp sz" for a b
    using len absent by (simp add: announces_def)
  have "read_load (act_env env r) s1 = Some (Inr (target (cpuRes s1), target (memRes s1)))"
    using assms(1) by (simp add: read_load_Some answerable_def)
  then have d: "defaultHandler env r l s = Some (reflect_answer env r l (resp, sz, status, s2))"
    by (simp add: defaultHandler_def sip e(1) json_def [symmetric] x)
  have "\<not> hLambda env" using assms(1) by (simp add: answerable_def)
  then obtain s3 where "reflect_answer env r l (resp, sz, status, s2) = Inr (resp, l\<lparr>lSize := sz, lStatus := status\<rparr>, s3)"
    "headerMap s3 = headerMap s2" "announces r s3 resp sz"
    "net s3 = (net s)\<lparr>remoteNodes := (remoteNodes (net s))(extractIPAddress (hRemote r) \<mapsto> reflected env r sz ni)\<rparr>"
    using g by (simp add: reflect_answer_def Let_def n rnm_reflectRequest_def assms(3) reflected_def)
  with f show ?thesis unfolding d by (intro exI [of _ resp] exI [of _ sz] exI [of _ status] exI [of _ s3]) simp
qed

text \<open>And while a caller holds a lock of the load for ever, no request to the default route gets an answer.\<close>

lemma defaultHandler_waits:
  assumes "envCpuLoad (hExec env) = LockHeld \<or> envMemLoad (hExec env) = LockHeld"
  shows "defaultHandler env r l s = None"
proof -
  have "read_load (act_env env r) s' = None" for s' using assms by (simp add: read_load_None)
  then show ?thesis by (simp add: defaultHandler_def split: prod.split)
qed

section \<open>Behind the wrapper\<close>

lemma handlers_known_nodes:
  "handlers_known w \<Longrightarrow> dom m = dom (remoteNodes w) \<Longrightarrow> handlers_known (w\<lparr>remoteNodes := m\<rparr>)"
  by (simp add: handlers_known_def)

lemma conn_ok_around:
  assumes ok: "conn_ok w" and ks: "set ks = dom (csMaps w)"
    and start: "active_start now addr (w\<lparr>csMaps := snd (bump_reuse ks addr (csMaps w))\<rparr>) = Inr w1"
    and m: "dom m = dom (remoteNodes w1)"
    and stop: "active_end now (extractIPAddress addr) (w1\<lparr>remoteNodes := m\<rparr>) = Inr w2"
  shows "conn_ok w2"
proof -
  have "conn_gap w 0" "handlers_known w" using ok by (simp_all add: conn_ok_def conn_exact_gap)
  then have "conn_gap w1 0" "handlers_known w1"
    using gap_active(1) [OF gap_bump_reuse start] handlers_known_active(1) [OF _ start] ks by simp_all
  then have "conn_gap (w1\<lparr>remoteNodes := m\<rparr>) 0" "handlers_known (w1\<lparr>remoteNodes := m\<rparr>)"
    using m by (simp_all add: gap_fields handlers_known_nodes)
  moreover have "extractIPAddress addr \<in> set (handlers (w1\<lparr>remoteNodes := m\<rparr>))"
    using active_fields(5) [OF start] by simp
  ultimately show ?thesis
    using gap_active(2) [OF _ stop] handlers_known_active(2) [OF _ _ stop] by (simp add: conn_ok_def conn_exact_gap)
qed

text \<open>The status that the client gets is the one that is logged, but 200 after an interim one; the body has
  the size that is logged, if status and method allow one, unless a client has given a response in
  chunks a length of its own.\<close>

definition request_done :: "handler_env \<Rightarrow> http_request \<Rightarrow> server \<Rightarrow> response \<Rightarrow> http_logger \<Rightarrow> server \<Rightarrow> bool" where
  "request_done env r s resp l s' =
     (100 \<le> lStatus l \<and> lStatus l \<le> 999 \<and>
      respStatus resp = sent_status (envWriter (hExec env)) (lStatus l) \<and>
      (map_of (hParams r) ''chunk'' = None \<or> headerMap s' ''content-length'' = None \<longrightarrow>
         int (length (respBody resp)) = (if takes_body (act_env env r) (lStatus l) then lSize l else 0)) \<and>
      announces r s' resp (lSize l) \<and>
      heap (net s') = heap (net s) \<and> total (net s') = total (net s) \<and> h2cConns (net s') = h2cConns (net s) \<and>
      active (net s') = active (net s) \<and> handlers (net s') = handlers (net s) \<and>
      (\<exists>ni. remoteNodes (net s) (extractIPAddress (hRemote r)) = Some ni \<and>
        remoteNodes (net s') = (remoteNodes (net s))(extractIPAddress (hRemote r) \<mapsto>
          ni\<lparr>requestCount := requestCount ni + 1, sentBytes := sentBytes ni + word_of_int (lSize l),
             updatedAt := envNow (hExec env)\<rparr>)))"

lemma wrapper_answers:
  assumes a: "answerable env r" and ok: "server_ok s"
    and ks: "set (envConns (hExec env)) = dom (csMaps (net s))"
    and known: "extractIPAddress (hRemote r) \<in> dom (remoteNodes (net s))"
  shows "\<exists>resp l s'. handlerWrapper env defaultHandler r s = Some (Inr (resp, l, s')) \<and>
    request_done env r s resp l s' \<and> server_ok s'"
proof -
  let ?ks = "envConns (hExec env)" and ?now = "envNow (hExec env)" and ?ip = "extractIPAddress (hRemote r)"
  define m where "m = snd (bump_reuse ?ks (hRemote r) (csMaps (net s)))"
  obtain n where nm: "bump_reuse ?ks (hRemote r) (csMaps (net s)) = (n, m)"
    by (cases "bump_reuse ?ks (hRemote r) (csMaps (net s))") (simp add: m_def)
  define l0 where "l0 = fst (logger_init (envProto (hExec env)) r n new_logger)"
  let ?r = "r\<lparr>hBody := []\<rparr>"
  have init: "logger_init (envProto (hExec env)) r n new_logger = (l0, ?r)"
    by (simp add: logger_init_def l0_def)
  obtain ni where ni: "remoteNodes (net s) ?ip = Some ni" using known by auto
  define w where "w = (net s)\<lparr>csMaps := m, active := active (net s) + 1,
    remoteNodes := (remoteNodes (net s))(?ip \<mapsto> addActiveConns ?now 1 ni), handlers := ?ip # handlers (net s)\<rparr>"
  have start: "active_start ?now (hRemote r) ((net s)\<lparr>csMaps := m\<rparr>) = Inr w"
    by (simp add: active_start_def rnm_addActiveConns_def ni w_def Let_def)
  have node: "remoteNodes (net (s\<lparr>net := w\<rparr>)) (extractIPAddress (hRemote ?r)) = Some (addActiveConns ?now 1 ni)"
    by (simp add: w_def)
  have a': "answerable env ?r" using a by (simp add: answerable_def)
  have lk: "lower_keys (headerMap (s\<lparr>net := w\<rparr>))" using ok by (simp add: server_ok_def)
  obtain resp sz status s1 where d: "defaultHandler env ?r l0 (s\<lparr>net := w\<rparr>) =
      Some (Inr (resp, l0\<lparr>lSize := sz, lStatus := status\<rparr>, s1))"
    and f: "answered (act_env env ?r) resp sz status" "lower_keys (headerMap s1)"
    and len: "announces ?r s1 resp sz"
    and n1: "net s1 = w\<lparr>remoteNodes := (remoteNodes w)(?ip \<mapsto> reflected env ?r sz (addActiveConns ?now 1 ni))\<rparr>"
    using defaultHandler_answers [OF a' lk node, of l0] by auto
  define w2 where "w2 = (net s)\<lparr>csMaps := m, remoteNodes := (remoteNodes (net s))(?ip \<mapsto>
      addActiveConns ?now (-1) (reflected env ?r sz (addActiveConns ?now 1 ni)))\<rparr>"
  have stop: "active_end ?now ?ip (net s1) = Inr w2"
    by (simp add: n1 w_def active_end_def rnm_addActiveConns_def w2_def Let_def)
  have "handlerWrapper env defaultHandler r s =
      Some (Inr (resp, l0\<lparr>lSize := sz, lStatus := status\<rparr>, s1\<lparr>net := w2\<rparr>))"
    by (simp add: handlerWrapper_def nm init start d stop)
  moreover have "addActiveConns ?now (-1) (reflected env ?r sz (addActiveConns ?now 1 ni)) =
      ni\<lparr>requestCount := requestCount ni + 1, sentBytes := sentBytes ni + word_of_int sz, updatedAt := ?now\<rparr>"
    by (simp add: addActiveConns_def reflected_def reflectRequest_def)
  then have "request_done env r s resp (l0\<lparr>lSize := sz, lStatus := status\<rparr>) (s1\<lparr>net := w2\<rparr>)"
    using f(1) len ni by (simp add: request_done_def w2_def announces_def answered_def act_env_def)
  moreover have "conn_ok w2"
    using ok by (intro conn_ok_around [OF _ ks start [unfolded m_def] _ stop [unfolded n1]])
      (auto simp: server_ok_def w_def)
  then have "server_ok (s1\<lparr>net := w2\<rparr>)" using f(2) by (simp add: server_ok_def)
  ultimately show ?thesis by blast
qed

section \<open>Runs of the server\<close>

text \<open>What happens to a connection, and a request to the default route from its start to its end.\<close>

inductive server_step :: "int \<Rightarrow> server \<Rightarrow> server \<Rightarrow> bool" for pi where
  of_conn: "conn_step pi (net s) w \<Longrightarrow> server_step pi s (s\<lparr>net := w\<rparr>)"
| of_request: "answerable env r \<Longrightarrow> set (envConns (hExec env)) = dom (csMaps (net s)) \<Longrightarrow>
    extractIPAddress (hRemote r) \<in> dom (remoteNodes (net s)) \<Longrightarrow>
    handlerWrapper env defaultHandler r s = Some (Inr (resp, l, s')) \<Longrightarrow> server_step pi s s'"

inductive_cases server_stepE: "server_step pi s t"

interpretation whole: invariant_system "server_step pi" server_ok for pi
proof unfold_locales
  fix s t assume ok: "server_ok s" and "server_step pi s t"
  from this(2) show "server_ok t"
  proof (rule server_stepE)
    fix w assume "t = s\<lparr>net := w\<rparr>" "conn_step pi (net s) w"
    then show ?thesis using ok known.step_inv by (auto simp: server_ok_def)
  qed (use ok wrapper_answers in fastforce)
qed

lemma server_ok_run: "(server_step pi)\<^sup>*\<^sup>* (new_server now) s \<Longrightarrow> server_ok s"
  by (erule whole.run_inv) (simp add: server_ok_def new_server_def conn_ok_init lower_keys_ops)


text \<open>One connection, and a request over it for status 404.\<close>

definition client_env :: handler_env where
  "client_env = (idle_env NewDataStore False ''http'')
     \<lparr>hExec := plain_env\<lparr>envConns := [connKey client server80]\<rparr>\<rparr>"

definition client_get :: http_request where
  "client_get = post_abc\<lparr>hMethod := ''GET'', hRemote := client, hParams := [(''status'', [''404''])]\<rparr>"

lemma client_get_answerable: "answerable client_env client_get"
  by (simp add: answerable_def client_env_def client_get_def idle_env_def plain_env_def fair_zero wf_map_def
      combineValuesWithOr_def ranged_key_def)

lemma client_get_fields:
  "hParams client_get = [(''status'', [''404''])]" "hMethod client_get = ''GET''"
  "envWriter (hExec client_env) = Http1" "envHead (act_env client_env client_get) = False"
  by (simp_all add: client_get_def client_env_def idle_env_def plain_env_def)


end
