(* ===== verification/AccessLog.thy ===== *)
theory AccessLog
  imports HttpHandler StreamLog
begin

text \<open>
  logger.go: the log lines as the fields that the program gives to the logging library, in order,
  for a request to a handler, a chat connection, a unary call and a stream. Times are the clock's,
  in nanoseconds, and parameters; the text that the library makes of the fields is not modelled.
\<close>

section \<open>Fields\<close>

datatype log_value = LStr string | LInt int | LTime int64 | LDur int64

type_synonym log_fields = "(string \<times> log_value) list"

text \<open>\<open>HttpLogger.log\<close>.\<close>

definition http_line :: "int64 \<Rightarrow> int64 \<Rightarrow> http_logger \<Rightarrow> log_fields" where
  "http_line reqtime restime l =
     [(''reqtime'', LTime reqtime),
      (''proto'', LStr (lProto l)),
      (''method'', LStr (lMethod l)),
      (''path'', LStr (lPath l)),
      (''qstr'', LStr (lQstr l)),
      (''clientip'', LStr (lClientip l)),
      (''srcip'', LStr (extractIPAddress (lRemoteaddr l))),
      (''srcport'', LInt (extractPort (lRemoteaddr l))),
      (''reqsize'', LInt (lReqsize l)),
      (''size'', LInt (lSize l)),
      (''status'', LInt (lStatus l)),
      (''time'', LTime restime),
      (''duration'', LDur (restime - reqtime)),
      (''reuse'', LInt (sint (lReuse l)))]"

definition wsLogger :: "int64 \<Rightarrow> string \<Rightarrow> http_request \<Rightarrow> log_fields" where
  "wsLogger conntime proto r =
     (let remotePort = extractPort (hRemote r); remoteAddr = extractIPAddress (hRemote r)
      in [(''conntime'', LTime conntime), (''proto'', LStr proto), (''clientip'', LStr (getClientIPAddress r)),
          (''srcip'', LStr remoteAddr), (''srcport'', LInt remotePort)])"

definition forUnary :: "int64 \<Rightarrow> grpc_logger \<Rightarrow> log_fields" where
  "forUnary recvtime l =
     [(''recvtime'', LTime recvtime), (''proto'', LStr (gProto l)), (''mode'', LStr (gMode l)),
      (''method'', LStr (gMethod l)), (''params'', LStr (gParams l)), (''clientip'', LStr (gClientip l)),
      (''srcip'', LStr (gSrcip l)), (''srcport'', LInt (gSrcport l))]"

definition forStream :: "int64 \<Rightarrow> grpc_logger \<Rightarrow> log_fields" where
  "forStream opentime l =
     [(''opentime'', LTime opentime), (''proto'', LStr (gProto l)), (''mode'', LStr (gMode l)),
      (''method'', LStr (gMethod l)), (''clientip'', LStr (gClientip l)),
      (''srcip'', LStr (gSrcip l)), (''srcport'', LInt (gSrcport l))]"

text \<open>The line of a unary call: the sizes are what the encoder gives for the request and the response,
  the clock is read for the time and again for the duration.\<close>

definition unary_line ::
  "int64 \<Rightarrow> int64 \<Rightarrow> int64 \<Rightarrow> grpc_logger \<Rightarrow> gob \<Rightarrow> (code option \<times> string) + gob \<Rightarrow> log_fields" where
  "unary_line recvtime sendtime now l req out =
     forUnary recvtime l @
     (case out of
        Inl (stat, err) \<Rightarrow>
          [(''reqsize'', LInt (getBinarySize req)), (''code'', LInt (log_code (Some stat))),
           (''sendtime'', LTime sendtime), (''duration'', LDur (now - recvtime)), (''error'', LStr err)]
      | Inr resp \<Rightarrow>
          [(''reqsize'', LInt (getBinarySize req)), (''size'', LInt (getBinarySize resp)), (''code'', LInt 0),
           (''sendtime'', LTime sendtime), (''duration'', LDur (now - recvtime))])"

text \<open>A line of a stream: the fields of the logger and those in which the lines differ.\<close>

fun line_fields :: "int64 \<Rightarrow> stream_line \<Rightarrow> log_fields" where
  "line_fields now OpenLine = [(''action'', LStr ''open'')]"
| "line_fields now (RecvLine params n err) =
     [(''params'', LStr params), (''action'', LStr ''recv''), (''recvtime'', LTime now), (''reqsize'', LInt n)] @
     (case err of None \<Rightarrow> [] | Some e \<Rightarrow> [(''error'', LStr e)])"
| "line_fields now RecvEndLine = [(''action'', LStr ''recv_end''), (''recvtime'', LTime now)]"
| "line_fields now (SendLine c n err) =
     [(''action'', LStr ''send''), (''code'', LInt c), (''sendtime'', LTime now), (''size'', LInt n)] @
     (case err of None \<Rightarrow> [] | Some e \<Rightarrow> [(''error'', LStr e)])"
| "line_fields now (CloseLine c err) =
     [(''action'', LStr ''close''), (''code'', LInt c), (''closetime'', LTime now)] @
     (case err of None \<Rightarrow> [] | Some e \<Rightarrow> [(''error'', LStr e)])"

definition stream_log_line :: "int64 \<Rightarrow> grpc_logger \<Rightarrow> int64 \<Rightarrow> stream_line \<Rightarrow> log_fields" where
  "stream_log_line opentime l now x = forStream opentime l @ line_fields now x"

section \<open>What a line says\<close>

text \<open>No line has a field twice, so that a reader of the log finds each by its name.\<close>

lemma fields_once:
  "distinct (map fst (http_line t u l))" "distinct (map fst (wsLogger t p r))"
  "distinct (map fst (unary_line t u v g req out))" "distinct (map fst (stream_log_line t g u x))"
  by (auto simp: http_line_def wsLogger_def Let_def unary_line_def forUnary_def split: sum.split)
    (cases x; auto simp: stream_log_line_def forStream_def split: option.split)+

text \<open>The status of a response as the client gets it, and as it is logged; a request that is cut off
  gets none, and zero is logged.\<close>

lemma execAction_status:
  assumes "execAction env json src input result s = Some (Inr (resp, sz, status, s'))"
  shows "respStatus resp = sent_status (envWriter env) status"
proof -
  have w: "respStatus resp = sent_status (envWriter env) status"
    if "write_out env json src v = Some (Inr (resp, sz, status, s'))" for v
    using that by (auto simp: write_out_def Let_def res_bind_Inr split: sum.splits)
  have "sent_status w 0 = 0" for w by (simp add: sent_status_def interim_def)
  with assms w show ?thesis
    unfolding execAction_cases
    by (simp only: ro_bind_Inr split: if_splits) (auto simp: res_bind_Inr no_response_def)
qed


lemma defaultHandler_status:
  assumes "defaultHandler env r l s = Some (Inr (resp, l', s'))"
  shows "respStatus resp = sent_status (envWriter (hExec env)) (lStatus l')"
  by (rule defaultHandler_run [OF assms]) (auto dest: execAction_status)

text \<open>The line that is written for a request to the default route has the request's method, path and
  query, the protocol, the addresses, the size of the body as the client sent it, the status and the size
  that the handler meant, and the number of the request on its connection. The client gets the status
  that is logged unless it is an interim one, for which it gets 200 at the end.\<close>

theorem default_line:
  assumes "handlerWrapper env defaultHandler r s = Some (Inr (resp, l, s'))"
  shows "http_line t u l =
    [(''reqtime'', LTime t), (''proto'', LStr (envProto (hExec env))), (''method'', LStr (hMethod r)),
     (''path'', LStr (hPath r)), (''qstr'', LStr (hQueryText r)), (''clientip'', LStr (getClientIPAddress r)),
     (''srcip'', LStr (extractIPAddress (hRemote r))), (''srcport'', LInt (extractPort (hRemote r))),
     (''reqsize'', LInt (int (length (hBody r)))), (''size'', LInt (lSize l)), (''status'', LInt (lStatus l)),
     (''time'', LTime u), (''duration'', LDur (u - t)),
     (''reuse'', LInt (sint (fst (bump_reuse (envConns (hExec env)) (hRemote r) (csMaps (net s))))))] \<and>
   respStatus resp = sent_status (envWriter (hExec env)) (lStatus l)"
proof -
  obtain n m where nm: "bump_reuse (envConns (hExec env)) (hRemote r) (csMaps (net s)) = (n, m)"
    by (cases "bump_reuse (envConns (hExec env)) (hRemote r) (csMaps (net s))")
  define l0 where "l0 = fst (logger_init (envProto (hExec env)) r n new_logger)"
  obtain w s1 where d: "defaultHandler env (r\<lparr>hBody := []\<rparr>) l0 (s\<lparr>net := w\<rparr>) = Some (Inr (resp, l, s1))"
    using handlerWrapper_default [OF assms, unfolded nm fst_conv, folded l0_def] by (elim exE conjE)
  obtain sz st where l: "l = l0\<lparr>lSize := sz, lStatus := st\<rparr>"
    using conjunct2 [OF conjunct2 [OF conjunct2 [OF defaultHandler_counts [OF d]]]] by (rule that)
  have f: "lProto l = envProto (hExec env)" "lMethod l = hMethod r" "lPath l = hPath r" "lQstr l = hQueryText r"
    "lClientip l = getClientIPAddress r" "lRemoteaddr l = hRemote r" "lReqsize l = int (length (hBody r))" "lReuse l = n"
    by (simp_all add: l l0_def logger_init_def)
  show ?thesis by (intro conjI defaultHandler_status [OF d]) (simp add: http_line_def f nm)
qed

end
