(* ===== verification/LoadLock.thy ===== *)
theory LoadLock
  imports Resource
begin

text \<open>
  types.go: the lock and the channel of \<open>ResourceUsage\<close>; cpu.go \<open>cpuStress\<close> and memory.go
  \<open>memoryAllocate\<close>: the goroutine at the other end of the channel. Requests set targets at the same
  time as the goroutine ticks and the usage is measured. One step is one operation of one goroutine;
  the send on the channel, which has no buffer, is a joint step. A read of the usage takes and
  leaves the read lock within a step, so that it waits only for a caller that holds the lock.
\<close>

section \<open>The goroutines\<close>

text \<open>What differs between the two: whether a tick reads the usage, what it does after reading
  whether the usage is below the target, and what a new target does. The controller that the first
  sends its ratio or quit to is always at its own select, so that these sends are part of the step.\<close>

record 'w worker_ops =
  wReads :: "'w \<Rightarrow> bool"
  wTick :: "bool \<Rightarrow> 'w \<Rightarrow> 'w"
  wTarget :: "int \<Rightarrow> 'w \<Rightarrow> 'w"

definition cpuStress :: "cpu_state worker_ops" where
  "cpuStress = \<lparr>wReads = started, wTick = (\<lambda>_ s. s), wTarget = cpu_target\<rparr>"

definition memoryAllocate :: "nat \<Rightarrow> memory_state worker_ops" where
  "memoryAllocate unit = \<lparr>wReads = (\<lambda>_. True), wTick = memory_tick unit, wTarget = memory_target\<rparr>"

text \<open>Where the goroutine is, and where a call of \<open>setTarget\<close> is: past its test, with the lock and at
  the send, or past the send.\<close>

datatype worker_pc = AtSelect | AtRead | AtTick bool | AtTarget int

datatype caller_pc = Tested int | Holding int | Handed int | Finished

record 'w load_state =
  res :: resource_usage
  work :: 'w
  wpc :: worker_pc
  callers :: "caller_pc list"

fun holds :: "caller_pc \<Rightarrow> bool" where
  "holds (Holding v) = True"
| "holds (Handed v) = True"
| "holds c = False"

definition locked :: "'w load_state \<Rightarrow> bool" where
  "locked s = list_ex holds (callers s)"

definition load_init :: "'w \<Rightarrow> 'w load_state" where
  "load_init w = \<lparr>res = NewResourceUsage, work = w, wpc = AtSelect, callers = []\<rparr>"

text \<open>A target is a percentage that passed validation.\<close>

inductive load_step :: "'w worker_ops \<Rightarrow> 'w load_state \<Rightarrow> 'w load_state \<Rightarrow> bool" for W where
  test: "\<not> locked s \<Longrightarrow> 0 \<le> v \<Longrightarrow> v \<le> 100 \<Longrightarrow>
    load_step W s (s\<lparr>callers := callers s @ [if target (res s) \<noteq> v then Tested v else Finished]\<rparr>)"
| lock: "\<not> locked s \<Longrightarrow> i < length (callers s) \<Longrightarrow> callers s ! i = Tested v \<Longrightarrow>
    load_step W s (s\<lparr>callers := (callers s)[i := Holding v]\<rparr>)"
| hand: "i < length (callers s) \<Longrightarrow> callers s ! i = Holding v \<Longrightarrow> wpc s = AtSelect \<Longrightarrow>
    load_step W s (s\<lparr>callers := (callers s)[i := Handed v], wpc := AtTarget v,
      res := (res s)\<lparr>sent := sent (res s) @ [v]\<rparr>\<rparr>)"
| store: "i < length (callers s) \<Longrightarrow> callers s ! i = Handed v \<Longrightarrow>
    load_step W s (s\<lparr>callers := (callers s)[i := Finished], res := (res s)\<lparr>target := v\<rparr>\<rparr>)"
| new_target: "wpc s = AtTarget v \<Longrightarrow>
    load_step W s (s\<lparr>wpc := AtSelect, work := wTarget W v (work s)\<rparr>)"
| tick: "wpc s = AtSelect \<Longrightarrow>
    load_step W s (s\<lparr>wpc := (if wReads W (work s) then AtRead else AtSelect)\<rparr>)"
| read: "wpc s = AtRead \<Longrightarrow> \<not> locked s \<Longrightarrow> load_step W s (s\<lparr>wpc := AtTick below\<rparr>)"
| ticked: "wpc s = AtTick below \<Longrightarrow>
    load_step W s (s\<lparr>wpc := AtSelect, work := wTick W below (work s)\<rparr>)"
| measure: "\<not> locked s \<Longrightarrow> load_step W s (s\<lparr>res := setCurrent feq x (res s)\<rparr>)"

inductive_cases load_stepE: "load_step W s t"

lemma locked_iff: "locked s \<longleftrightarrow> (\<exists>v. Holding v \<in> set (callers s) \<or> Handed v \<in> set (callers s))"
proof -
  have "holds c \<longleftrightarrow> (\<exists>v. c = Holding v \<or> c = Handed v)" for c by (cases c) simp_all
  then show ?thesis by (auto simp: locked_def list_ex_iff)
qed

lemma setCurrent_fields [simp]:
  "target (setCurrent feq x ru) = target ru" "sent (setCurrent feq x ru) = sent ru"
  by (simp_all add: setCurrent_def)

section \<open>A call alone\<close>

definition served :: "'w worker_ops \<Rightarrow> nat \<Rightarrow> int \<Rightarrow> 'w load_state \<Rightarrow> 'w load_state" where
  "served W i v s = s\<lparr>callers := (callers s)[i := Finished],
     res := (res s)\<lparr>sent := sent (res s) @ [v], target := v\<rparr>, wpc := AtSelect, work := wTarget W v (work s)\<rparr>"

lemma not_locked_update: "\<not> locked s \<Longrightarrow> \<not> locked (s\<lparr>callers := (callers s)[i := Finished]\<rparr>)"
  by (auto simp: locked_iff dest!: set_update_subset_insert [THEN subsetD])

lemma locked_fields [simp]:
  "locked (s\<lparr>res := r\<rparr>) = locked s" "locked (s\<lparr>work := w\<rparr>) = locked s" "locked (s\<lparr>wpc := p\<rparr>) = locked s"
  by (simp_all add: locked_def)

lemma served_fields:
  "\<not> locked s \<Longrightarrow> \<not> locked (served W i v s)" "wpc (served W i v s) = AtSelect"
  using not_locked_update [of s i] by (simp_all add: served_def locked_def)

text \<open>A call that has tested the target, when nobody holds the lock.\<close>

lemma serve:
  assumes "\<not> locked s" and "wpc s = AtSelect" and "i < length (callers s)" and "callers s ! i = Tested v"
  shows "(load_step W)\<^sup>*\<^sup>* s (served W i v s)"
proof -
  define a where "a = s\<lparr>callers := (callers s)[i := Holding v]\<rparr>"
  define b where "b = s\<lparr>callers := (callers s)[i := Handed v], wpc := AtTarget v,
    res := (res s)\<lparr>sent := sent (res s) @ [v]\<rparr>\<rparr>"
  define c where "c = b\<lparr>callers := (callers s)[i := Finished], res := (res b)\<lparr>target := v\<rparr>\<rparr>"
  have "load_step W s a" using lock [OF assms(1,3,4), of W] by (simp add: a_def)
  moreover have "load_step W a b" using hand [of i a v W] assms(2,3) by (simp add: a_def b_def)
  moreover have "load_step W b c" using store [of i b v W] assms(3) by (simp add: b_def c_def)
  moreover have "load_step W c (served W i v s)"
    using new_target [of c v W] assms(2) by (simp add: b_def c_def served_def)
  ultimately show ?thesis by (meson converse_rtranclp_into_rtranclp rtranclp.rtrancl_refl)
qed

text \<open>What a call that comes to a state meets there, for the handlers, of which each \<open>setTarget\<close> is one
  step: the lock held; the goroutine on its way to a read, which it cannot do once the call has the
  lock; or a goroutine that will take the target.\<close>

definition met :: "'w load_state \<Rightarrow> load_peer" where
  "met s = (if locked s then LockHeld else if wpc s = AtRead then Busy else Takes)"

text \<open>With nobody else about, a call and the goroutine's answer do to the usage what \<open>setTarget\<close> does,
  and to the goroutine what its targets do.\<close>

lemma alone:
  assumes "\<not> locked s" and "wpc s = AtSelect" and "0 \<le> v" and "v \<le> 100"
  shows "\<exists>t. (load_step W)\<^sup>*\<^sup>* s t \<and> setTarget True (met s) v (res s) = Some (res t) \<and> wpc t = AtSelect \<and> \<not> locked t \<and>
    callers t = callers s @ [Finished] \<and>
    work t = (if target (res s) \<noteq> v then wTarget W v (work s) else work s)"
proof (cases "target (res s) = v")
  case True
  then show ?thesis
    using test [of s v W] assms
    by (intro exI [of _ "s\<lparr>callers := callers s @ [Finished]\<rparr>"]) (auto simp: locked_def met_def store_target)
next
  case False
  define a where "a = s\<lparr>callers := callers s @ [Tested v]\<rparr>"
  have a: "\<not> locked a" "wpc a = AtSelect" using assms(1,2) by (simp_all add: a_def locked_def)
  have "load_step W s a" using test [OF assms(1,3,4), of W] False by (simp add: a_def)
  moreover have "(load_step W)\<^sup>*\<^sup>* a (served W (length (callers s)) v a)"
    by (rule serve [OF a]) (simp_all add: a_def)
  ultimately have "(load_step W)\<^sup>*\<^sup>* s (served W (length (callers s)) v a)" by simp
  then show ?thesis
    using False served_fields(1) [OF a(1), of W "length (callers s)" v] a(2) assms(1)
    by (intro exI [of _ "served W (length (callers s)) v a"])
      (auto simp: served_def a_def met_def store_target)
qed

section \<open>Invariants\<close>

lemma filter_nth:
  assumes "i < length xs"
  shows "filter P (xs[i := y]) = filter P (take i xs) @ (if P y then [y] else []) @ filter P (drop (Suc i) xs)"
    and "filter P xs = filter P (take i xs) @ (if P (xs ! i) then [xs ! i] else []) @ filter P (drop (Suc i) xs)"
proof -
  show "filter P (xs[i := y]) = filter P (take i xs) @ (if P y then [y] else []) @ filter P (drop (Suc i) xs)"
    using assms by (simp add: upd_conv_take_nth_drop)
  have "filter P xs = filter P (take i xs @ xs ! i # drop (Suc i) xs)"
    by (rule arg_cong [OF id_take_nth_drop [OF assms]])
  then show "filter P xs = filter P (take i xs) @ (if P (xs ! i) then [xs ! i] else []) @ filter P (drop (Suc i) xs)"
    by simp
qed

text \<open>Whoever holds the lock: \<open>filter holds\<close> has no entry or one.\<close>

lemma not_locked: "\<not> locked s \<longleftrightarrow> filter holds (callers s) = []"
  by (simp add: locked_def list_ex_iff filter_empty_conv)

lemma holder_update:
  assumes "i < length xs" and "holds (xs ! i)" and "filter holds xs = [c]"
  shows "c = xs ! i" and "filter holds (xs[i := y]) = (if holds y then [y] else [])"
  using filter_nth(1) [OF assms(1), where P = holds and y = y] filter_nth(2) [OF assms(1), where P = holds] assms(2,3)
  by (auto simp: Cons_eq_append_conv)

lemma holder_new:
  assumes "i < length xs" and "filter holds xs = []"
  shows "filter holds (xs[i := y]) = (if holds y then [y] else [])"
  using filter_nth(1) [OF assms(1), where P = holds and y = y] filter_nth(2) [OF assms(1), where P = holds] assms(2)
  by (auto split: if_splits)

text \<open>The target is what was sent last, but while the caller that sent it has not stored it.\<close>

fun holder_ok :: "caller_pc list \<Rightarrow> resource_usage \<Rightarrow> bool" where
  "holder_ok [] ru = (target ru = last (0 # sent ru))"
| "holder_ok [Holding v] ru = (target ru = last (0 # sent ru))"
| "holder_ok [Handed v] ru = (sent ru \<noteq> [] \<and> last (sent ru) = v)"
| "holder_ok cs ru = False"

definition load_ok :: "'w load_state \<Rightarrow> bool" where
  "load_ok s =
     (holder_ok (filter holds (callers s)) (res s) \<and>
      (\<forall>v. wpc s = AtTarget v \<longrightarrow> sent (res s) \<noteq> [] \<and> last (sent (res s)) = v) \<and>
      list_all (\<lambda>v. 0 \<le> v \<and> v \<le> 100) (sent (res s)) \<and>
      (\<forall>v. Tested v \<in> set (callers s) \<or> Holding v \<in> set (callers s) \<longrightarrow> 0 \<le> v \<and> v \<le> 100))"

lemma holder_cases:
  assumes "holder_ok (filter holds cs) ru" and "i < length cs" and "holds (cs ! i)"
  shows "filter holds cs = [cs ! i]"
proof -
  have "length (filter holds cs) \<le> 1"
    using assms(1) by (cases "(filter holds cs, ru)" rule: holder_ok.cases) auto
  moreover have "cs ! i \<in> set (filter holds cs)" using assms(2,3) by simp
  ultimately show ?thesis by (cases "filter holds cs") auto
qed

interpretation load: invariant_system "load_step W" load_ok for W
proof unfold_locales
  fix s t :: "'a load_state"
  assume ok: "load_ok s" and "load_step W s t"
  from this(2) show "load_ok t"
  proof cases
    case (test v)
    then show ?thesis using ok by (auto simp: load_ok_def not_locked)
  next
    case (lock i v)
    then show ?thesis
      using ok nth_mem [OF lock(3)] by (auto simp: load_ok_def not_locked holder_new dest!: set_update_subset_insert [THEN subsetD])
  next
    case (hand i v)
    with ok have h: "filter holds (callers s) = [Holding v]"
      using holder_cases [of "callers s" "res s" i] by (auto simp: load_ok_def)
    then show ?thesis
      using ok hand nth_mem [OF hand(2)] holder_update(2) [of i "callers s" "Holding v" "Handed v"]
      by (auto simp: load_ok_def dest!: set_update_subset_insert [THEN subsetD])
  next
    case (store i v)
    with ok have h: "filter holds (callers s) = [Handed v]"
      using holder_cases [of "callers s" "res s" i] by (auto simp: load_ok_def)
    then show ?thesis
      using ok store holder_update(2) [of i "callers s" "Handed v" Finished]
      by (auto simp: load_ok_def dest!: set_update_subset_insert [THEN subsetD])
  next
    case (measure feq x)
    then show ?thesis using ok by (simp add: load_ok_def not_locked)
  qed (use ok in \<open>auto simp: load_ok_def\<close>)
qed

lemma load_ok_run: "(load_step W)\<^sup>*\<^sup>* (load_init w) s \<Longrightarrow> load_ok s"
  by (erule load.run_inv) (simp add: load_ok_def load_init_def NewResourceUsage_def)

section \<open>The only way to get stuck\<close>

text \<open>A state in which nothing can happen any more.\<close>

definition stuck :: "'w worker_ops \<Rightarrow> 'w load_state \<Rightarrow> bool" where
  "stuck W s = (\<forall>t. \<not> load_step W s t)"

lemma stuck_iff:
  assumes "load_ok s"
  shows "stuck W s \<longleftrightarrow> wpc s = AtRead \<and> (\<exists>v. Holding v \<in> set (callers s))"
proof
  assume st: "stuck W s"
  then have "wpc s \<noteq> AtSelect" "\<And>v. wpc s \<noteq> AtTarget v" "\<And>b. wpc s \<noteq> AtTick b"
    using tick [of s W] new_target [of s _ W] ticked [of s _ W] by (auto simp: stuck_def)
  then have r: "wpc s = AtRead" by (cases "wpc s") auto
  then have "locked s" using st read [of s W True] by (auto simp: stuck_def)
  moreover have "Handed v \<notin> set (callers s)" for v
  proof
    assume "Handed v \<in> set (callers s)"
    then obtain i where "i < length (callers s)" "callers s ! i = Handed v" by (auto simp: in_set_conv_nth)
    from store [OF this, of W] st show False by (auto simp: stuck_def)
  qed
  ultimately show "wpc s = AtRead \<and> (\<exists>v. Holding v \<in> set (callers s))" using r by (auto simp: locked_iff)
next
  assume a: "wpc s = AtRead \<and> (\<exists>v. Holding v \<in> set (callers s))"
  then obtain v i where i: "i < length (callers s)" "callers s ! i = Holding v" by (auto simp: in_set_conv_nth)
  have l: "locked s" using a by (auto simp: locked_iff)
  have h: "filter holds (callers s) = [Holding v]"
    using holder_cases [of "callers s" "res s" i] assms i by (simp add: load_ok_def)
  have no: "callers s ! j \<noteq> Handed u" if "j < length (callers s)" for j u
    using holder_cases [of "callers s" "res s" j] assms h that by (auto simp: load_ok_def)
  show "stuck W s"
    unfolding stuck_def using a l no by (auto elim: load_step.cases)
qed

lemmas load_stuck_state = stuck_iff [OF load_ok_run]

text \<open>C38. Whatever requests set targets and however their calls, the goroutine and the measuring
  interleave, there is one way to get stuck, and it is for ever: the goroutine has taken a tick and
  wants to read the usage, and a caller that has the lock waits for it to take the target. Then no
  request can read or set a target any more, and the usage cannot be measured.\<close>

theorem load_stuck:
  assumes "(load_step W)\<^sup>*\<^sup>* (load_init w) s"
  shows "stuck W s \<longleftrightarrow> wpc s = AtRead \<and> (\<exists>v. Holding v \<in> set (callers s))"
  by (rule load_stuck_state [OF assms])

text \<open>From a quiet state of a goroutine that reads, one call for a new target and one tick are enough.\<close>

lemma gets_stuck:
  assumes "\<not> locked s" and "wpc s = AtSelect" and "wReads W (work s)" and "0 \<le> v" "v \<le> 100" and "target (res s) \<noteq> v"
  shows "\<exists>t. (load_step W)\<^sup>*\<^sup>* s t \<and> wpc t = AtRead \<and> Holding v \<in> set (callers t)"
proof -
  let ?n = "length (callers s)"
  define a where "a = s\<lparr>callers := callers s @ [Tested v]\<rparr>"
  define b where "b = s\<lparr>callers := callers s @ [Holding v]\<rparr>"
  have "load_step W s a" using test [OF assms(1,4,5), of W] assms(6) by (simp add: a_def)
  moreover have "load_step W a b" using lock [of a ?n v W] assms(1) by (simp add: a_def b_def locked_def)
  moreover have "load_step W b (b\<lparr>wpc := AtRead\<rparr>)" using tick [of b W] assms(2,3) by (simp add: b_def)
  ultimately have "(load_step W)\<^sup>*\<^sup>* s (b\<lparr>wpc := AtRead\<rparr>)"
    by (meson converse_rtranclp_into_rtranclp rtranclp.rtrancl_refl)
  then show ?thesis by (intro exI [of _ "b\<lparr>wpc := AtRead\<rparr>"]) (simp add: b_def)
qed

theorem load_stuck_witness:
  "(\<exists>s. (load_step (memoryAllocate 1000))\<^sup>*\<^sup>* (load_init memory_init) s \<and> stuck (memoryAllocate 1000) s) \<and>
   (\<exists>s. (load_step cpuStress)\<^sup>*\<^sup>* (load_init cpu_init) s \<and> stuck cpuStress s)"
proof
  let ?M = "memoryAllocate 1000"
  obtain s where s: "(load_step ?M)\<^sup>*\<^sup>* (load_init memory_init) s" "wpc s = AtRead" "Holding 50 \<in> set (callers s)"
    using gets_stuck [of "load_init memory_init" ?M 50]
    by (auto simp: load_init_def locked_def memoryAllocate_def NewResourceUsage_def)
  with load_stuck [OF s(1)] show "\<exists>s. (load_step ?M)\<^sup>*\<^sup>* (load_init memory_init) s \<and> stuck ?M s" by auto
next
  obtain t where t: "(load_step cpuStress)\<^sup>*\<^sup>* (load_init cpu_init) t" "res t = store_target 50 NewResourceUsage"
    "wpc t = AtSelect" "\<not> locked t" "work t = cpu_target 50 cpu_init"
    using alone [of "load_init cpu_init" 50 cpuStress]
    by (auto simp: load_init_def locked_def cpuStress_def NewResourceUsage_def store_target(1) met_def)
  have "wReads cpuStress (work t)" by (simp add: t(5) cpuStress_def cpu_target_def cpu_init_def)
  with t obtain s where s: "(load_step cpuStress)\<^sup>*\<^sup>* t s" "wpc s = AtRead" "Holding 80 \<in> set (callers s)"
    using gets_stuck [of t cpuStress 80] by auto
  then have "(load_step cpuStress)\<^sup>*\<^sup>* (load_init cpu_init) s" using t(1) by simp
  with load_stuck [OF this] s show "\<exists>s. (load_step cpuStress)\<^sup>*\<^sup>* (load_init cpu_init) s \<and> stuck cpuStress s" by auto
qed

text \<open>For the handlers: in a stuck state every read and every change of the target waits for ever, and
  so does a change that takes the lock when the goroutine is on its way to a read.\<close>

lemma stuck_waits:
  assumes "(load_step W)\<^sup>*\<^sup>* (load_init w) s" and "stuck W s"
  shows "getTarget (met s) (res s) = None" and "setTarget linux (met s) v (res s) = None"
  using load_stuck_state [OF assms(1)] assms(2)
  by (auto simp: met_def getTarget_def setTarget_None locked_iff)

lemma busy_stuck:
  assumes "(load_step W)\<^sup>*\<^sup>* (load_init w) s" and "met s = Busy"
    and "i < length (callers s)" and "callers s ! i = Tested v"
  shows "\<exists>t. load_step W s t \<and> stuck W t \<and> callers t ! i = Holding v"
proof -
  let ?t = "s\<lparr>callers := (callers s)[i := Holding v]\<rparr>"
  have p: "\<not> locked s" "wpc s = AtRead" using assms(2) by (auto simp: met_def split: if_splits)
  from lock [OF p(1) assms(3,4)] have st: "load_step W s ?t" .
  with assms(1) have "(load_step W)\<^sup>*\<^sup>* (load_init w) ?t" by simp
  from load_stuck_state [OF this] have "stuck W ?t"
    using p(2) assms(3) set_update_memI [of i "callers s"] by auto
  with st assms(3) show ?thesis by auto
qed

section \<open>The load of the CPU\<close>

definition cpu_ok :: "cpu_state load_state \<Rightarrow> bool" where
  "cpu_ok s =
     (load_ok s \<and> controllers (work s) = (if started (work s) then 1 else 0) \<and>
      (\<not> started (work s) \<longrightarrow> cpuUsage (work s) = 0) \<and>
      ((\<forall>v. wpc s \<noteq> AtTarget v) \<longrightarrow> cpuUsage (work s) = last (0 # sent (res s))))"

lemma cpu_target_ok:
  "controllers w = (if started w then 1 else 0) \<Longrightarrow> 0 \<le> v \<Longrightarrow> v \<le> 100 \<Longrightarrow>
   controllers (cpu_target v w) = (if started (cpu_target v w) then 1 else 0) \<and>
   (\<not> started (cpu_target v w) \<longrightarrow> v = 0)"
  by (auto simp: cpu_target_def Let_def)

interpretation cpu_load: invariant_system "load_step cpuStress" cpu_ok
proof unfold_locales
  fix s t assume ok: "cpu_ok s" and st: "load_step cpuStress s t"
  have "load_ok t" using load.step_inv [OF _ st] ok by (simp add: cpu_ok_def)
  moreover from st have "controllers (work t) = (if started (work t) then 1 else 0) \<and>
      (\<not> started (work t) \<longrightarrow> cpuUsage (work t) = 0) \<and>
      ((\<forall>v. wpc t \<noteq> AtTarget v) \<longrightarrow> cpuUsage (work t) = last (0 # sent (res t)))"
  proof cases
    case (new_target v)
    then have v: "sent (res s) \<noteq> []" "last (sent (res s)) = v" "0 \<le> v" "v \<le> 100"
      using ok last_in_set [of "sent (res s)"] by (auto simp: cpu_ok_def load_ok_def list_all_iff)
    then show ?thesis
      using new_target ok cpu_target_ok [of "work s" v] by (auto simp: cpu_ok_def cpuStress_def cpu_target_simps)
  qed (use ok in \<open>auto simp: cpu_ok_def cpuStress_def\<close>)
  ultimately show "cpu_ok t" by (simp add: cpu_ok_def)
qed

text \<open>C39. Whatever requests set CPU targets at the same time: there is never more than one load
  controller, and when no call has the lock and no target is on its way, the goroutine works towards
  the target and a controller runs if the target is not zero.\<close>

theorem cpu_load_follows:
  assumes "(load_step cpuStress)\<^sup>*\<^sup>* (load_init cpu_init) s"
  shows "controllers (work s) \<le> 1 \<and>
    (\<not> locked s \<and> (\<forall>v. wpc s \<noteq> AtTarget v) \<longrightarrow>
      cpuUsage (work s) = target (res s) \<and> (target (res s) \<noteq> 0 \<longrightarrow> controllers (work s) = 1))"
proof -
  have "cpu_ok s"
    by (rule cpu_load.run_inv [OF assms])
      (simp add: cpu_ok_def load_ok_def load_init_def cpu_init_def NewResourceUsage_def)
  then show ?thesis by (auto simp: cpu_ok_def load_ok_def not_locked)
qed

theorem cpu_load_follows_witness:
  "\<exists>s. (load_step cpuStress)\<^sup>*\<^sup>* (load_init cpu_init) s \<and> target (res s) = 50 \<and> controllers (work s) = 1"
proof -
  obtain t where t: "(load_step cpuStress)\<^sup>*\<^sup>* (load_init cpu_init) t" "res t = store_target 50 NewResourceUsage"
    "wpc t = AtSelect" "\<not> locked t"
    using alone [of "load_init cpu_init" 50 cpuStress] by (auto simp: load_init_def locked_def store_target(1) met_def)
  from cpu_load_follows [OF t(1)] t show ?thesis by auto
qed

text \<open>C40. But the converse fails: two requests that both set the target to zero while it is not can
  leave a controller running for the target zero, the first stopping the one there was and the
  second starting another, since both tested the target before either changed it.\<close>

theorem cpu_zero_race:
  "\<exists>s. (load_step cpuStress)\<^sup>*\<^sup>* (load_init cpu_init) s \<and> callers s = [Finished, Finished, Finished] \<and>
     wpc s = AtSelect \<and> target (res s) = 0 \<and> controllers (work s) = 1"
proof -
  obtain t where t: "(load_step cpuStress)\<^sup>*\<^sup>* (load_init cpu_init) t" "res t = store_target 50 NewResourceUsage"
    "wpc t = AtSelect" "\<not> locked t" "work t = cpu_target 50 cpu_init" "callers t = [Finished]"
    using alone [of "load_init cpu_init" 50 cpuStress]
    by (auto simp: load_init_def locked_def cpuStress_def NewResourceUsage_def store_target(1) met_def)
  let ?W = cpuStress
  define b where "b = t\<lparr>callers := [Finished, Tested 0, Tested 0]\<rparr>"
  have b: "\<not> locked b" "wpc b = AtSelect" using t(3) by (simp_all add: b_def locked_def)
  define c where "c = served ?W 1 0 b"
  have c: "\<not> locked c" "wpc c = AtSelect" using served_fields [where s = b] b by (simp_all add: c_def)
  have "load_step ?W t (t\<lparr>callers := [Finished, Tested 0]\<rparr>)"
    using test [OF t(4), of 0 ?W] t(2,6) by simp
  moreover have "load_step ?W (t\<lparr>callers := [Finished, Tested 0]\<rparr>) b"
    using test [of "t\<lparr>callers := [Finished, Tested 0]\<rparr>" 0 ?W] t(2) by (simp add: b_def locked_def)
  moreover have "(load_step ?W)\<^sup>*\<^sup>* b c" unfolding c_def by (rule serve [OF b]) (simp_all add: b_def)
  moreover have "(load_step ?W)\<^sup>*\<^sup>* c (served ?W 2 0 c)"
    by (rule serve [OF c]) (simp_all add: c_def b_def served_def)
  ultimately have "(load_step ?W)\<^sup>*\<^sup>* (load_init cpu_init) (served ?W 2 0 c)"
    using t(1) by (meson rtranclp.rtrancl_into_rtrancl rtranclp_trans)
  then show ?thesis
    using c(2) t(5)
    by (intro exI [of _ "served ?W 2 0 c"])
      (simp add: served_def c_def b_def cpuStress_def cpu_target_def cpu_init_def)
qed

end
