(* ===== verification/Lambda.thy ===== *)
theory Lambda
  imports HttpHandler
begin

text \<open>
  lambda.go: from the event of a load balancer to an HTTP request, and from what the handlers have
  written back to the event's response. The maps of an event are association lists in the order in
  which the range loops visit them. Parameters: the base64 decoder, and the query parser with the
  unescaped text of the query (package \<open>net/url\<close>).
\<close>

section \<open>Events\<close>

record alb_request =
  albMethod :: string
  albPath :: string
  albHeaders :: "string go_map"
  albMultiHeaders :: "string list go_map"
  albQuery :: "string go_map option"
  albMultiQuery :: "string list go_map option"
  albBase64 :: bool
  albBody :: string

record alb_response =
  outStatus :: int
  outHeaders :: "string \<rightharpoonup> string"
  outMultiHeaders :: "string \<rightharpoonup> string list"
  outBody :: string

definition multi_value_mode :: "alb_request \<Rightarrow> bool" where
  "multi_value_mode ev = (length (albMultiHeaders ev) > 0)"

definition event_body :: "(string \<Rightarrow> string option) \<Rightarrow> alb_request \<Rightarrow> string" where
  "event_body decode ev =
     (if albBase64 ev then (case decode (albBody ev) of None \<Rightarrow> albBody ev | Some decoded \<Rightarrow> decoded)
      else albBody ev)"

text \<open>\<open>Header.Add\<close> and \<open>Header.Set\<close> on a header that keeps its order.\<close>

definition add_value :: "string \<Rightarrow> string \<Rightarrow> string list go_map \<Rightarrow> string list go_map" where
  "add_value key v h =
     AList.update (header_key key)
       ((case map_of h (header_key key) of None \<Rightarrow> [] | Some vs \<Rightarrow> vs) @ [v]) h"

definition set_value :: "string \<Rightarrow> string \<Rightarrow> string list go_map \<Rightarrow> string list go_map" where
  "set_value key v h = AList.update (header_key key) [v] h"

definition event_header :: "alb_request \<Rightarrow> string list go_map" where
  "event_header ev =
     (if multi_value_mode ev
      then foldl (\<lambda>h (key, values). foldl (\<lambda>h v. add_value key v h) h values) [] (albMultiHeaders ev)
      else foldl (\<lambda>h (key, v). set_value key v h) [] (albHeaders ev))"

definition event_query :: "alb_request \<Rightarrow> string" where
  "event_query ev =
     (case (multi_value_mode ev, albMultiQuery ev, albQuery ev) of
        (True, Some q, _) \<Rightarrow> join ''&'' (concat (map (\<lambda>(key, vals). map (\<lambda>v. key @ ''='' @ v) vals) q))
      | (_, _, Some q) \<Rightarrow> join ''&'' (map (\<lambda>(key, v). key @ ''='' @ v) q)
      | _ \<Rightarrow> [])"

text \<open>The request has no host and no remote address.\<close>

definition event_request ::
  "(string \<Rightarrow> string option) \<Rightarrow> (string \<Rightarrow> string list go_map \<times> string) \<Rightarrow> alb_request \<Rightarrow> http_request" where
  "event_request decode parseQuery ev =
     \<lparr>hProto = [], hMethod = albMethod ev, hPath = albPath ev,
      hQueryText = snd (parseQuery (event_query ev)), hParams = fst (parseQuery (event_query ev)),
      hHeader = event_header ev, hHost = [], hRemote = [], hBody = event_body decode ev\<rparr>"

section \<open>Responses\<close>

text \<open>The recorder starts with status 200.\<close>

definition recorded_status :: "response \<Rightarrow> int" where
  "recorded_status resp = (if respStatus resp = 0 then 200 else respStatus resp)"

definition event_response :: "alb_request \<Rightarrow> response \<Rightarrow> alb_response" where
  "event_response ev resp =
     \<lparr>outStatus = recorded_status resp,
      outHeaders = (if multi_value_mode ev then Map.empty
        else (\<lambda>k. case respHeader resp k of Some (v # _) \<Rightarrow> Some v | _ \<Rightarrow> None)),
      outMultiHeaders = (if multi_value_mode ev then respHeader resp else Map.empty),
      outBody = respBody resp\<rparr>"

section \<open>Routes\<close>

datatype lambda_route = EnvRoute | MonitorRoute | DefaultRoute

definition lambda_router :: "string \<Rightarrow> lambda_route" where
  "lambda_router path =
     (if prefix ''/env/'' path then EnvRoute
      else if prefix ''/monitor/'' path then MonitorRoute else DefaultRoute)"

text \<open>The host's address and name are looked up by the first event that finds none.\<close>

definition init_host :: "string \<Rightarrow> string \<Rightarrow> data_store \<Rightarrow> data_store" where
  "init_host ip name st =
     (if hostIP (host st) = [] then st\<lparr>host := (host st)\<lparr>hostIP := ip, hostName := name\<rparr>\<rparr> else st)"

text \<open>An event on the default route, from event to response.\<close>

definition lambdaHandler ::
  "(string \<Rightarrow> string option) \<Rightarrow> (string \<Rightarrow> string list go_map \<times> string) \<Rightarrow> handler_env \<Rightarrow> alb_request \<Rightarrow> server \<Rightarrow>
   (alb_response \<times> http_logger \<times> server) res option" where
  "lambdaHandler decode parseQuery env ev s =
     ro_bind (lambda_default env (event_request decode parseQuery ev) s)
       (\<lambda>(resp, l, s). Some (Inr (event_response ev resp, l, s)))"

section \<open>Nothing is lost\<close>

lemma map_of_add_value:
  "map_of (add_value key v h) = (map_of h)(header_key key \<mapsto> (case map_of h (header_key key) of None \<Rightarrow> [] | Some vs \<Rightarrow> vs) @ [v])"
  by (simp add: add_value_def update_conv')

lemma add_values:
  "map_of (foldl (\<lambda>h v. add_value key v h) h ws) =
     (if ws = [] then map_of h
      else (map_of h)(header_key key \<mapsto> (case map_of h (header_key key) of None \<Rightarrow> [] | Some vs \<Rightarrow> vs) @ ws))"
  by (induction ws arbitrary: h) (auto simp: map_of_add_value fun_eq_iff)

lemma multi_header:
  assumes "distinct (map (header_key \<circ> fst) kvs)" and "\<forall>(k, vs) \<in> set kvs. vs \<noteq> []"
  shows "map_of (foldl (\<lambda>h (key, values). foldl (\<lambda>h v. add_value key v h) h values) [] kvs) =
    map_of (map (\<lambda>(k, vs). (header_key k, vs)) kvs)"
  using assms
proof (induction kvs rule: rev_induct)
  case (snoc kv kvs)
  obtain k vs where kv: "kv = (k, vs)" by (cases kv)
  let ?h = "foldl (\<lambda>h (key, values). foldl (\<lambda>h v. add_value key v h) h values) [] kvs"
  have ih: "map_of ?h = map_of (map (\<lambda>(k, vs). (header_key k, vs)) kvs)" using snoc by simp
  have "header_key k \<notin> set (map (header_key \<circ> fst) kvs)" using snoc.prems(1) kv by simp
  then have none: "map_of (map (\<lambda>(k, vs). (header_key k, vs)) kvs) (header_key k) = None"
    by (force simp: map_of_eq_None_iff image_iff)
  have "vs \<noteq> []" using snoc.prems(2) kv by simp
  then have "map_of (foldl (\<lambda>h v. add_value k v h) ?h vs) = (map_of ?h)(header_key k \<mapsto> vs)"
    using none ih by (simp add: add_values)
  moreover have "(map_of ?h)(header_key k \<mapsto> vs) = map_of (map (\<lambda>(k, vs). (header_key k, vs)) kvs @ [(header_key k, vs)])"
    using none unfolding ih by (auto simp: map_add_def fun_eq_iff split: option.splits)
  ultimately show ?case by (simp add: kv)
qed simp

lemma multi_query_split:
  assumes "albMultiQuery ev = Some q" and "multi_value_mode ev"
    and "concat (map snd q) \<noteq> []"
    and "\<forall>(k, vs) \<in> set q. CHR ''&'' \<notin> set k \<and> (\<forall>v \<in> set vs. CHR ''&'' \<notin> set v)"
  shows "split ''&'' (event_query ev) = concat (map (\<lambda>(k, vs). map (\<lambda>v. k @ ''='' @ v) vs) q)"
proof -
  let ?parts = "concat (map (\<lambda>(k, vs). map (\<lambda>v. k @ ''='' @ v) vs) q)"
  have "\<forall>w \<in> set ?parts. CHR ''&'' \<notin> set w" using assms(4) by fastforce
  moreover have "?parts \<noteq> []" using assms(3) by fastforce
  moreover have "event_query ev = join ''&'' ?parts" using assms(1,2) by (simp add: event_query_def)
  ultimately show ?thesis using split_join_single by simp
qed

text \<open>What the recorder makes of an answer: the status that the handler gives and the whole body.\<close>

lemma execAction_recorded:
  assumes "execAction env json src input result s = Some (Inr (resp, sz, status, s'))"
    and "envWriter env = Recorder" and "\<not> envHTTP11 env"
  shows "respStatus resp = status" and "int (length (respBody resp)) = sz"
proof -
  have w: "respStatus resp = status \<and> int (length (respBody resp)) = sz"
    if "write_out env json src v = Some (Inr (resp, sz, status, s'))" for v
    using that assms(2,3) writeResponse_length
    by (auto simp: write_out_def Let_def res_bind_Inr sent_status_def interim_def takes_body_def split: sum.splits)
  have "respStatus resp = status \<and> int (length (respBody resp)) = sz"
    using assms(1) w unfolding execAction_cases
    by (simp only: ro_bind_Inr split: if_splits) (auto simp: res_bind_Inr no_response_def)
  then show "respStatus resp = status" "int (length (respBody resp)) = sz" by simp_all
qed

lemma lambda_default_recorded:
  assumes "lambda_default env r s = Some (Inr (resp, l, s'))"
  shows "respStatus resp = lStatus l" and "int (length (respBody resp)) = lSize l"
proof -
  let ?env = "on_recorder env"
  obtain l0 where "defaultHandler ?env r l0 s = Some (Inr (resp, l, s'))"
    using assms by (auto simp: lambda_default_def logger_init_def Let_def)
  then have "respStatus resp = lStatus l \<and> int (length (respBody resp)) = lSize l"
  proof (rule defaultHandler_run)
    fix rq s1 result json sz code s2
    assume x: "execAction (act_env ?env r) json (hSource ?env) (validateCommands (hStore ?env) rq (hParams r)) result s1 =
        Some (Inr (resp, sz, code, s2))" and l: "l = l0\<lparr>lSize := sz, lStatus := code\<rparr>"
    have "envWriter (act_env ?env r) = Recorder" "\<not> envHTTP11 (act_env ?env r)"
      by (simp_all add: on_recorder_def act_env_def)
    from execAction_recorded [OF x this] show ?thesis by (simp add: l)
  qed
  then show "respStatus resp = lStatus l" "int (length (respBody resp)) = lSize l" by simp_all
qed


definition sample_event :: alb_request where
  "sample_event = \<lparr>albMethod = ''POST'', albPath = ''/'', albHeaders = [],
     albMultiHeaders = [(''x-forwarded-for'', [''203.0.113.9'']), (''accept'', [''a'', ''b''])],
     albQuery = None, albMultiQuery = Some [(''a'', [''1'', ''2'']), (''b'', [''3''])],
     albBase64 = False, albBody = ''abc''\<rparr>"

text \<open>The parameters of a query that no command is in.\<close>

definition no_params :: "string \<Rightarrow> string list go_map \<times> string" where
  "no_params raw = ([], raw)"


end
