(* ===== verification/Startup.thy ===== *)
theory Startup
  imports Commands NetIP "HOL-Library.State_Monad" "HOL-Library.Signed_Division"
begin

unbundle bit_operations_syntax

text \<open>
  Before the first request. init.go: the flags and their checks, the periods of the chat's pings,
  and what the server asks of the metadata services of its host; main.go: the address and the name
  of the host. The services are parameters, a function from how many calls came before and from the
  call to its reply, so that a service may answer the same call differently; a computation that
  calls them is in the state monad over that number.
\<close>

section \<open>Flags\<close>

record flags =
  fHttp :: int
  fHttps :: int
  fGrpc :: int
  fGrpcs :: int
  fTimeout :: int
  fInterval :: int
  fGrpcping :: int
  fWsping :: int
  fGrpcmaxrecvsize :: int
  fGrpcmaxsendsize :: int
  fExec :: bool
  fProxy :: bool
  fNolog :: bool

definition default_flags :: flags where
  "default_flags = \<lparr>fHttp = 80, fHttps = 443, fGrpc = 50051, fGrpcs = 50052, fTimeout = 65, fInterval = 15,
     fGrpcping = 30, fWsping = 30, fGrpcmaxrecvsize = 4194304, fGrpcmaxsendsize = 4194304,
     fExec = False, fProxy = False, fNolog = False\<rparr>"

text \<open>The message with which the program exits with status 2, if it does.\<close>

definition check_flags :: "flags \<Rightarrow> string option" where
  "check_flags f =
     (if fInterval f < 0
      then Some (''invalid value \"'' @ itoa (fInterval f) @ ''\" for flag -interval: less than zero'')
      else if fGrpcping f < 0
      then Some (''invalid value \"'' @ itoa (fGrpcping f) @ ''\" for flag -grpcping: less than zero'')
      else if fWsping f \<le> 0
      then Some (''invalid value \"'' @ itoa (fWsping f) @ ''\" for flag -wsping: zero or less'')
      else None)"

text \<open>Durations are 64-bit numbers of nanoseconds.\<close>

definition pingPeriod :: "int \<Rightarrow> int" where
  "pingPeriod wsInterval = wrap64 (wsInterval * 1000000000)"

definition pongWait :: "int \<Rightarrow> int" where
  "pongWait wsInterval = wrap64 (pingPeriod wsInterval * 10) sdiv 9"

lemma sdiv_nonneg: "0 \<le> a \<Longrightarrow> (a::int) sdiv 9 = a div 9"
  by (simp add: signed_divide_int_def sgn_if)

text \<open>The chat's ping period is, as its comment asks, less than the time it waits for a pong, for
  every accepted interval up to 922337203 seconds; above it the multiplications overflow: from
  922337204 seconds on the wait is over before it starts, and from 9223372037 the period itself is
  negative, which no ticker accepts.\<close>

theorem ping_before_pong:
  assumes "check_flags f = None" and "fWsping f \<le> 922337203"
  shows "0 < pingPeriod (fWsping f) \<and> pingPeriod (fWsping f) < pongWait (fWsping f) \<and>
    pongWait 922337204 < 0 \<and> pingPeriod 9223372037 < 0"
proof -
  let ?i = "fWsping f"
  have i: "0 < ?i" using assms(1) by (auto simp: check_flags_def split: if_splits)
  have p: "pingPeriod ?i = ?i * 1000000000"
    unfolding pingPeriod_def by (rule wrap64_id) (use i assms(2) in \<open>simp_all add: min_int64_def max_int64_def\<close>)
  moreover have "wrap64 (pingPeriod ?i * 10) = ?i * 10000000000"
    unfolding p by (subst wrap64_id) (use i assms(2) in \<open>simp_all add: min_int64_def max_int64_def\<close>)
  then have "pongWait ?i = ?i * 10000000000 div 9"
    using i by (simp add: pongWait_def sdiv_nonneg)
  moreover have "pongWait 922337204 < 0" "pingPeriod 9223372037 < 0"
    by (simp_all add: pongWait_def pingPeriod_def wrap64_def signed_divide_int_def)
  ultimately show ?thesis using i by simp
qed

theorem ping_before_pong_witness:
  "pingPeriod (fWsping default_flags) < pongWait (fWsping default_flags)"
  using ping_before_pong [of default_flags] by (simp add: default_flags_def check_flags_def)

section \<open>Metadata of the host\<close>

datatype http_call = HttpCall (callMethod: string) (callURL: string) (callHeader: "(string \<times> string) list")

text \<open>No answer, an answer whose body cannot be read, and a body.\<close>

datatype reply = NoReply | BadBody | Body string

record metadata_env =
  urlOk :: "string \<Rightarrow> bool"
  client :: "nat \<Rightarrow> http_call \<Rightarrow> reply"
  ecsURI :: string
  taskZone :: "string \<Rightarrow> string option"

definition ask :: "metadata_env \<Rightarrow> http_call \<Rightarrow> (nat, reply) state" where
  "ask env call = State (\<lambda>n. (client env n call, n + 1))"

fun body_of :: "reply \<Rightarrow> string" where
  "body_of (Body b) = b"
| "body_of _ = []"

definition token_call :: http_call where
  "token_call = HttpCall ''PUT'' ''http://169.254.169.254/latest/api/token''
     [(''X-aws-ec2-metadata-token-ttl-seconds'', ''21600'')]"

definition getMetaDataToken :: "metadata_env \<Rightarrow> (nat, string) state" where
  "getMetaDataToken env = do {
     resp \<leftarrow> ask env token_call;
     State_Monad.return (body_of resp)
   }"

definition imds_url :: "string \<Rightarrow> string" where
  "imds_url path = ''http://169.254.169.254/latest/meta-data'' @ path"

definition imds_call :: "string \<Rightarrow> string \<Rightarrow> http_call" where
  "imds_call token path = HttpCall ''GET'' (imds_url path)
     (if token \<noteq> [] then [(''X-aws-ec2-metadata-token'', token)] else [])"

definition getFromIMDS :: "metadata_env \<Rightarrow> string \<Rightarrow> (nat, string) state" where
  "getFromIMDS env path =
     (if \<not> urlOk env (imds_url path) then State_Monad.return []
      else do {
        token \<leftarrow> getMetaDataToken env;
        resp \<leftarrow> ask env (imds_call token path);
        State_Monad.return (body_of resp)
      })"

definition getMetaDataType :: "metadata_env \<Rightarrow> (nat, string) state" where
  "getMetaDataType env = do {
     az \<leftarrow> getFromIMDS env ''/placement/availability-zone'';
     if az \<noteq> [] then State_Monad.return ''ec2''
     else if ecsURI env \<noteq> [] then do {
       resp \<leftarrow> ask env (HttpCall ''GET'' (ecsURI env) []);
       State_Monad.return (if resp = NoReply then [] else ''ecs'')
     }
     else State_Monad.return []
   }"

definition getEC2MetaData :: "metadata_env \<Rightarrow> string \<Rightarrow> (nat, string) state" where
  "getEC2MetaData env field = do {
     az \<leftarrow> getFromIMDS env ''/placement/availability-zone'';
     if az = [] then State_Monad.return []
     else if field = ''availability-zone'' then State_Monad.return az
     else if field = ''region'' then State_Monad.return (butlast az)
     else if field = ''vpc-id'' then do {
       mac \<leftarrow> getFromIMDS env ''/mac'';
       getFromIMDS env (''/network/interfaces/macs/'' @ mac @ ''/vpc-id'')
     }
     else if CHR ''/'' \<notin> set field then getFromIMDS env (''/'' @ field)
     else getFromIMDS env field
   }"

definition getContainerMetadata :: "metadata_env \<Rightarrow> string \<Rightarrow> (nat, string) state" where
  "getContainerMetadata env field = do {
     resp \<leftarrow> ask env (HttpCall ''GET'' (ecsURI env @ ''/task'') []);
     State_Monad.return (case resp of Body b \<Rightarrow> (case taskZone env b of None \<Rightarrow> [] | Some az \<Rightarrow> az) | _ \<Rightarrow> [])
   }"

definition getAZ :: "metadata_env \<Rightarrow> string \<Rightarrow> (nat, string) state" where
  "getAZ env metaDataType =
     (if metaDataType = ''ec2'' then getEC2MetaData env ''availability-zone''
      else if metaDataType = ''ecs'' then getContainerMetadata env ''availability-zone''
      else State_Monad.return ''unknown'')"

text \<open>The end of \<open>init\<close>: the host so far, and whether this is an EC2 instance.\<close>

definition init_metadata :: "metadata_env \<Rightarrow> host_info \<Rightarrow> (nat, host_info \<times> bool) state" where
  "init_metadata env h = do {
     metaDataType \<leftarrow> getMetaDataType env;
     if metaDataType \<noteq> [] then do {
       az \<leftarrow> getAZ env metaDataType;
       if metaDataType = ''ec2'' then do {
         t \<leftarrow> getEC2MetaData env ''instance-type'';
         State_Monad.return (h\<lparr>hostAZ := az, hostType := t\<rparr>, True)
       }
       else State_Monad.return (h\<lparr>hostAZ := az\<rparr>, False)
     }
     else State_Monad.return (h, False)
   }"

section \<open>Address and name\<close>

text \<open>An interface address is an IP or something else; \<open>IsLoopback\<close> is 127.0.0.0/8 or ::1.\<close>

definition is_loopback :: "ip128 \<Rightarrow> bool" where
  "is_loopback ip =
     (case to4 ip of Some x \<Rightarrow> drop_bit 24 x = 127 | None \<Rightarrow> ip = 1)"

definition v4_string :: "32 word \<Rightarrow> string" where
  "v4_string x = dotted (map (\<lambda>k. uint (drop_bit k x AND 255)) [24, 16, 8, 0])"

definition getIPAddress :: "ip128 option list \<Rightarrow> string" where
  "getIPAddress addrs =
     foldl (\<lambda>currentIP a. case a of
         None \<Rightarrow> currentIP
       | Some ip \<Rightarrow>
           if is_loopback ip then currentIP
           else (case to4 ip of None \<Rightarrow> currentIP | Some x \<Rightarrow> v4_string x)) [] addrs"

lemma octet_field: "uint (drop_bit k (x :: 32 word) AND 255) = uint x div 2 ^ k mod 256"
proof -
  have "drop_bit k x AND 255 = take_bit 8 (drop_bit k x)"
    by (simp add: take_bit_eq_mask mask_eq_exp_minus_1)
  then have "uint (drop_bit k x AND 255) = take_bit 8 (drop_bit k (take_bit 32 (uint x)))"
    by (simp add: unsigned_take_bit_eq unsigned_drop_bit_eq)
  also have "take_bit 32 (uint x) = uint x"
    by (rule take_bit_int_eq_self) (use uint_lt2p [of x] in simp_all)
  finally have "uint (drop_bit k x AND 255) = take_bit 8 (drop_bit k (uint x))" .
  then show ?thesis unfolding take_bit_eq_mod drop_bit_eq_div by (simp only: power_numeral_even eval_nat_numeral) simp
qed

lemma octets_of_int:
  assumes "0 \<le> u" and "u < 4294967296"
  shows "((u div 16777216 mod 256 * 256 + u div 65536 mod 256) * 256 + u div 256 mod 256) * 256 + u mod 256 = (u :: int)"
proof -
  have "u div 65536 = u div 256 div 256" "u div 16777216 = u div 256 div 256 div 256"
    by (simp_all flip: zdiv_zmult2_eq)
  moreover have "u div 256 div 256 div 256 < 256" "0 \<le> u div 256 div 256 div 256"
    using assms by (simp_all flip: zdiv_zmult2_eq)
  ultimately show ?thesis by (simp add: mult.commute [of _ 256])
qed

lemma v4_string_dotted:
  obtains a b c d where "v4_string x = dotted [a, b, c, d]" "octet a" "octet b" "octet c" "octet d"
    "ipv4_word [a, b, c, d] = x"
proof -
  define f where "f k = uint x div 2 ^ k mod 256" for k
  have eq: "((f 24 * 256 + f 16) * 256 + f 8) * 256 + f 0 = uint x"
  proof -
    have "f 24 = uint x div 16777216 mod 256" "f 16 = uint x div 65536 mod 256"
      "f 8 = uint x div 256 mod 256" "f 0 = uint x mod 256"
      unfolding f_def by (rule arg_cong2 [where f = "(mod)"], simp, rule refl)+
    moreover have "uint x < 4294967296" using uint_lt2p [of x] by simp
    ultimately show ?thesis using octets_of_int [OF uint_ge_0, of x] by (simp only: simp_thms)
  qed
  have "ipv4_word [f 24, f 16, f 8, f 0] = x"
    unfolding ipv4_word.simps by (simp only: foldl.simps mult_zero_left add_0 eq word_of_int_uint)
  moreover have "v4_string x = dotted [f 24, f 16, f 8, f 0]"
    unfolding v4_string_def by (simp only: list.map octet_field f_def)
  moreover have "octet (f k)" for k by (simp add: octet_def f_def)
  ultimately show ?thesis using that by blast
qed

text \<open>The address found is none or that of an interface: it parses to one that is not a loopback.\<close>

lemma getIPAddress_iface:
  "getIPAddress addrs = [] \<or>
   (\<exists>ip x. Some ip \<in> set addrs \<and> \<not> is_loopback ip \<and> to4 ip = Some x \<and> parseIP (getIPAddress addrs) = Some (map_v4 x))"
proof (induction addrs rule: rev_induct)
  case (snoc a addrs)
  have parse: "parseIP (v4_string x) = Some (map_v4 x)" for x
    by (rule v4_string_dotted [of x]) (simp add: parseIP_dotted del: ipv4_word.simps)
  show ?case
  proof (cases "\<exists>ip x. a = Some ip \<and> \<not> is_loopback ip \<and> to4 ip = Some x")
    case True
    then show ?thesis by (auto simp: getIPAddress_def parse)
  next
    case False
    then have "getIPAddress (addrs @ [a]) = getIPAddress addrs"
      by (auto simp: getIPAddress_def split: option.split)
    with snoc show ?thesis by auto
  qed
qed (simp add: getIPAddress_def)

text \<open>\<open>main\<close>: what the interfaces and the kernel say, and on EC2 what the service says instead. The
  name is asked for twice.\<close>

definition main_host :: "metadata_env \<Rightarrow> ip128 option list \<Rightarrow> string \<Rightarrow> bool \<Rightarrow> host_info \<Rightarrow> (nat, host_info) state" where
  "main_host env addrs name runOnEC2 h =
     (let h = h\<lparr>hostIP := getIPAddress addrs, hostName := name\<rparr> in
      if runOnEC2 then do {
        ip \<leftarrow> getEC2MetaData env ''local-ipv4'';
        let h = (if ip \<noteq> [] then h\<lparr>hostIP := ip\<rparr> else h);
        name1 \<leftarrow> getEC2MetaData env ''local-hostname'';
        if name1 \<noteq> [] then do {
          name2 \<leftarrow> getEC2MetaData env ''local-hostname'';
          State_Monad.return (h\<lparr>hostName := name2\<rparr>)
        }
        else State_Monad.return h
      }
      else State_Monad.return h)"

definition start_host :: "metadata_env \<Rightarrow> ip128 option list \<Rightarrow> string \<Rightarrow> (nat, host_info) state" where
  "start_host env addrs name = do {
     (h, runOnEC2) \<leftarrow> init_metadata env (host NewDataStore);
     main_host env addrs name runOnEC2 h
   }"

section \<open>What the host is known as\<close>

text \<open>A service that answers the same call the same way every time, and what it then says.\<close>

definition steady :: "metadata_env \<Rightarrow> bool" where
  "steady env = (\<forall>n call. client env n call = client env 0 call)"

definition imds :: "metadata_env \<Rightarrow> string \<Rightarrow> string" where
  "imds env path =
     (if urlOk env (imds_url path)
      then body_of (client env 0 (imds_call (body_of (client env 0 token_call)) path)) else [])"

abbreviation zone_of :: "metadata_env \<Rightarrow> string" where
  "zone_of env \<equiv> imds env ''/placement/availability-zone''"

definition task_zone_of :: "metadata_env \<Rightarrow> string" where
  "task_zone_of env =
     (if ecsURI env = [] \<or> client env 0 (HttpCall ''GET'' (ecsURI env) []) = NoReply then []
      else case client env 0 (HttpCall ''GET'' (ecsURI env @ ''/task'') []) of
        Body b \<Rightarrow> (case taskZone env b of None \<Rightarrow> [] | Some az \<Rightarrow> az)
      | _ \<Rightarrow> [])"

lemma steadyD: "steady env \<Longrightarrow> client env n call = client env 0 call"
  unfolding steady_def by blast

lemma fst_ask: "steady env \<Longrightarrow> fst (run_state (ask env call) n) = client env 0 call"
  by (simp add: ask_def steadyD [of env n])

lemma fst_bind: "fst (run_state (State_Monad.bind m f) n) = fst (run_state (f (fst (run_state m n))) (snd (run_state m n)))"
  by (simp add: case_prod_beta)

lemmas run_simps = fst_bind fst_ask

lemma fst_IMDS: "steady env \<Longrightarrow> fst (run_state (getFromIMDS env path) n) = imds env path"
  by (simp add: getFromIMDS_def getMetaDataToken_def imds_def run_simps del: run_state_bind)

lemma fst_type: "steady env \<Longrightarrow> fst (run_state (getMetaDataType env) n) =
    (if zone_of env \<noteq> [] then ''ec2''
     else if ecsURI env = [] \<or> client env 0 (HttpCall ''GET'' (ecsURI env) []) = NoReply then [] else ''ecs'')"
  by (simp add: getMetaDataType_def run_simps fst_IMDS del: run_state_bind)

lemma fst_EC2: "steady env \<Longrightarrow> CHR ''/'' \<notin> set field \<Longrightarrow> field \<notin> {''availability-zone'', ''region'', ''vpc-id''} \<Longrightarrow>
    fst (run_state (getEC2MetaData env field) n) = (if zone_of env = [] then [] else imds env (''/'' @ field))"
  by (simp add: getEC2MetaData_def run_simps fst_IMDS del: run_state_bind)

lemma fst_zone: "steady env \<Longrightarrow> fst (run_state (getEC2MetaData env ''availability-zone'') n) = zone_of env"
  by (simp add: getEC2MetaData_def run_simps fst_IMDS del: run_state_bind)

lemma fst_task: "steady env \<Longrightarrow> zone_of env = [] \<Longrightarrow> fst (run_state (getMetaDataType env) n) = ''ecs'' \<Longrightarrow>
    fst (run_state (getContainerMetadata env field) m) = task_zone_of env"
  by (auto simp: getContainerMetadata_def run_simps task_zone_of_def fst_type simp del: run_state_bind split: if_splits)

lemma fst_init:
  assumes "steady env"
  shows "fst (run_state (init_metadata env h) n) =
    (if zone_of env \<noteq> [] then (h\<lparr>hostAZ := zone_of env, hostType := imds env ''/instance-type''\<rparr>, True)
     else if fst (run_state (getMetaDataType env) n) = [] then (h, False)
     else (h\<lparr>hostAZ := task_zone_of env\<rparr>, False))"
  using fst_task [OF assms] by (simp add: init_metadata_def getAZ_def run_simps fst_type fst_zone fst_EC2 assms
      del: run_state_bind)

lemma fst_main:
  assumes "steady env"
  shows "fst (run_state (main_host env addrs name runOnEC2 h) n) =
    (let ip = imds env ''/local-ipv4''; name' = imds env ''/local-hostname'';
         ec2 = (runOnEC2 \<and> zone_of env \<noteq> [])
     in h\<lparr>hostIP := (if ec2 \<and> ip \<noteq> [] then ip else getIPAddress addrs),
          hostName := (if ec2 \<and> name' \<noteq> [] then name' else name)\<rparr>)"
  by (simp add: main_host_def Let_def run_simps fst_EC2 assms del: run_state_bind)

text \<open>What the host is known as once the program has started, if the services answer the same
  call the same way every time: on EC2, which is where the instance service names a zone, its zone
  and type are the service's and so are its address and name unless the service has none; elsewhere
  the type stays empty, the address is the last one of an interface and the name the kernel's, and
  the zone is that of the container's task, if there is one.\<close>

theorem host_started:
  assumes "steady env" and "h = fst (run_state (start_host env addrs name) 0)"
  shows "(zone_of env \<noteq> [] \<longrightarrow>
      hostAZ h = zone_of env \<and> hostType h = imds env ''/instance-type'' \<and>
      hostIP h = (if imds env ''/local-ipv4'' = [] then getIPAddress addrs else imds env ''/local-ipv4'') \<and>
      hostName h = (if imds env ''/local-hostname'' = [] then name else imds env ''/local-hostname'')) \<and>
    (zone_of env = [] \<longrightarrow>
      hostAZ h = task_zone_of env \<and> hostType h = [] \<and> hostIP h = getIPAddress addrs \<and> hostName h = name)"
  using fst_init [OF assms(1)] fst_type [OF assms(1)]
  by (auto simp: assms(2) start_host_def run_simps fst_main [OF assms(1)] Let_def NewDataStore_def task_zone_of_def
      simp del: run_state_bind split: prod.splits)

text \<open>A service that knows its zone only.\<close>

definition one_zone :: metadata_env where
  "one_zone = \<lparr>urlOk = (\<lambda>_. True),
     client = (\<lambda>n call. if callURL call = imds_url ''/placement/availability-zone'' then Body ''eu-1a'' else BadBody),
     ecsURI = [], taskZone = (\<lambda>_. None)\<rparr>"

theorem host_started_witness:
  "hostAZ (fst (run_state (start_host one_zone [] ''box'') 0)) = ''eu-1a'' \<and>
   hostName (fst (run_state (start_host one_zone [] ''box'') 0)) = ''box''"
proof -
  have s: "steady one_zone" by (simp add: steady_def one_zone_def)
  have z: "zone_of one_zone = ''eu-1a''" "imds one_zone ''/local-hostname'' = []"
    by (simp_all add: imds_def one_zone_def imds_call_def imds_url_def)
  show ?thesis using host_started [OF s refl, of "[]" "''box''"] z by simp
qed

text \<open>The name is asked for twice: a service that stops answering in between leaves the host with no
  name, although it had given one.\<close>

lemma name_lost:
  "\<exists>env n. fst (run_state (getEC2MetaData env ''local-hostname'') n) \<noteq> [] \<and>
     hostName (fst (run_state (main_host env [] ''box'' True h) 0)) = []"
proof -
  define env where "env = \<lparr>urlOk = (\<lambda>_. True), client = (\<lambda>n call. if n < 8 then Body ''x'' else NoReply),
     ecsURI = [], taskZone = (\<lambda>_. None)\<rparr>"
  have "fst (run_state (getEC2MetaData env ''local-hostname'') 0) = ''x''"
    by (simp add: env_def getEC2MetaData_def getFromIMDS_def getMetaDataToken_def ask_def)
  moreover have "hostName (fst (run_state (main_host env [] ''box'' True h) 0)) = []"
    by (simp add: env_def main_host_def Let_def getEC2MetaData_def getFromIMDS_def getMetaDataToken_def ask_def)
  ultimately show ?thesis by (metis list.distinct(1))
qed

end
