(* ===== verification/ServerStart.thy ===== *)
theory ServerStart
  imports Startup Routes
begin

text \<open>
  main.go and grpc.go: what is started from the flags and the environment. The routes of the HTTP
  servers and how the router of \<open>net/http\<close> picks one, the configurations that are handed to the
  servers, which are the libraries' own, and the program from its \<open>init\<close> to the process that runs.
\<close>

section \<open>Routes\<close>

datatype http_route = ExecHandler | StopHandler | EnvHandler | FilesHandler | WsHandler | MonitorHandler | DefaultHandler

text \<open>Which counting and logging goes around a handler.\<close>

datatype wrapper = Counted | CountedNoLog | Bare

definition routes :: "bool \<Rightarrow> (string \<times> wrapper \<times> http_route) list" where
  "routes execFlag =
     (if execFlag then [(''/exec/'', Counted, ExecHandler)] else []) @
     [(''/stop/'', Bare, StopHandler), (''/env/'', Counted, EnvHandler), (''/files/'', Counted, FilesHandler),
      (''/chat/'', Counted, FilesHandler), (''/ws/'', Bare, WsHandler), (''/monitor/'', CountedNoLog, MonitorHandler),
      (''/'', Counted, DefaultHandler)]"

text \<open>The router for a clean path: every pattern ends in a slash and matches the paths below it, the
  longest one wins; a path that only lacks the slash of a pattern is redirected there.\<close>

datatype routed = Handle wrapper http_route | Redirect string

fun longest :: "(string \<times> 'a) list \<Rightarrow> (string \<times> 'a) option" where
  "longest [] = None"
| "longest (x # xs) =
     (case longest xs of
        None \<Rightarrow> Some x
      | Some y \<Rightarrow> if length (fst x) \<ge> length (fst y) then Some x else Some y)"

definition mux :: "bool \<Rightarrow> string \<Rightarrow> routed option" where
  "mux execFlag path =
     (if path \<notin> fst ` set (routes execFlag) \<and> path @ ''/'' \<in> fst ` set (routes execFlag)
      then Some (Redirect (path @ ''/''))
      else map_option (\<lambda>(_, w, h). Handle w h) (longest (filter (\<lambda>(p, _). prefix p path) (routes execFlag))))"

lemma longest_some:
  "xs \<noteq> [] \<Longrightarrow> \<exists>x \<in> set xs. longest xs = Some x \<and> (\<forall>y \<in> set xs. length (fst y) \<le> length (fst x))"
proof (induction xs)
  case (Cons x xs)
  show ?case
  proof (cases "xs = []")
    case False
    with Cons.IH obtain y where "y \<in> set xs" "longest xs = Some y" "\<forall>z \<in> set xs. length (fst z) \<le> length (fst y)"
      by blast
    then show ?thesis by fastforce
  qed simp
qed simp

lemma mux_pick:
  assumes "prefix ''/'' path"
  obtains p w h where "longest (filter (\<lambda>(p, _). prefix p path) (routes execFlag)) = Some (p, w, h)"
    "(p, w, h) \<in> set (routes execFlag)" "prefix p path"
    "\<forall>q \<in> fst ` set (routes execFlag). prefix q path \<longrightarrow> length q \<le> length p"
proof -
  let ?m = "filter (\<lambda>(p, _). prefix p path) (routes execFlag)"
  have "(''/'', Counted, DefaultHandler) \<in> set (routes execFlag)" by (simp add: routes_def)
  then have "(''/'', Counted, DefaultHandler) \<in> set ?m" using assms by simp
  then have "?m \<noteq> []" by (metis empty_iff list.set(1))
  from longest_some [OF this] obtain x where
    x: "x \<in> set ?m" "longest ?m = Some x" "\<forall>y \<in> set ?m. length (fst y) \<le> length (fst x)" by blast
  obtain p w h where e: "x = (p, w, h)" by (cases x)
  have "\<forall>q \<in> fst ` set (routes execFlag). prefix q path \<longrightarrow> length q \<le> length p"
  proof (intro ballI impI)
    fix q assume "q \<in> fst ` set (routes execFlag)" "prefix q path"
    then obtain y where "y \<in> set (routes execFlag)" "fst y = q" by blast
    with \<open>prefix q path\<close> have "y \<in> set ?m" by (cases y) simp
    with x(3) e \<open>fst y = q\<close> show "length q \<le> length p" by fastforce
  qed
  with that x e show thesis by simp
qed

text \<open>Every clean path is served by the handler of the longest pattern above it, or redirected to a
  pattern.\<close>

theorem mux_total:
  assumes "prefix ''/'' path"
  shows "(\<exists>p w h. mux execFlag path = Some (Handle w h) \<and> (p, w, h) \<in> set (routes execFlag) \<and> prefix p path \<and>
      (\<forall>q \<in> fst ` set (routes execFlag). prefix q path \<longrightarrow> length q \<le> length p)) \<or>
    (path @ ''/'' \<in> fst ` set (routes execFlag) \<and> mux execFlag path = Some (Redirect (path @ ''/'')))"
proof (cases "path \<notin> fst ` set (routes execFlag) \<and> path @ ''/'' \<in> fst ` set (routes execFlag)")
  case True
  then have "mux execFlag path = Some (Redirect (path @ ''/''))" unfolding mux_def by (rule if_P)
  with True show ?thesis by blast
next
  case False
  obtain p w h where l: "longest (filter (\<lambda>(p, _). prefix p path) (routes execFlag)) = Some (p, w, h)"
    "(p, w, h) \<in> set (routes execFlag)" "prefix p path"
    "\<forall>q \<in> fst ` set (routes execFlag). prefix q path \<longrightarrow> length q \<le> length p"
    using mux_pick [OF assms] .
  have "mux execFlag path = Some (Handle w h)"
    unfolding mux_def if_not_P [OF False] l(1) by simp
  with l show ?thesis by blast
qed

text \<open>Commands are run only by a server that was started for it, and then only below \<open>/exec/\<close>.\<close>

lemma mux_exec:
  assumes "mux execFlag path = Some (Handle w ExecHandler)" and "prefix ''/'' path"
  shows "execFlag \<and> prefix ''/exec/'' path"
proof -
  obtain p v h where l: "longest (filter (\<lambda>(p, _). prefix p path) (routes execFlag)) = Some (p, v, h)"
    "(p, v, h) \<in> set (routes execFlag)" "prefix p path"
    using mux_pick [OF assms(2)] .
  have "h = ExecHandler" using assms(1) l(1) by (simp add: mux_def split: if_splits)
  with l(2) have "execFlag \<and> p = ''/exec/''" by (auto simp: routes_def split: if_splits)
  with l(3) show ?thesis by blast
qed

section \<open>Servers\<close>

text \<open>The configuration of an HTTP server; \<open>ErrorLog\<close> discards what it is given.\<close>

record http_conf =
  hAddr :: string
  hIdleTimeout :: int
  hTLS :: bool
  hProxyProtocol :: bool

definition seconds :: "int \<Rightarrow> int" where
  "seconds n = wrap64 (n * 1000000000)"

definition http_servers :: "flags \<Rightarrow> http_conf list" where
  "http_servers f =
     [\<lparr>hAddr = '':'' @ itoa (fHttps f), hIdleTimeout = seconds (fTimeout f), hTLS = True, hProxyProtocol = fProxy f\<rparr>,
      \<lparr>hAddr = '':'' @ itoa (fHttp f), hIdleTimeout = seconds (fTimeout f), hTLS = False, hProxyProtocol = fProxy f\<rparr>]"

text \<open>The configuration of a gRPC server: its limits, the pings, and the probes of its listener.\<close>

record grpc_conf =
  gAddr :: string
  gTLS :: bool
  gMaxSend :: int
  gMaxRecv :: int
  gPingTime :: int
  gKeepAlive :: int

definition grpc_servers :: "flags \<Rightarrow> grpc_conf list" where
  "grpc_servers f =
     (let keepAlive = (if fInterval f = 0 then - 1 else seconds (fInterval f));
          conf = (\<lambda>port tls. \<lparr>gAddr = '':'' @ itoa port, gTLS = tls, gMaxSend = fGrpcmaxsendsize f,
            gMaxRecv = fGrpcmaxrecvsize f, gPingTime = seconds (fGrpcping f), gKeepAlive = keepAlive\<rparr>)
      in [conf (fGrpc f) False, conf (fGrpcs f) True])"

text \<open>A server that has stopped serving: the program goes on after a shutdown and exits on an error.\<close>

datatype serve_end = ServedFine | ServerClosed | ServeFailed

definition http_ended :: "serve_end \<Rightarrow> bool" where
  "http_ended e = (e = ServeFailed)"

definition grpc_ended :: "serve_end \<Rightarrow> bool" where
  "grpc_ended e = (e \<noteq> ServedFine)"

section \<open>Wrappers\<close>

text \<open>\<open>noLogHandlerWrapper\<close> counts as \<open>handlerWrapper\<close> does, without the request's number and log.\<close>

definition noLogHandlerWrapper ::
  "int64 \<Rightarrow> (http_request \<Rightarrow> server \<Rightarrow> (string \<times> server) res) \<Rightarrow> http_request \<Rightarrow> server \<Rightarrow> (string \<times> server) res" where
  "noLogHandlerWrapper now fn r s =
     (let ip = extractIPAddress (hRemote r) in
      res_bind (active_start now (hRemote r) (net s)) (\<lambda>w.
      res_bind (fn r (s\<lparr>net := w\<rparr>)) (\<lambda>(out, s).
      res_bind (active_end now ip (net s)) (\<lambda>w. Inr (out, s\<lparr>net := w\<rparr>)))))"

section \<open>Listening\<close>

text \<open>Behind the PROXY protocol: a port that cannot be listened on is a panic, not an error. The
  listener and how it is served are parameters.\<close>

definition PPWrapListenAndServe ::
  "(string \<Rightarrow> 'l option) \<Rightarrow> (bool \<Rightarrow> 'l \<Rightarrow> serve_end) \<Rightarrow> http_conf \<Rightarrow> serve_end option" where
  "PPWrapListenAndServe listen serve conf =
     (case listen (hAddr conf) of
        None \<Rightarrow> None
      | Some ln \<Rightarrow> Some (if hTLS conf then serve True ln else serve False ln))"

section \<open>The process\<close>

text \<open>What runs after the start: the store and whether there are access logs, the goroutines of the
  load, and the servers with their routes; a Lambda function has no servers.\<close>

record process =
  pLambda :: bool
  pStore :: data_store
  pLogging :: bool
  pLoad :: bool
  pRoutes :: "(string \<times> wrapper \<times> http_route) list"
  pHttp :: "http_conf list"
  pGrpc :: "grpc_conf list"

definition main ::
  "metadata_env \<Rightarrow> ip128 option list \<Rightarrow> string \<Rightarrow> bool \<Rightarrow> bool \<Rightarrow> flags \<Rightarrow> bool \<Rightarrow> data_store \<Rightarrow> (nat, process) state" where
  "main env addrs name inLambda linux f runOnEC2 st =
     (if inLambda then
        State_Monad.return \<lparr>pLambda = True, pStore = lambda_store st, pLogging = True, pLoad = False,
          pRoutes = [], pHttp = [], pGrpc = []\<rparr>
      else do {
        h \<leftarrow> main_host env addrs name runOnEC2 (host st);
        State_Monad.return \<lparr>pLambda = False, pStore = st\<lparr>host := h\<rparr>, pLogging = (\<not> fNolog f), pLoad = linux,
          pRoutes = routes (fExec f), pHttp = http_servers f, pGrpc = grpc_servers f\<rparr>
      })"

text \<open>The package's \<open>init\<close> comes first; it ends the process if a flag is out of range.\<close>

definition program ::
  "metadata_env \<Rightarrow> ip128 option list \<Rightarrow> string \<Rightarrow> bool \<Rightarrow> bool \<Rightarrow> flags \<Rightarrow> (nat, string + process) state" where
  "program env addrs name inLambda linux f =
     (case check_flags f of
        Some message \<Rightarrow> State_Monad.return (Inl message)
      | None \<Rightarrow> do {
          (h, runOnEC2) \<leftarrow> init_metadata env (host NewDataStore);
          p \<leftarrow> main env addrs name inLambda linux f runOnEC2 (NewDataStore\<lparr>host := h\<rparr>);
          State_Monad.return (Inr p)
        })"

lemma fst_return [simp]: "fst (run_state (State_Monad.return x) n) = x"
  by (simp add: State_Monad.return_def)

text \<open>What \<open>main\<close> starts once it knows the host.\<close>

definition process_of :: "bool \<Rightarrow> bool \<Rightarrow> flags \<Rightarrow> data_store \<Rightarrow> host_info \<Rightarrow> process" where
  "process_of inLambda linux f st h =
     (if inLambda then \<lparr>pLambda = True, pStore = lambda_store st, pLogging = True, pLoad = False,
        pRoutes = [], pHttp = [], pGrpc = []\<rparr>
      else \<lparr>pLambda = False, pStore = st\<lparr>host := h\<rparr>, pLogging = (\<not> fNolog f), pLoad = linux,
        pRoutes = routes (fExec f), pHttp = http_servers f, pGrpc = grpc_servers f\<rparr>)"

lemma main_shape:
  "\<exists>h. fst (run_state (main env addrs name inLambda linux f ec2 st) n) = process_of inLambda linux f st h"
  by (auto simp: main_def process_of_def fst_bind simp del: run_state_bind)

lemma program_shape:
  assumes "fst (run_state (program env addrs name inLambda linux f) n) = Inr p"
  obtains h h' where "check_flags f = None" and "p = process_of inLambda linux f (NewDataStore\<lparr>host := h\<rparr>) h'"
proof (cases "check_flags f")
  case None
  define m where "m = run_state (init_metadata env (host NewDataStore)) n"
  obtain h ec2 k where m': "m = ((h, ec2), k)" by (cases m) auto
  have "p = fst (run_state (main env addrs name inLambda linux f ec2 (NewDataStore\<lparr>host := h\<rparr>)) k)"
    using assms None m' by (simp add: program_def fst_bind m_def del: run_state_bind)
  with main_shape [of env addrs name inLambda linux f ec2 "NewDataStore\<lparr>host := h\<rparr>" k] show thesis
    by (metis None that)
next
  case (Some msg)
  with assms show thesis by (simp add: program_def)
qed

lemma http_store_lambda [simp]: "http_store (lambda_store (NewDataStore\<lparr>host := h\<rparr>))"
  using store_ok_NewDataStore
  by (auto simp: http_store_def lambda_store_def store_ok_def NewDataStore_def map_le_def split: if_splits)

text \<open>However the program is started, its requests are validated by no more than the patterns of the
  default route; a Lambda function knows no resource commands and starts no goroutine for them; the
  servers run commands only with the flag, and all four use the flags' ports.\<close>

theorem program_started:
  assumes "fst (run_state (program env addrs name inLambda linux f) n) = Inr p"
  shows "http_store (pStore p) \<and> pLambda p = inLambda \<and>
    (inLambda \<longrightarrow> vHttp (pStore p) ''cpu'' = None \<and> vHttp (pStore p) ''memory'' = None \<and> \<not> pLoad p) \<and>
    ((''/exec/'', Counted, ExecHandler) \<in> set (pRoutes p) \<longleftrightarrow> fExec f \<and> \<not> inLambda) \<and>
    map hAddr (pHttp p) @ map gAddr (pGrpc p) =
      (if inLambda then [] else map (\<lambda>port. '':'' @ itoa port) [fHttps f, fHttp f, fGrpc f, fGrpcs f]) \<and>
    0 \<le> fInterval f \<and> 0 \<le> fGrpcping f \<and> 0 < fWsping f"
proof -
  obtain h h' where c: "check_flags f = None" and p: "p = process_of inLambda linux f (NewDataStore\<lparr>host := h\<rparr>) h'"
    using program_shape [OF assms] .
  have "\<not> fInterval f < 0" "\<not> fGrpcping f < 0" "\<not> fWsping f \<le> 0"
    using c by (auto simp: check_flags_def split: if_splits)
  moreover have "http_store (pStore p)" by (simp add: p process_of_def)
  moreover have "vHttp (lambda_store st) ''cpu'' = None \<and> vHttp (lambda_store st) ''memory'' = None" for st
    by (simp add: lambda_store_def)
  ultimately show ?thesis by (simp add: p process_of_def routes_def http_servers_def grpc_servers_def Let_def)
qed

end
