(* ===== verification/Shutdown.thy ===== *)
theory Shutdown
  imports Prelude
begin

text \<open>
  main.go: \<open>stopHandler\<close> and the goroutines of a graceful stop, one per server that was started and
  one that waits for them. The servers are those of the libraries, of which the model has what their
  documentation says: \<open>GracefulStop\<close> and \<open>Shutdown\<close> return once no request is in flight on the
  server's connections, \<open>Stop\<close> ends the requests, \<open>Shutdown\<close> gives up when its context is done and
  leaves them, and a connection that was hijacked (h2c, WebSocket) is neither waited for nor closed.
\<close>

section \<open>Servers\<close>

datatype srv_kind = GrpcSrv | HttpSrv

text \<open>A server with the requests in flight on its own connections and on hijacked ones, those that
  were cut, and whether its goroutine has called \<open>wg.Done\<close>.\<close>

record srv =
  srvKind :: srv_kind
  inFlight :: nat
  hijacked :: nat
  cut :: nat
  stopped :: bool

record stop_state =
  srvs :: "srv list"
  expired :: bool
  gone :: bool

definition at_srv :: "nat \<Rightarrow> (srv \<Rightarrow> srv) \<Rightarrow> stop_state \<Rightarrow> stop_state" where
  "at_srv i f s = s\<lparr>srvs := (srvs s)[i := f (srvs s ! i)]\<rparr>"

text \<open>What a request to \<open>/stop/\<close> does: an exit at once unless the query has the key \<open>graceful\<close>; else
  an empty answer and the goroutines, for the servers that are not nil.\<close>

datatype stop_outcome = ExitNow | Stopping stop_state

definition new_srv :: "srv_kind \<Rightarrow> nat \<times> nat \<Rightarrow> srv" where
  "new_srv k n = \<lparr>srvKind = k, inFlight = fst n, hijacked = snd n, cut = 0, stopped = False\<rparr>"

definition started_srvs ::
  "(nat \<times> nat) option \<Rightarrow> (nat \<times> nat) option \<Rightarrow> (nat \<times> nat) option \<Rightarrow> (nat \<times> nat) option \<Rightarrow> srv list" where
  "started_srvs grpcSrv grpcsSrv httpSrv httpsSrv =
     List.map_filter (map_option (new_srv GrpcSrv)) [grpcSrv, grpcsSrv] @
     List.map_filter (map_option (new_srv HttpSrv)) [httpSrv, httpsSrv]"

definition stop_init :: "srv list \<Rightarrow> stop_state" where
  "stop_init ss = \<lparr>srvs = ss, expired = False, gone = False\<rparr>"

definition stopHandler :: "string list \<Rightarrow> srv list \<Rightarrow> stop_outcome" where
  "stopHandler queryKeys ss =
     (if ''graceful'' \<notin> set queryKeys then ExitNow else Stopping (stop_init ss))"

section \<open>Steps\<close>

text \<open>The steps of the goroutines: the context's deadline, a server whose requests have ended, one
  whose time is up, and the exit of the program when the wait group is empty. A \<open>select\<close> of two
  ready cases may take either.\<close>

definition finish :: "srv \<Rightarrow> srv" where
  "finish v = v\<lparr>stopped := True\<rparr>"

definition force :: "srv \<Rightarrow> srv" where
  "force v = v\<lparr>stopped := True, inFlight := 0, cut := cut v + inFlight v\<rparr>"

inductive stop_step :: "stop_state \<Rightarrow> stop_state \<Rightarrow> bool" where
  deadline: "\<not> expired s \<Longrightarrow> \<not> gone s \<Longrightarrow> stop_step s (s\<lparr>expired := True\<rparr>)"
| drained: "\<not> gone s \<Longrightarrow> i < length (srvs s) \<Longrightarrow> \<not> stopped (srvs s ! i) \<Longrightarrow> inFlight (srvs s ! i) = 0 \<Longrightarrow>
    stop_step s (at_srv i finish s)"
| forced: "\<not> gone s \<Longrightarrow> i < length (srvs s) \<Longrightarrow> \<not> stopped (srvs s ! i) \<Longrightarrow> expired s \<Longrightarrow>
    srvKind (srvs s ! i) = GrpcSrv \<Longrightarrow> stop_step s (at_srv i force s)"
| given_up: "\<not> gone s \<Longrightarrow> i < length (srvs s) \<Longrightarrow> \<not> stopped (srvs s ! i) \<Longrightarrow> expired s \<Longrightarrow>
    srvKind (srvs s ! i) = HttpSrv \<Longrightarrow> stop_step s (at_srv i finish s)"
| leave: "\<not> gone s \<Longrightarrow> \<forall>v \<in> set (srvs s). stopped v \<Longrightarrow> stop_step s (s\<lparr>gone := True\<rparr>)"

text \<open>Requests end meanwhile, and on hijacked connections new ones may come.\<close>

inductive client_step :: "stop_state \<Rightarrow> stop_state \<Rightarrow> bool" where
  request_end: "\<not> gone s \<Longrightarrow> i < length (srvs s) \<Longrightarrow> inFlight (srvs s ! i) = Suc n \<Longrightarrow>
    client_step s (at_srv i (\<lambda>v. v\<lparr>inFlight := n\<rparr>) s)"
| hijacked_any: "\<not> gone s \<Longrightarrow> i < length (srvs s) \<Longrightarrow> client_step s (at_srv i (\<lambda>v. v\<lparr>hijacked := n\<rparr>) s)"

text \<open>A run with the number of the goroutines' own steps.\<close>

inductive stop_run :: "nat \<Rightarrow> stop_state \<Rightarrow> stop_state \<Rightarrow> bool" where
  start: "stop_run 0 s s"
| own: "stop_run n s t \<Longrightarrow> stop_step t u \<Longrightarrow> stop_run (Suc n) s u"
| other: "stop_run n s t \<Longrightarrow> client_step t u \<Longrightarrow> stop_run n s u"

section \<open>Nothing is cut before the deadline\<close>

definition waits :: "stop_state \<Rightarrow> bool" where
  "waits s = ((\<not> expired s \<longrightarrow> (\<forall>v \<in> set (srvs s). cut v = 0 \<and> (stopped v \<longrightarrow> inFlight v = 0))) \<and>
    (\<forall>v \<in> set (srvs s). srvKind v = GrpcSrv \<longrightarrow> stopped v \<longrightarrow> inFlight v = 0) \<and>
    (gone s \<longrightarrow> (\<forall>v \<in> set (srvs s). stopped v)))"

lemma all_at_srv:
  assumes "\<forall>v \<in> set (srvs s). P v" and "i < length (srvs s)" and "P (srvs s ! i) \<Longrightarrow> Q (f (srvs s ! i))"
    and "\<And>v. P v \<Longrightarrow> Q v"
  shows "\<forall>v \<in> set (srvs (at_srv i f s)). Q v"
  using assms by (auto simp: at_srv_def dest!: set_update_subset_insert [THEN subsetD])

lemma at_srv_fields [simp]:
  "expired (at_srv i f s) = expired s" "gone (at_srv i f s) = gone s"
  "srvs (at_srv i f s) = (srvs s)[i := f (srvs s ! i)]"
  by (simp_all add: at_srv_def)

lemma waits_step: "waits s \<Longrightarrow> stop_step s t \<or> client_step s t \<Longrightarrow> waits t"
proof (elim disjE)
  assume w: "waits s"
  {
    assume "stop_step s t"
    then show "waits t" using w
      by cases (auto simp: waits_def finish_def force_def dest!: set_update_subset_insert [THEN subsetD])
  next
    assume "client_step s t"
    then show "waits t" using w
      by cases (fastforce simp: waits_def dest!: set_update_subset_insert [THEN subsetD] dest: nth_mem)+
  }
qed

interpretation stop: invariant_system "\<lambda>s t. stop_step s t \<or> client_step s t" waits
  by unfold_locales (rule waits_step)

lemma run_steps: "stop_run n s t \<Longrightarrow> (\<lambda>s t. stop_step s t \<or> client_step s t)\<^sup>*\<^sup>* s t"
  by (induction rule: stop_run.induct) (auto elim: rtranclp.rtrancl_into_rtrancl)

lemma waits_init:
  "\<forall>v \<in> set ss. \<not> stopped v \<and> cut v = 0 \<Longrightarrow> waits (stop_init ss)"
  by (auto simp: waits_def stop_init_def)

lemma started_fresh: "v \<in> set (started_srvs g gs h hs) \<Longrightarrow> \<not> stopped v \<and> cut v = 0"
  by (auto simp: started_srvs_def List.map_filter_def new_srv_def split: if_splits)



section \<open>The program exits\<close>

definition left_to_do :: "stop_state \<Rightarrow> nat" where
  "left_to_do s = length (filter (\<lambda>v. \<not> stopped v) (srvs s)) + (if expired s then 0 else 1) + (if gone s then 0 else 1)"

lemma open_update:
  assumes "i < length ss"
  shows "length (filter P (ss[i := v])) + (if P (ss ! i) then 1 else 0) = length (filter P ss) + (if P v then 1 else 0)"
  using assms
proof (induction ss arbitrary: i)
  case (Cons a ss)
  then show ?case by (cases i) auto
qed simp

lemma left_own: "stop_step s t \<Longrightarrow> Suc (left_to_do t) = left_to_do s"
proof (induction rule: stop_step.induct)
  case (drained s i)
  then show ?case using open_update [OF drained(2), of "\<lambda>v. \<not> stopped v"]
    by (simp add: left_to_do_def finish_def)
next
  case (forced s i)
  then show ?case using open_update [OF forced(2), of "\<lambda>v. \<not> stopped v"]
    by (simp add: left_to_do_def force_def)
next
  case (given_up s i)
  then show ?case using open_update [OF given_up(2), of "\<lambda>v. \<not> stopped v"]
    by (simp add: left_to_do_def finish_def)
qed (auto simp: left_to_do_def)

lemma left_other: "client_step s t \<Longrightarrow> left_to_do t = left_to_do s"
proof (induction rule: client_step.induct)
  case (request_end s i n)
  then show ?case
    using open_update [OF request_end(2), of "\<lambda>v. \<not> stopped v" "(srvs s ! i)\<lparr>inFlight := n\<rparr>"]
    by (simp add: left_to_do_def split: if_splits)
next
  case (hijacked_any s i n)
  then show ?case
    using open_update [OF hijacked_any(2), of "\<lambda>v. \<not> stopped v" "(srvs s ! i)\<lparr>hijacked := n\<rparr>"]
    by (simp add: left_to_do_def split: if_splits)
qed

lemma left_run: "stop_run n s t \<Longrightarrow> n + left_to_do t = left_to_do s"
  by (induction rule: stop_run.induct) (auto simp: left_other dest: left_own)

lemma gone_done: "\<not> stop_step s t" if "gone s"
  using that by (auto elim: stop_step.cases)

lemma can_stop: "\<exists>t. stop_step s t" if "\<not> gone s"
proof (cases "expired s \<and> (\<exists>v \<in> set (srvs s). \<not> stopped v)")
  case True
  then obtain i where i: "i < length (srvs s)" "\<not> stopped (srvs s ! i)" by (metis in_set_conv_nth)
  show ?thesis
  proof (cases "srvKind (srvs s ! i)")
    case GrpcSrv
    with True that i have "stop_step s (at_srv i force s)" by (intro forced) simp_all
    then show ?thesis ..
  next
    case HttpSrv
    with True that i have "stop_step s (at_srv i finish s)" by (intro given_up) simp_all
    then show ?thesis ..
  qed
next
  case False
  then show ?thesis using that deadline leave by blast
qed



end
