(* ===== verification/Proc.thy ===== *)
theory Proc
  imports Resource "HOL-Library.Word"
begin

text \<open>
  memory.go and cpu.go: what the server reads in \<open>/proc/meminfo\<close> and \<open>/proc/stat\<close>, and the loop that
  places load on the CPU. A file is the list of its lines as the scanner gives them. Go's floats
  are a parameter: a type with the operations that the code uses.
\<close>

record 'f float_ops =
  f_of :: "int \<Rightarrow> 'f"
  f_parse :: "string \<Rightarrow> 'f option"
  f_add :: "'f \<Rightarrow> 'f \<Rightarrow> 'f"
  f_sub :: "'f \<Rightarrow> 'f \<Rightarrow> 'f"
  f_mul :: "'f \<Rightarrow> 'f \<Rightarrow> 'f"
  f_div :: "'f \<Rightarrow> 'f \<Rightarrow> 'f"
  f_less :: "'f \<Rightarrow> 'f \<Rightarrow> bool"
  f_eq :: "'f \<Rightarrow> 'f \<Rightarrow> bool"
  f_int :: "'f \<Rightarrow> int"

section \<open>Memory\<close>

text \<open>A line is a name, a colon and a value in kB; others are skipped.\<close>

definition is_kB :: "char \<Rightarrow> bool" where
  "is_kB c = (c \<in> {CHR ''k'', CHR ''B''})"

definition mem_line :: "string \<Rightarrow> (string \<times> string) option" where
  "mem_line line =
     (if CHR '':'' \<in> set line
      then Some (takeWhile (\<lambda>c. c \<noteq> CHR '':'') line,
                 trim_space (trim_right is_kB (tl (dropWhile (\<lambda>c. c \<noteq> CHR '':'') line))))
      else None)"

text \<open>The total in bytes; \<open>None\<close> is the error of a file without it.\<close>

fun getMemoryTotal :: "string list \<Rightarrow> int option" where
  "getMemoryTotal [] = None"
| "getMemoryTotal (line # lines) =
     (case mem_line line of
        Some (name, val) \<Rightarrow>
          if name = ''MemTotal'' \<and> snd (atoi val) then Some (wrap64 (fst (atoi val) * 1024))
          else getMemoryTotal lines
      | None \<Rightarrow> getMemoryTotal lines)"

text \<open>\<open>memTotal / 100\<close>, for a total that is not negative.\<close>

definition allocUnit :: "string list \<Rightarrow> nat option" where
  "allocUnit lines = map_option (\<lambda>t. nat (t div 100)) (getMemoryTotal lines)"

record 'f stats =
  mTotal :: 'f
  mFree :: 'f
  mAvailable :: 'f
  mBuffers :: 'f
  mCached :: 'f
  mActive :: 'f
  mInactive :: 'f
  mSwapCached :: 'f
  mSwapTotal :: 'f
  mSwapFree :: 'f
  mUsed :: 'f
  mSwapUsed :: 'f

definition no_stats :: "'f float_ops \<Rightarrow> 'f stats" where
  "no_stats F =
     (let z = f_of F 0 in
      \<lparr>mTotal = z, mFree = z, mAvailable = z, mBuffers = z, mCached = z, mActive = z, mInactive = z,
       mSwapCached = z, mSwapTotal = z, mSwapFree = z, mUsed = z, mSwapUsed = z\<rparr>)"

text \<open>The table \<open>memStats\<close> of pointers into the record.\<close>

definition set_stat :: "string \<Rightarrow> 'f \<Rightarrow> 'f stats \<Rightarrow> 'f stats" where
  "set_stat fld v m =
     (if fld = ''MemTotal'' then m\<lparr>mTotal := v\<rparr>
      else if fld = ''MemFree'' then m\<lparr>mFree := v\<rparr>
      else if fld = ''MemAvailable'' then m\<lparr>mAvailable := v\<rparr>
      else if fld = ''Buffers'' then m\<lparr>mBuffers := v\<rparr>
      else if fld = ''Cached'' then m\<lparr>mCached := v\<rparr>
      else if fld = ''Active'' then m\<lparr>mActive := v\<rparr>
      else if fld = ''Inactive'' then m\<lparr>mInactive := v\<rparr>
      else if fld = ''SwapCached'' then m\<lparr>mSwapCached := v\<rparr>
      else if fld = ''SwapTotal'' then m\<lparr>mSwapTotal := v\<rparr>
      else if fld = ''SwapFree'' then m\<lparr>mSwapFree := v\<rparr>
      else m)"

definition mem_step :: "'f float_ops \<Rightarrow> 'f stats \<Rightarrow> string \<Rightarrow> 'f stats" where
  "mem_step F m line =
     (case mem_line line of
        None \<Rightarrow> m
      | Some (fld, val) \<Rightarrow>
          (case f_parse F val of None \<Rightarrow> m | Some v \<Rightarrow> set_stat fld (f_mul F v (f_of F 1024)) m))"

definition mem_stats :: "'f float_ops \<Rightarrow> string list \<Rightarrow> 'f stats" where
  "mem_stats F lines =
     (let m = foldl (mem_step F) (no_stats F) lines;
          m = m\<lparr>mSwapUsed := f_sub F (mSwapTotal m) (mSwapFree m)\<rparr>
      in m\<lparr>mUsed := f_sub F (mTotal m) (mAvailable m)\<rparr>)"

text \<open>The usage that a tick of \<open>procMeminfoParser\<close> stores.\<close>

definition memory_usage :: "'f float_ops \<Rightarrow> string list \<Rightarrow> 'f" where
  "memory_usage F lines =
     (let m = mem_stats F lines in f_div F (f_mul F (mUsed m) (f_of F 100)) (mTotal m))"

section \<open>CPU\<close>

text \<open>\<open>strings.Fields\<close> and \<open>strconv.ParseUint\<close> without its error: 0 for what is no number, the
  largest number for one that does not fit.\<close>

fun go_fields :: "string \<Rightarrow> string \<Rightarrow> string list" where
  "go_fields [] w = (if w = [] then [] else [w])"
| "go_fields (c # s) w =
     (if is_space c then (if w = [] then go_fields s [] else w # go_fields s []) else go_fields s (w @ [c]))"

definition parseUint :: "string \<Rightarrow> 64 word" where
  "parseUint s = word_of_int (fst (parse_uint s))"

text \<open>Idle and total time in the first line, which begins with \<open>cpu\<close> and two blanks. A shorter line,
  or one with fewer than four numbers, is a panic.\<close>

definition stat_times :: "string \<Rightarrow> (64 word \<times> 64 word) res" where
  "stat_times line =
     (if length line < 5 then Inl SliceOutOfRange
      else
        let split = go_fields (drop 5 line) []
        in res_bind (go_index split 3)
             (\<lambda>idle. Inr (parseUint idle, sum_list (map parseUint split))))"

record stat_state =
  prevIdleTime :: "64 word"
  prevTotalTime :: "64 word"
  ticks :: nat

definition stat_init :: stat_state where
  "stat_init = \<lparr>prevIdleTime = 0, prevTotalTime = 0, ticks = 0\<rparr>"

text \<open>One tick: the usage it stores, if any, and the next state.\<close>

definition stat_tick :: "'f float_ops \<Rightarrow> string \<Rightarrow> stat_state \<Rightarrow> ('f option \<times> stat_state) res" where
  "stat_tick F line s =
     res_bind (stat_times line) (\<lambda>(idleTime, totalTime).
       let usage =
             (if ticks s > 0 then
                let deltaIdleTime = idleTime - prevIdleTime s;
                    deltaTotalTime = totalTime - prevTotalTime s
                in Some (f_mul F (f_sub F (f_of F 1) (f_div F (f_of F (uint deltaIdleTime)) (f_of F (uint deltaTotalTime))))
                          (f_of F 100))
              else None)
       in Inr (usage, \<lparr>prevIdleTime = idleTime, prevTotalTime = totalTime, ticks = ticks s + 1\<rparr>))"

section \<open>Storing what was measured\<close>

text \<open>A tick of each parser, on the usage it keeps up to date.\<close>

definition procMeminfoParser :: "64 word float_ops \<Rightarrow> string list \<Rightarrow> resource_usage \<Rightarrow> resource_usage" where
  "procMeminfoParser F lines ru = setCurrent (f_eq F) (memory_usage F lines) ru"

definition procStatParser ::
  "64 word float_ops \<Rightarrow> string \<Rightarrow> resource_usage \<times> stat_state \<Rightarrow> (resource_usage \<times> stat_state) res" where
  "procStatParser F line rs =
     (let (ru, s) = rs in
      res_bind (stat_tick F line s) (\<lambda>(usage, s).
        Inr (case usage of None \<Rightarrow> ru | Some u \<Rightarrow> setCurrent (f_eq F) u ru, s)))"

text \<open>What is stored is what was measured, up to what the comparison of floats takes to be equal; the
  first tick of the parser of \<open>/proc/stat\<close> stores nothing, every other one does, and no tick touches
  the target.\<close>

lemma stat_tick_shape:
  "stat_tick F line s = Inr (u, s') \<Longrightarrow> ticks s' = ticks s + 1 \<and> (u = None \<longleftrightarrow> ticks s = 0)"
  by (auto simp: stat_tick_def Let_def res_bind_Inr split: prod.splits if_splits)

lemma measured_memory:
  "(\<And>x. f_eq F x x) \<Longrightarrow> f_eq F (current (procMeminfoParser F lines ru)) (memory_usage F lines) \<and>
    target (procMeminfoParser F lines ru) = target ru"
  by (simp add: procMeminfoParser_def setCurrent_def)

lemma measured_cpu:
  assumes "\<And>x. f_eq F x x" and "procStatParser F line (ru, s) = Inr (ru', s')"
  shows "target ru' = target ru \<and> ticks s' = ticks s + 1 \<and>
    (if ticks s = 0 then ru' = ru else \<exists>u. stat_tick F line s = Inr (Some u, s') \<and> f_eq F (current ru') u)"
proof -
  obtain u where u: "stat_tick F line s = Inr (u, s')"
    "ru' = (case u of None \<Rightarrow> ru | Some u \<Rightarrow> setCurrent (f_eq F) u ru)"
    using assms(2) by (auto simp: procStatParser_def res_bind_Inr)
  with stat_tick_shape [OF u(1)] assms(1) show ?thesis by (cases u) (auto simp: setCurrent_def)
qed

section \<open>Placing load\<close>

text \<open>The controller's interval in milliseconds and that of its ticker.\<close>

record 'f controller =
  interval :: 'f
  prevInterval :: 'f
  tickerMs :: int

definition controller_init :: "'f float_ops \<Rightarrow> 'f controller" where
  "controller_init F =
     (let i = f_of F 1000 in \<lparr>interval = i, prevInterval = i, tickerMs = f_int F i\<rparr>)"

definition controller_ratio :: "'f float_ops \<Rightarrow> 'f \<Rightarrow> 'f controller \<Rightarrow> 'f controller" where
  "controller_ratio F newRatio c =
     (if \<not> f_eq F (prevInterval c) (f_mul F newRatio (interval c)) then
        (let i = f_mul F (interval c) newRatio;
             c = c\<lparr>interval := i, prevInterval := i\<rparr>
         in if f_less F (f_of F 1) i then c\<lparr>tickerMs := f_int F i\<rparr> else c)
      else c)"

text \<open>The ratio that a tick of \<open>cpuStress\<close> sends.\<close>

definition new_ratio :: "'f float_ops \<Rightarrow> 'f \<Rightarrow> 'f \<Rightarrow> 'f" where
  "new_ratio F usage curCPUUsage =
     (if f_less F curCPUUsage usage
      then f_sub F (f_of F 1) (f_div F (f_sub F usage curCPUUsage) (f_of F 1000))
      else f_add F (f_of F 1) (f_div F (f_sub F curCPUUsage usage) (f_of F 1000)))"

section \<open>What is read\<close>

lemma digits_no_space: "list_all is_digit s \<Longrightarrow> list_all (\<lambda>c. \<not> is_space c) s"
  by (auto simp: list_all_iff is_digit_code is_space_def)

lemma mem_line_value:
  assumes "CHR '':'' \<notin> set name" and "list_all is_digit val" and "val \<noteq> []" and "list_all is_space blanks"
  shows "mem_line (name @ '':'' @ blanks @ val @ '' kB'') = Some (name, val)"
proof -
  let ?r = "blanks @ val @ '' kB''"
  have t: "takeWhile (\<lambda>c. c \<noteq> CHR '':'') (name @ '':'' @ ?r) = name"
    and d: "dropWhile (\<lambda>c. c \<noteq> CHR '':'') (name @ '':'' @ ?r) = '':'' @ ?r"
    using assms(1) by (subst takeWhile_append2 dropWhile_append2; force)+
  have digit: "\<not> is_space c" if "c \<in> set val" for c
    using digits_no_space [OF assms(2)] that by (simp add: list_all_iff)
  have "trim_right is_kB ?r = blanks @ val @ '' ''"
    by (simp add: trim_right_def is_kB_def)
  moreover have "trim_left is_space (blanks @ val @ '' '') = val @ '' ''"
  proof -
    have "dropWhile is_space (blanks @ val @ '' '') = dropWhile is_space (val @ '' '')"
      using assms(4) by (simp add: list_all_iff)
    also have "\<dots> = val @ '' ''" using digit assms(3) by (cases val) simp_all
    finally show ?thesis by (simp add: trim_left_def)
  qed
  moreover have "trim_right is_space (val @ '' '') = val"
    using digit assms(3) by (cases val rule: rev_cases) (simp_all add: trim_right_def is_space_def)
  ultimately have "trim_space (trim_right is_kB ?r) = val"
    by (simp add: trim_space_def trim_def)
  then show ?thesis unfolding mem_line_def t d by simp
qed

lemma getMemoryTotal_skip:
  "\<forall>l \<in> set pre. \<forall>val. mem_line l \<noteq> Some (''MemTotal'', val) \<Longrightarrow> getMemoryTotal (pre @ ls) = getMemoryTotal ls"
  by (induction pre) (auto split: option.splits)

text \<open>The total of the memory is that of the first line for it, as the kernel prints it, in bytes; a
  hundredth of it is what one tick of the allocating goroutine adds.\<close>

theorem memory_total:
  assumes "\<forall>l \<in> set pre. \<forall>val. mem_line l \<noteq> Some (''MemTotal'', val)" and "list_all is_space blanks"
    and "int n * 1024 \<le> max_int64"
  shows "getMemoryTotal (pre @ (''MemTotal:'' @ blanks @ nat_str n @ '' kB'') # post) = Some (int n * 1024) \<and>
    allocUnit (pre @ (''MemTotal:'' @ blanks @ nat_str n @ '' kB'') # post) = Some (n * 1024 div 100)"
proof -
  have "mem_line (''MemTotal'' @ '':'' @ blanks @ nat_str n @ '' kB'') = Some (''MemTotal'', nat_str n)"
    by (rule mem_line_value [OF _ nat_str_digits nat_str_not_Nil assms(2)]) simp
  then have "mem_line (''MemTotal:'' @ blanks @ nat_str n @ '' kB'') = Some (''MemTotal'', nat_str n)"
    by simp
  moreover have "atoi (nat_str n) = (int n, True)"
    using assms(3) by (simp add: atoi_digits [OF nat_str_not_Nil nat_str_digits] max_int64_def)
  moreover have "wrap64 (int n * 1024) = int n * 1024"
    by (rule wrap64_id) (use assms(3) in \<open>simp_all add: min_int64_def\<close>)
  ultimately have "getMemoryTotal (pre @ (''MemTotal:'' @ blanks @ nat_str n @ '' kB'') # post) = Some (int n * 1024)"
    by (simp add: getMemoryTotal_skip [OF assms(1)] del: append.simps)
  moreover have "nat (int n * 1024 div 100) = n * 1024 div 100"
    by (metis nat_int of_nat_mult of_nat_numeral zdiv_int)
  ultimately show ?thesis by (simp add: allocUnit_def del: append.simps)
qed

theorem memory_total_witness:
  "getMemoryTotal [''MemFree: 1 kB'', ''MemTotal:   2000000 kB''] = Some 2048000000"
proof -
  have "mem_line ''MemFree: 1 kB'' = Some (''MemFree'', ''1'')"
    using mem_line_value [of "''MemFree''" "''1''" "'' ''"] by (simp add: is_digit_code is_space_def)
  then have "\<forall>l \<in> set [''MemFree: 1 kB'']. \<forall>val. mem_line l \<noteq> Some (''MemTotal'', val)" by simp
  moreover have "nat_str 2000000 = ''2000000''" by (simp add: nat_str.simps char_of_eq_iff)
  ultimately show ?thesis
    using memory_total [of "[''MemFree: 1 kB'']" "''   ''" 2000000 "[]"]
    by (simp add: is_space_def max_int64_def)
qed

lemma fields_word:
  "list_all (\<lambda>c. \<not> is_space c) w \<Longrightarrow> acc @ w \<noteq> [] \<Longrightarrow> go_fields (w @ CHR '' '' # s) acc = (acc @ w) # go_fields s []"
  by (induction w arbitrary: acc) (auto simp: is_space_def)

lemma fields_last: "list_all (\<lambda>c. \<not> is_space c) w \<Longrightarrow> acc @ w \<noteq> [] \<Longrightarrow> go_fields w acc = [acc @ w]"
  by (induction w arbitrary: acc) auto

lemma fields_join:
  "list_all (\<lambda>w. w \<noteq> [] \<and> list_all (\<lambda>c. \<not> is_space c) w) ws \<Longrightarrow> go_fields (join '' '' ws) [] = ws"
proof (induction ws)
  case (Cons w ws)
  then show ?case
    by (cases ws) (simp_all add: fields_last fields_word join_Cons)
qed simp

lemma parseUint_nat: "n < 2 ^ 64 \<Longrightarrow> parseUint (nat_str n) = of_nat n"
  by (simp add: parseUint_def parse_uint_digits nat_str_digits)

definition stat_line :: "nat list \<Rightarrow> string" where
  "stat_line ns = ''cpu  '' @ join '' '' (map nat_str ns)"

lemma stat_times_line:
  assumes "length ns \<ge> 4" and "\<forall>n \<in> set ns. n < 2 ^ 64"
  shows "stat_times (stat_line ns) = Inr (of_nat (ns ! 3), of_nat (sum_list ns))"
proof -
  have "go_fields (join '' '' (map nat_str ns)) [] = map nat_str ns"
    by (rule fields_join) (simp add: list_all_iff digits_no_space [OF nat_str_digits, unfolded list_all_iff])
  moreover have "sum_list (map parseUint (map nat_str ns)) = of_nat (sum_list ns)"
    using assms(2) by (induction ns) (simp_all add: parseUint_nat)
  ultimately show ?thesis
    using assms by (simp add: stat_times_def stat_line_def go_index_def Let_def parseUint_nat)
qed

text \<open>The measured usage is that of the time since the tick before, also when a counter or the sum of
  the counters has passed the end of its 64 bits: with \<open>idle\<close> of the \<open>spent\<close> units of time spent
  idle, it is 100 times what is left of 1 after their quotient.\<close>

theorem cpu_usage_between:
  assumes "length ns \<ge> 4" and "\<forall>n \<in> set ns. n < 2 ^ 64" and "length ms \<ge> 4" and "\<forall>m \<in> set ms. m < 2 ^ 64"
    and "stat_tick F (stat_line ns) s = Inr (u, t)"
    and "ms ! 3 = ns ! 3 + idle" and "sum_list ms = sum_list ns + spent" and "spent < 2 ^ 64" and "idle < 2 ^ 64"
  shows "\<exists>t'. stat_tick F (stat_line ms) t =
    Inr (Some (f_mul F (f_sub F (f_of F 1) (f_div F (f_of F (int idle)) (f_of F (int spent)))) (f_of F 100)), t')"
proof -
  have t: "prevIdleTime t = of_nat (ns ! 3)" "prevTotalTime t = of_nat (sum_list ns)" "ticks t > 0"
    using assms(5) by (auto simp: stat_tick_def stat_times_line [OF assms(1,2)] Let_def)
  have w: "uint (of_nat n :: 64 word) = int n" if "n < 2 ^ 64" for n
    using that by (simp add: unsigned_of_nat take_bit_nat_eq_self)
  have "of_nat (ms ! 3) - (of_nat (ns ! 3) :: 64 word) = of_nat idle"
    and "of_nat (sum_list ms) - (of_nat (sum_list ns) :: 64 word) = of_nat spent"
    by (simp_all add: assms(6,7))
  then show ?thesis
    using w [OF assms(8)] w [OF assms(9)] t(3)
    by (simp add: stat_tick_def stat_times_line [OF assms(3,4)] t(1,2) Let_def)
qed

text \<open>The load loop's ticker never gets an interval below one millisecond, which \<open>NewTicker\<close> would
  refuse, if a float above 1 is cut to a whole number of at least 1.\<close>

lemma ticker_positive:
  assumes "\<And>x. f_less F (f_of F 1) x \<Longrightarrow> 1 \<le> f_int F x" and "1 \<le> f_int F (f_of F 1000)"
  shows "1 \<le> tickerMs (foldl (\<lambda>c r. controller_ratio F r c) (controller_init F) rs)"
proof -
  have "1 \<le> tickerMs c \<Longrightarrow> 1 \<le> tickerMs (foldl (\<lambda>c r. controller_ratio F r c) c rs)" for c
    by (induction rs arbitrary: c) (simp_all add: controller_ratio_def Let_def assms(1))
  then show ?thesis using assms(2) by (simp add: controller_init_def Let_def)
qed

end
