(* ===== verification/Certs.thy ===== *)
theory Certs
  imports NetIP
begin

text \<open>
  main.go: \<open>decodeMtlsCert\<close>, the text shown for the client certificates that a load balancer has
  passed on in a header. Parameters: the PEM decoder with the rest it leaves, the X.509 parser and
  the printer of a certificate, the last two with their error text.
\<close>

section \<open>The header value\<close>

text \<open>\<open>url.PathUnescape\<close>: an escape is a percent sign and two hexadecimal digits.\<close>

fun path_unescape :: "string \<Rightarrow> string option" where
  "path_unescape [] = Some []"
| "path_unescape (c # s) =
     (if c = CHR ''%'' then
        (case s of
           a # b # s' \<Rightarrow>
             (if is_hex a \<and> is_hex b
              then map_option (\<lambda>r. char_of (nat (16 * hex_val a + hex_val b)) # r) (path_unescape s')
              else None)
         | _ \<Rightarrow> None)
      else map_option (\<lambda>r. c # r) (path_unescape s))"

section \<open>The certificates\<close>

record 'c cert_env =
  pemDecode :: "string \<Rightarrow> (string \<times> string) option"
  parseCert :: "string \<Rightarrow> string + 'c"
  certText :: "'c \<Rightarrow> string + string"

definition newline :: string where
  "newline = [CHR 0x0A]"

definition cert_title :: "nat \<Rightarrow> string" where
  "cert_title certIndex = ''== ['' @ itoa (int certIndex) @ ''] ============'' @ newline"

partial_function (option) cert_loop :: "'c cert_env \<Rightarrow> nat \<Rightarrow> string \<Rightarrow> string \<Rightarrow> string option" where
  "cert_loop E certIndex certInfo certBytes =
     (let certIndex = certIndex + 1;
          certInfo = certInfo @ cert_title certIndex
      in case pemDecode E certBytes of
           None \<Rightarrow> Some (certInfo @ ''Certificate decoding error'')
         | Some (certBlock, rest) \<Rightarrow>
             (case parseCert E certBlock of
                Inl err \<Rightarrow> Some (certInfo @ ''Certificate parsing error: '' @ err)
              | Inr cert \<Rightarrow>
                  (case certText E cert of
                     Inl err \<Rightarrow> Some (certInfo @ ''Certificate info converting error: '' @ err)
                   | Inr result \<Rightarrow>
                       (let certInfo = certInfo @ result @ newline in
                        if rest = [] then Some certInfo
                        else cert_loop E certIndex certInfo rest))))"

definition decodeMtlsCert :: "'c cert_env \<Rightarrow> string \<Rightarrow> string option" where
  "decodeMtlsCert E certStr =
     (case path_unescape certStr of
        None \<Rightarrow> Some ''URL decoding error''
      | Some certBytes \<Rightarrow> cert_loop E 0 [] certBytes)"

section \<open>It returns\<close>

definition pem_shortens :: "'c cert_env \<Rightarrow> bool" where
  "pem_shortens E = (\<forall>b block rest. pemDecode E b = Some (block, rest) \<longrightarrow> length rest < length b)"

lemma cert_loop_returns:
  assumes "pem_shortens E"
  shows "\<exists>t. cert_loop E i info b = Some (info @ cert_title (Suc i) @ t)"
proof (induction "length b" arbitrary: b i info rule: less_induct)
  case less
  have "\<exists>t. cert_loop E (Suc i) (info @ cert_title (Suc i) @ r @ newline) rest =
      Some ((info @ cert_title (Suc i) @ r @ newline) @ cert_title (Suc (Suc i)) @ t)"
    if "pemDecode E b = Some (block, rest)" for block rest r
  proof (rule less)
    show "length rest < length b" using that assms by (simp add: pem_shortens_def)
  qed
  then show ?case
    by (subst cert_loop.simps) (fastforce simp: Let_def split: option.split sum.split)
qed

text \<open>What a list of certificates in one header is shown as: each under its number.\<close>

fun chain :: "'c cert_env \<Rightarrow> string \<Rightarrow> string list \<Rightarrow> bool" where
  "chain E b [] = False"
| "chain E b (r # rs) =
     (\<exists>block rest cert. pemDecode E b = Some (block, rest) \<and> parseCert E block = Inr cert \<and> certText E cert = Inr r \<and>
        (if rs = [] then rest = [] else rest \<noteq> [] \<and> chain E rest rs))"

fun shown :: "nat \<Rightarrow> string list \<Rightarrow> string" where
  "shown i [] = []"
| "shown i (r # rs) = cert_title (Suc i) @ r @ newline @ shown (Suc i) rs"

lemma cert_loop_chain: "chain E b rs \<Longrightarrow> cert_loop E i info b = Some (info @ shown i rs)"
proof (induction rs arbitrary: b i info)
  case (Cons r rs)
  then show ?case by (subst cert_loop.simps) (auto simp: Let_def split: if_splits)
qed simp

text \<open>The text for a header ends in every case, since the decoder takes something away from its input
  whenever it finds a block; and it shows every certificate of a well-formed header, in order and
  under its number.\<close>

theorem mtls_text:
  assumes "pem_shortens E"
  shows "(\<exists>t. decodeMtlsCert E c = Some t) \<and>
    (path_unescape c = Some b \<and> chain E b rs \<longrightarrow> decodeMtlsCert E c = Some (shown 0 rs))"
  using cert_loop_returns [OF assms] cert_loop_chain [of E b rs]
  by (fastforce simp: decodeMtlsCert_def split: option.split)

text \<open>A toy decoder whose blocks are the lines.\<close>

definition line_blocks :: "string cert_env" where
  "line_blocks = \<lparr>pemDecode = (\<lambda>b. if CHR 0x0A \<in> set b
       then Some (takeWhile (\<lambda>c. c \<noteq> CHR 0x0A) b, tl (dropWhile (\<lambda>c. c \<noteq> CHR 0x0A) b)) else None),
     parseCert = Inr, certText = Inr\<rparr>"

lemma drop_shortens: "CHR 0x0A \<in> set b \<Longrightarrow> length (tl (dropWhile (\<lambda>c. c \<noteq> CHR 0x0A) b)) < length b"
proof -
  assume a: "CHR 0x0A \<in> set b"
  then have "dropWhile (\<lambda>c. c \<noteq> CHR 0x0A) b \<noteq> []" by auto
  moreover have "length (dropWhile (\<lambda>c. c \<noteq> CHR 0x0A) b) \<le> length b" by (rule length_dropWhile_le)
  ultimately show ?thesis by (cases "dropWhile (\<lambda>c. c \<noteq> CHR 0x0A) b") auto
qed

theorem mtls_text_witness:
  "decodeMtlsCert line_blocks ''A%0Ab%0a'' =
    Some (cert_title 1 @ ''A'' @ newline @ cert_title 2 @ ''b'' @ newline)"
proof -
  have s: "pem_shortens line_blocks"
    using drop_shortens by (auto simp: pem_shortens_def line_blocks_def)
  have u: "path_unescape ''A%0Ab%0a'' = Some (''A'' @ newline @ ''b'' @ newline)"
    by (simp add: is_hex_def is_digit_code hex_val_def digit_val_def newline_def less_eq_char_def char_of_eq_iff)
  have c: "chain line_blocks (''A'' @ newline @ ''b'' @ newline) [''A'', ''b'']"
    by (simp add: line_blocks_def newline_def)
  show ?thesis
    using mtls_text [OF s, of "''A%0Ab%0a''" "''A'' @ newline @ ''b'' @ newline" "[''A'', ''b'']"] u c
    by (simp add: numeral_2_eq_2)
qed

end
