(* ===== verification/Spec2Isabelle.thy ===== *)
theory Spec2Isabelle
  imports GrpcBidi StreamLog ChatJson Readable Answering AccessLog LoadLock Lambda ServerStart Shutdown Proc Certs
begin

text \<open>
  A verification development for gelbo, an HTTP and gRPC server that answers a request with what it
  knows of the connection and of itself, and on request sleeps, loads the CPU or the memory, pads
  its answer, adds headers, fails with a status or closes the connection. The Go sources are in
  src/; every definition named below carries the name of the function it translates.

  \<^bold>\<open>How the parts interact\<close>

  A request reaches a handler through a wrapper (main.go \<open>handlerWrapper\<close>, grpc.go's interceptors,
  lambda.go \<open>lambdaHandler\<close>) that finds the connection of the request in a table keyed by the two
  addresses, numbers the request on it and counts it. The handler reads the request's parameters as
  commands (types.go \<open>validateCommands\<close>), decides whether they ask for anything (\<open>needsAction\<close>),
  draws the values (\<open>evaluate\<close>) and performs them in a fixed order (main.go \<open>execAction\<close>, grpc.go
  \<open>execGrpcAction\<close>). Counters are kept per remote address and in total. In HTTP one goroutine does
  all of this; a gRPC stream has several, which talk by channels and a wait group; the chat has a
  hub and two pumps per connection.

  \<^bold>\<open>Theories and sources\<close>

  \<^item> Prelude: Go's strings, \<open>strconv.Atoi\<close>, wrapping 64-bit integers, panics as the left side of a
    sum (\<open>res\<close>), maps with an explicit order, and two locales: \<open>invariant_system\<close>, by which every step
    relation gets its reachability argument, and \<open>ranked_system\<close>, by which its runs are bounded.
  \<^item> Regex, Validator (types.go \<open>newValidator\<close>): the patterns of the parameters, their matcher by
    derivatives, its equivalence with the language of the pattern, and what each table accepts.
  \<^item> NetIP (types.go \<open>matchIPValue\<close>, \<open>judgeActualValue\<close>): address conditions over the parsers of
    package \<open>net\<close>.
  \<^item> Commands, Evaluate (types.go \<open>Commands\<close>): reading, deciding, drawing. The locale \<open>keyed_store\<close>
    states what a field written is when it is read; the header map is its second instance.
  \<^item> Addr (types.go \<open>extractIPAddress\<close>, \<open>extractPort\<close>, \<open>splitXFF\<close>), NodeInfo (nodeinfo.go, types.go
    \<open>RemoteNodeMap\<close>), HeaderMap (types.go), Response (response.go), Resource (types.go
    \<open>ResourceUsage\<close>, cpu.go \<open>cpuStress\<close>, memory.go \<open>memoryAllocate\<close>).
  \<^item> Conns, ConnInv, ConnProps (types.go \<open>ConnStateMap\<close>, main.go \<open>OnStateChange\<close>, \<open>disconnect\<close>,
    \<open>closeConnection\<close>, grpc.go's tracked connections, h2c.go's recount): the table and the counters,
    their events as the relation \<open>conn_step\<close>, its invariants, and the properties.
  \<^item> Json, RespJson (types.go's tagged structs, main.go \<open>jsonMarshalIndent\<close>): values, the texts that
    \<open>encoding/json\<close> makes of them, and a reader of these texts, over the locale \<open>layout\<close> of the two
    ways they are laid out; the structs of a response and of a node as values.
  \<^item> HttpAction, HttpHandler (main.go \<open>defaultHandler\<close>, \<open>execAction\<close>, logger.go): the default route
    from request to bytes, counters and access log. Readable: what a client reads out of the bytes.
    Answering: requests and the events of the connections as one relation \<open>server_step\<close>.
  \<^item> AccessLog (logger.go): the fields of all log lines.
  \<^item> LoadLock (types.go \<open>setTarget\<close> and the reads of the usage, cpu.go \<open>cpuStress\<close>, memory.go
    \<open>memoryAllocate\<close>): the lock and the channel between requests and the goroutines that make load,
    as the relation \<open>load_step\<close>; Resource has the same operations one after the other.
  \<^item> Lambda (lambda.go): the load balancer's event to a request and the response back.
  \<^item> Grpc, GrpcServe (grpc.go): requests and commands as maps, call metadata, the handler as the
    sequence of its channel operations, the two methods with one answer, unregistered methods, and
    the interceptors.
  \<^item> GrpcStream, GrpcBidi (grpc.go \<open>ServerStream\<close>, \<open>BidiStream\<close>): the goroutines of a call as the
    relations \<open>stream_step\<close> and \<open>bidi_step\<close>. One step is one operation of one goroutine; a channel
    without a buffer is a joint step of the sender and the receiver.
  \<^item> Chat (websocket.go): the hub, the pumps and the colors, as the relation \<open>chat_step\<close>. ChatJson:
    the texts of its messages.
  \<^item> Routes (main.go, nodeinfo.go, files.go, h2c.go): \<open>/env/\<close>, \<open>/exec/\<close>, \<open>/monitor/\<close>, the embedded
    files, the protocol of a request and the HTTP/2 client preface.
  \<^item> StreamLog (grpc.go \<open>streamWrapper\<close>): the log lines of a stream. Certs (main.go
    \<open>decodeMtlsCert\<close>): the text shown for client certificates.
  \<^item> Startup (init.go; main.go \<open>getIPAddress\<close>): flags, ping periods, what the host is known as.
    ServerStart (main.go \<open>main\<close>, grpc.go \<open>startGrpcServer\<close>): the program from its \<open>init\<close> to the process
    that runs, the routes and the configurations of the servers. Shutdown
    (main.go \<open>stopHandler\<close>): the graceful stop as the relation \<open>stop_step\<close>. Proc (cpu.go
    \<open>procStatParser\<close>, \<open>cpuUsageController\<close>; memory.go \<open>getMemoryTotal\<close>, \<open>procMeminfoParser\<close>): the
    measured load.

  \<^bold>\<open>What the lemmas show\<close>

  \<^item> Commands: exactly which parameters make a request act; each recognised name is in one of the
    four lists; a range draws every value between its ends and no other, and panics for the one
    range whose width does not fit in 64 bits; which fields the result has.
  \<^item> Addresses: a CIDR condition compares the network bits; a joined host and port come apart.
  \<^item> Connections: the total is the number of live connections in every run, the totals are the sums
    over the remote nodes, counting a request never dereferences an unknown node; the lookup by
    remote address; what a disconnect does when it races with the server's own callback, when two
    listeners see the same client port, and behind a proxy.
  \<^item> Default route: in every run of the server a request over a known connection is answered, with the
    announced length and the logged size and status, and leaves the counters balanced; the body has
    the requested size and the writers agree; the delay of a sleep; what the log omits.
  \<^item> JSON: every text is read back as the value it was made of, whatever bytes its strings have, and a
    client reads host, load, request and commands out of an answer; the monitor's counts are those
    of the open connections and of the requests in a handler.
  \<^item> Load: the goroutine works towards the target and has at most one controller, whatever calls
    overlap; the one way in which a call, the goroutine and everything that reads the usage get stuck
    for ever; two overlapping calls for no load leave a controller running.
  \<^item> gRPC: echo of the request, addresses, the status sent; a stream never sends on a closed channel,
    its count never goes below zero, a call ends in every run and delivers every response when it
    ends without error; it refines the contract \<open>call_step\<close>; the order of an error and a decrement
    lets a call that should fail succeed; the bidirectional call leaks its sender.
  \<^item> Chat: the hub itself never panics, a broadcast reaches exactly the members with room and drops
    the others, and a pump can still panic the program. Environment: no secret is shown.
  \<^item> Start and stop: the ping period is less than the wait up to a bound on the flag and overflows
    beyond it; the host's identity on and off EC2; a graceful stop always ends, and before its
    deadline only when no request is in flight on a connection of the servers' own.

  \<^bold>\<open>Bounds, loops and fuel\<close>

  Loops over finite data are structural recursions. \<open>rand_loop\<close> draws until it has enough usable
  letters, which no bound on the draws guarantees: it is a partial function whose result None is not
  returning, and for a source that is fair (\<open>fair\<close>, usable letters keep coming) it is proved to
  return. Liveness of a stream is by a rank that every step lowers, so that a run has at most that
  many steps, together with a lemma that a state in which the call has not returned has a step; no
  fuel is used. The loop over the certificates of a header is a partial function too, and returns
  because the decoder takes away what it decodes. Counters are 64-bit words and wrap as Go's do; a
  parsed number saturates as
  \<open>strconv.Atoi\<close> does; the width of a range is computed with \<open>wrap64\<close>.

  \<^bold>\<open>Parameters\<close>

  The clock, random sources, the text of a float, the decoding of a chat message, base64, query parsing, the environment,
  what a child process prints, the iteration order of a Go map (a list argument, or any order of the
  keys), the metadata services and the interfaces of the host, the lines of files in /proc, float arithmetic, the
  PEM and X.509 decoders and the contents of the embedded files are arguments of the definitions
  that use them.

  \<^bold>\<open>Not modelled\<close>

  The four servers and their listeners once they are configured, the TLS key pair, the timers, whose
  ticks are events, and the busy loops of the load, the text and the times of log lines, and the
  generated protocol code, whose messages are records here: they are calls into the standard library
  and third-party packages, or output only. The upgrade, deadlines and pings of a chat connection may
  fail at any step of its pumps and are otherwise left out. Data races are not visible in a model
  whose steps are atomic; the maps of the remote nodes and of the chat hub are read without their
  locks. The handlers read and set the load's targets in one step each; that these steps can wait for
  ever is the subject of LoadLock.
\<close>

end
